(* ===== verification/ZF_Prelude.thy ===== *)
theory ZF_Prelude
  imports "HOL-Library.Word"
begin

text \<open>
  Shared vocabulary of the development: bytes and machine integers, Go slices and \<open>copy\<close>,
  the big-endian codecs of \<open>encoding/binary\<close>, and the interface locale \<open>fixed_codec\<close> (a value
  written on a fixed number of bytes).
\<close>

unbundle bit_operations_syntax

named_theorems go_simps \<open>rewriting of Go slice and codec operations\<close>

section \<open>Bytes and machine integers\<close>

type_synonym byte = "8 word"
type_synonym u16 = "16 word"
type_synonym u32 = "32 word"
type_synonym u64 = "64 word"
type_synonym bytes = "byte list"

text \<open>A time is a number of nanoseconds since Go's zero time; durations are numbers of nanoseconds.\<close>

type_synonym time = int

text \<open>\<open>[]byte("...")\<close>: the bytes of a string literal.\<close>

definition bytes_of :: "string \<Rightarrow> bytes" where
  "bytes_of s = map of_char s"

lemma length_bytes_of [simp]: "length (bytes_of s) = length s"
  by (simp add: bytes_of_def)

lemma unat_of_nat_small: "n < 2 ^ LENGTH('a) \<Longrightarrow> unat (of_nat n :: 'a::len word) = n"
  by (simp add: unat_of_nat)

lemma word_less_pred: "x < y \<Longrightarrow> x \<le> y - (1 :: 'a::len word)"
  by unat_arith

section \<open>Slices\<close>

text \<open>
  \<open>copy(dst[lo:hi], src)\<close> overwrites \<open>min (hi - lo) (len src)\<close> bytes of \<open>dst\<close> from \<open>lo\<close> on and
  leaves the others as they are.
\<close>

definition go_copy :: "'a list \<Rightarrow> nat \<Rightarrow> nat \<Rightarrow> 'a list \<Rightarrow> 'a list" where
  "go_copy dst lo hi src =
     (let n = min (hi - lo) (length src) in take lo dst @ take n src @ drop (lo + n) dst)"

lemma length_go_copy [simp]:
  "lo \<le> hi \<Longrightarrow> hi \<le> length dst \<Longrightarrow> length (go_copy dst lo hi src) = length dst"
  by (auto simp: go_copy_def Let_def)

text \<open>Writing consecutive fields into a buffer: what is left of the cursor is final.\<close>

lemma go_copy_append:
  "length a = lo \<Longrightarrow> length src = hi - lo \<Longrightarrow> lo \<le> hi \<Longrightarrow> hi \<le> length (a @ b) \<Longrightarrow>
   go_copy (a @ b) lo hi src = (a @ src) @ drop (hi - lo) b"
  by (auto simp: go_copy_def Let_def)

text \<open>The slice expression \<open>b[lo:hi]\<close>.\<close>

definition go_slice :: "'a list \<Rightarrow> nat \<Rightarrow> nat \<Rightarrow> 'a list" where
  "go_slice b lo hi = take (hi - lo) (drop lo b)"

lemma length_go_slice [simp]:
  "hi \<le> length b \<Longrightarrow> length (go_slice b lo hi) = hi - lo"
  by (simp add: go_slice_def)

lemma go_slice_append:
  "length a = lo \<Longrightarrow> length m = hi - lo \<Longrightarrow> go_slice (a @ m @ r) lo hi = m"
  by (simp add: go_slice_def)

section \<open>Big-endian integers: encoding/binary.BigEndian\<close>

text \<open>
  \<open>PutUint16/32/64\<close> write the bytes of an unsigned integer from the most significant one on;
  \<open>Uint16/32/64\<close> read them back. All widths are instances of one pair of functions.
\<close>

primrec be_put :: "nat \<Rightarrow> 'a::len word \<Rightarrow> bytes" where
  "be_put 0 v = []"
| "be_put (Suc n) v = be_put n (drop_bit 8 v) @ [ucast v]"

definition be_get :: "bytes \<Rightarrow> 'a::len word" where
  "be_get = foldl (\<lambda>acc b. push_bit 8 acc OR ucast b) 0"

lemma length_be_put [simp]: "length (be_put n v) = n"
  by (induction n arbitrary: v) auto

lemma be_get_Nil [simp]: "be_get [] = 0"
  by (simp add: be_get_def)

lemma be_get_snoc: "be_get (bs @ [b]) = push_bit 8 (be_get bs) OR ucast b"
  by (simp add: be_get_def)

lemma be_get_put: "be_get (be_put n (v :: 'a::len word)) = take_bit (8 * n) v"
proof (induction n arbitrary: v)
  case 0
  then show ?case by simp
next
  case (Suc n)
  have "push_bit 8 (take_bit (8 * n) (drop_bit 8 v)) OR ucast (ucast v :: byte)
      = take_bit (8 * Suc n) v"
    by (rule bit_word_eqI) (auto simp: bit_simps)
  then show ?case by (simp add: be_get_snoc Suc.IH)
qed

lemma bit_be_get_bound: "bit (be_get bs :: 'a::len word) n \<Longrightarrow> n < 8 * length bs"
proof (induction bs arbitrary: n rule: rev_induct)
  case Nil
  then show ?case by simp
next
  case (snoc b bs)
  then consider "8 \<le> n" "bit (be_get bs :: 'a word) (n - 8)" | "bit b n"
    by (auto simp: be_get_snoc bit_simps)
  then show ?case
  proof cases
    case 1
    with snoc.IH [of "n - 8"] show ?thesis by simp
  next
    case 2
    then have "n < 8" using bit_imp_le_length [of b n] by simp
    then show ?thesis by simp
  qed
qed

lemma be_put_get:
  "8 * length bs \<le> LENGTH('a) \<Longrightarrow> be_put (length bs) (be_get bs :: 'a::len word) = bs"
proof (induction bs rule: rev_induct)
  case Nil
  then show ?case by simp
next
  case (snoc b bs)
  let ?w = "be_get bs :: 'a word"
  have "bit ?w n \<Longrightarrow> 8 + n < LENGTH('a)" for n
    using snoc.prems bit_be_get_bound [of bs n] by fastforce
  moreover have "\<not> bit b (8 + n)" for n
    using bit_imp_le_length [of b "8 + n"] by auto
  ultimately have 1: "drop_bit 8 (push_bit 8 ?w OR ucast b) = ?w"
    by (intro bit_word_eqI) (auto simp: bit_simps)
  have 2: "ucast (push_bit 8 ?w OR ucast b) = b"
    using snoc.prems by (intro bit_word_eqI) (auto simp: bit_simps)
  have "be_put (Suc (length bs)) (push_bit 8 ?w OR ucast b) = be_put (length bs) ?w @ [b]"
    by (simp only: be_put.simps 1 2)
  with snoc show ?case by (simp add: be_get_snoc)
qed

lemma be_put_get_width:
  "length bs = n \<Longrightarrow> 8 * n \<le> LENGTH('a) \<Longrightarrow> be_put n (be_get bs :: 'a::len word) = bs"
  using be_put_get [of bs, where 'a = 'a] by blast

definition PutUint16 :: "u16 \<Rightarrow> bytes" where "PutUint16 = be_put 2"
definition PutUint32 :: "u32 \<Rightarrow> bytes" where "PutUint32 = be_put 4"
definition PutUint64 :: "u64 \<Rightarrow> bytes" where "PutUint64 = be_put 8"
definition Uint16 :: "bytes \<Rightarrow> u16" where "Uint16 = be_get"
definition Uint32 :: "bytes \<Rightarrow> u32" where "Uint32 = be_get"
definition Uint64 :: "bytes \<Rightarrow> u64" where "Uint64 = be_get"

text \<open>
  The contract of a fixed-width codec, and what a client that lays fields out in a buffer or
  picks them from one needs of it.
\<close>

locale fixed_codec =
  fixes width :: nat
    and put :: "'v \<Rightarrow> bytes"
    and get :: "bytes \<Rightarrow> 'v"
  assumes length_put: "length (put v) = width"
    and get_put: "get (put v) = v"
    and put_get: "length b = width \<Longrightarrow> put (get b) = b"
begin

lemma put_inj: "put v = put w \<longleftrightarrow> v = w"
  by (metis get_put)

lemma get_inj: "length b = width \<Longrightarrow> length c = width \<Longrightarrow> get b = get c \<longleftrightarrow> b = c"
  by (metis put_get)

lemma get_take: "get (take width (put v @ r)) = v"
  by (simp add: length_put get_put)

lemma get_slice: "length a = lo \<Longrightarrow> hi = lo + width \<Longrightarrow> get (go_slice (a @ put v @ r) lo hi) = v"
  by (simp add: go_slice_append length_put get_put)

end

interpretation u16be: fixed_codec 2 PutUint16 Uint16
  by unfold_locales (auto simp: PutUint16_def Uint16_def be_get_put take_bit_word_eq_self
      dest: be_put_get_width [where 'a = 16])

interpretation u32be: fixed_codec 4 PutUint32 Uint32
  by unfold_locales (auto simp: PutUint32_def Uint32_def be_get_put take_bit_word_eq_self
      dest: be_put_get_width [where 'a = 32])

interpretation u64be: fixed_codec 8 PutUint64 Uint64
  by unfold_locales (auto simp: PutUint64_def Uint64_def be_get_put take_bit_word_eq_self
      dest: be_put_get_width [where 'a = 64])

lemmas be_length [simp] = u16be.length_put u32be.length_put u64be.length_put
lemmas be_roundtrip [simp] = u16be.get_put u32be.get_put u64be.get_put

end
