(* ===== verification/Go_IO.thy ===== *)
theory Go_IO
  imports ZF_Prelude
begin

text \<open>
  Connections as the sources use them (\<open>net.Conn\<close>, \<open>io.Reader\<close>, \<open>io.Writer\<close>, \<open>io.ReadFull\<close>,
  \<open>bytes.NewReader\<close>), and two contracts that several components share: \<open>stream_codec\<close>
  (messages that delimit themselves on a byte stream) and \<open>safe_machine\<close> (operations that
  keep an invariant).
\<close>

section \<open>Connections\<close>

datatype io_err = EOF | ErrUnexpectedEOF | ErrTimeout | ErrClosed | ErrOther

text \<open>
  \<open>cn_in\<close> holds the bytes the peer has sent that are still unread and \<open>cn_end\<close> what a read
  finds after them: the end of the stream, a read deadline that expired, or another failure.
  \<open>cn_out\<close> holds the successful \<open>Write\<close> calls, one entry per call. \<open>cn_wfail\<close> says that
  writes fail, \<open>cn_closed\<close> that \<open>Close\<close> was called. Deadlines appear only through \<open>cn_end\<close>.
\<close>

record conn =
  cn_in :: bytes
  cn_end :: io_err
  cn_out :: "bytes list"
  cn_wfail :: bool
  cn_closed :: bool

definition fresh_conn :: "bytes \<Rightarrow> io_err \<Rightarrow> conn" where
  "fresh_conn bs e = \<lparr>cn_in = bs, cn_end = e, cn_out = [], cn_wfail = False, cn_closed = False\<rparr>"

text \<open>\<open>bytes.NewReader\<close>: the given bytes, then the end of the stream.\<close>

definition bytes_NewReader :: "bytes \<Rightarrow> conn" where
  "bytes_NewReader data = fresh_conn data EOF"

text \<open>
  \<open>io.ReadFull(r, buf)\<close> for a buffer of \<open>n\<close> bytes: all of them or an error. A stream that ends
  before the first byte gives \<open>EOF\<close>, one that ends later gives \<open>ErrUnexpectedEOF\<close>; other read
  errors are returned as they are. The bytes read before an error are gone.
\<close>

definition ReadFull :: "nat \<Rightarrow> conn \<Rightarrow> (io_err + bytes) \<times> conn" where
  "ReadFull n c =
     (if n = 0 then (Inr [], c)
      else if cn_closed c then (Inl ErrClosed, c)
      else if n \<le> length (cn_in c) then (Inr (take n (cn_in c)), c\<lparr>cn_in := drop n (cn_in c)\<rparr>)
      else (Inl (if cn_in c \<noteq> [] \<and> cn_end c = EOF then ErrUnexpectedEOF else cn_end c),
            c\<lparr>cn_in := []\<rparr>))"

definition conn_Write :: "bytes \<Rightarrow> conn \<Rightarrow> bool \<times> conn" where
  "conn_Write p c =
     (if cn_closed c \<or> cn_wfail c then (False, c) else (True, c\<lparr>cn_out := cn_out c @ [p]\<rparr>))"

definition conn_Close :: "conn \<Rightarrow> conn" where
  "conn_Close c = c\<lparr>cn_closed := True\<rparr>"

lemma ReadFull_Inr_iff:
  "ReadFull n c = (Inr bs, c') \<longleftrightarrow>
     n = 0 \<and> bs = [] \<and> c' = c \<or>
     n \<noteq> 0 \<and> \<not> cn_closed c \<and> n \<le> length (cn_in c) \<and> bs = take n (cn_in c)
       \<and> c' = c\<lparr>cn_in := drop n (cn_in c)\<rparr>"
  by (auto simp: ReadFull_def)

lemma ReadFull_append:
  "\<not> cn_closed c \<Longrightarrow> length a = n \<Longrightarrow>
   ReadFull n (c\<lparr>cn_in := a @ r\<rparr>) = (Inr a, c\<lparr>cn_in := r\<rparr>)"
  by (auto simp: ReadFull_def)

lemma ReadFull_writes:
  "ReadFull n c = (r, c') \<Longrightarrow>
     cn_out c' = cn_out c \<and> cn_closed c' = cn_closed c \<and> cn_wfail c' = cn_wfail c \<and> cn_end c' = cn_end c"
  by (auto simp: ReadFull_def split: if_splits)

section \<open>Self-delimiting messages on a stream\<close>

fun decode_seq :: "(bytes \<Rightarrow> ('m \<times> bytes) option) \<Rightarrow> nat \<Rightarrow> bytes \<Rightarrow> ('m list \<times> bytes) option" where
  "decode_seq dec 0 bs = Some ([], bs)"
| "decode_seq dec (Suc n) bs =
     (case dec bs of None \<Rightarrow> None
      | Some (m, r) \<Rightarrow> (case decode_seq dec n r of None \<Rightarrow> None
                       | Some (ms, r') \<Rightarrow> Some (m # ms, r')))"

text \<open>
  The contract: decoding an encoded message gives it back and leaves exactly the bytes that
  followed it. Its consequence for clients: a writer's sequence of messages is the reader's.
\<close>

locale stream_codec =
  fixes enc :: "'m \<Rightarrow> bytes"
    and dec :: "bytes \<Rightarrow> ('m \<times> bytes) option"
    and ok :: "'m \<Rightarrow> bool"
  assumes dec_enc: "ok m \<Longrightarrow> dec (enc m @ r) = Some (m, r)"
begin

lemma dec_enc_exact: "ok m \<Longrightarrow> dec (enc m) = Some (m, [])"
  using dec_enc [of m "[]"] by simp

lemma enc_inj: "ok m \<Longrightarrow> ok m' \<Longrightarrow> enc m = enc m' \<longleftrightarrow> m = m'"
  by (metis dec_enc_exact option.inject prod.inject)

text \<open>No encoded message is a proper prefix of another: the stream cannot be cut in two ways.\<close>

lemma enc_prefix_free: "ok m \<Longrightarrow> ok m' \<Longrightarrow> enc m' = enc m @ r \<Longrightarrow> m' = m \<and> r = []"
  by (metis dec_enc dec_enc_exact option.inject prod.inject)

lemma decode_seq_enc:
  "list_all ok ms \<Longrightarrow> decode_seq dec (length ms) (concat (map enc ms) @ r) = Some (ms, r)"
  by (induction ms) (auto simp: dec_enc)

end

section \<open>Operations that keep an invariant\<close>

text \<open>
  A component is a state and a set of operations \<open>'e\<close> (with whatever the environment decides
  as part of the operation). The contract: every operation keeps the invariant; then every
  sequence of operations does.
\<close>

locale safe_machine =
  fixes step :: "'e \<Rightarrow> 's \<Rightarrow> 's"
    and inv :: "'s \<Rightarrow> bool"
  assumes step_inv: "inv s \<Longrightarrow> inv (step e s)"
begin

lemma run_inv: "inv s \<Longrightarrow> inv (fold step es s)"
  by (induction es arbitrary: s) (auto simp: step_inv)

lemma run_rel:
  assumes "\<And>s. R s s" and "\<And>s t u. R s t \<Longrightarrow> R t u \<Longrightarrow> R s u"
    and "\<And>e s. inv s \<Longrightarrow> R s (step e s)" and "inv s"
  shows "R s (fold step es s)"
  using assms(4)
proof (induction es arbitrary: s)
  case Nil
  then show ?case by (simp add: assms(1))
next
  case (Cons e es)
  then have "R s (step e s)" and "R (step e s) (fold step es (step e s))"
    by (auto simp: assms(3) step_inv)
  then show ?case using assms(2) by auto
qed

end

end
