(* ===== verification/Protocol.thy ===== *)
theory Protocol
  imports Go_IO
begin

text \<open>
  The wire protocol, \<open>pkg/protocol/messages.go\<close> and \<open>pkg/protocol/envelope.go\<close>: the frame
  header, \<open>Encode\<close> and \<open>Decode\<close>, and the length-prefixed padding. Go's fixed arrays
  (\<open>[16]byte\<close>, \<open>[12]byte\<close>) are byte lists whose length the type invariant \<open>wf_env\<close> states.
\<close>

section \<open>Constants and types (messages.go)\<close>

definition Version :: byte where "Version = 0x03"
definition MinSupportedVersion :: byte where "MinSupportedVersion = 0x03"

definition MsgTypePAKEInitPub :: byte where "MsgTypePAKEInitPub = 0x01"
definition MsgTypePAKEInitSub :: byte where "MsgTypePAKEInitSub = 0x02"
definition MsgTypePAKEStep2 :: byte where "MsgTypePAKEStep2 = 0x03"
definition MsgTypeDataStream :: byte where "MsgTypeDataStream = 0x04"
definition MsgTypeHeartbeat :: byte where "MsgTypeHeartbeat = 0x05"
definition MsgTypeClose :: byte where "MsgTypeClose = 0x06"
definition MsgTypeSyncReq :: byte where "MsgTypeSyncReq = 0x07"
definition MsgTypeChunkAck :: byte where "MsgTypeChunkAck = 0x08"
definition MsgTypeRekey :: byte where "MsgTypeRekey = 0x09"
definition MsgTypeKeyConfirm :: byte where "MsgTypeKeyConfirm = 0x0A"

lemmas msgtype_defs =
  MsgTypePAKEInitPub_def MsgTypePAKEInitSub_def MsgTypePAKEStep2_def MsgTypeDataStream_def
  MsgTypeHeartbeat_def MsgTypeClose_def MsgTypeSyncReq_def MsgTypeChunkAck_def
  MsgTypeRekey_def MsgTypeKeyConfirm_def

definition TagText :: byte where "TagText = 0x01"
definition TagFileStart :: byte where "TagFileStart = 0x02"
definition TagFileChunk :: byte where "TagFileChunk = 0x03"
definition TagFileEnd :: byte where "TagFileEnd = 0x04"

lemmas tag_defs = TagText_def TagFileStart_def TagFileChunk_def TagFileEnd_def

definition MagicSize :: nat where "MagicSize = 4"
definition SessionIDSize :: nat where "SessionIDSize = 16"
definition NonceSize :: nat where "NonceSize = 12"
definition HeaderSize :: nat where "HeaderSize = MagicSize + 1 + 1 + SessionIDSize + NonceSize + 4"

lemma HeaderSize_eq [simp]: "HeaderSize = 38"
  by (simp add: HeaderSize_def MagicSize_def SessionIDSize_def NonceSize_def)

definition MagicHeader :: bytes where "MagicHeader = [0x5A, 0x46, 0x45, 0x44]"

lemma MagicHeader_ZFED: "MagicHeader = bytes_of ''ZFED''"
  by (simp add: MagicHeader_def bytes_of_def)

record file_header =
  fh_TransferID :: string
  fh_Filename :: string
  fh_FileSize :: int
  fh_SHA256 :: string

record envelope =
  env_Version :: byte
  env_MsgType :: byte
  env_SessionID :: bytes
  env_Nonce :: bytes
  env_Payload :: bytes

definition wf_env :: "envelope \<Rightarrow> bool" where
  "wf_env e \<longleftrightarrow> length (env_SessionID e) = SessionIDSize \<and> length (env_Nonce e) = NonceSize"

definition zero_nonce :: bytes where "zero_nonce = replicate NonceSize 0"

text \<open>
  \<open>SerializeHeader\<close> writes the header into the first 38 bytes of \<open>buf\<close>. The bounds check
  \<open>_ = buf[HeaderSize-1]\<close> panics on a shorter buffer: \<open>None\<close>.
\<close>

definition SerializeHeader ::
    "bytes \<Rightarrow> byte \<Rightarrow> byte \<Rightarrow> bytes \<Rightarrow> bytes \<Rightarrow> u32 \<Rightarrow> bytes option" where
  "SerializeHeader buf version msgType sessionID nonce payloadLen =
     (if HeaderSize - 1 < length buf then
        let buf = go_copy buf 0 4 MagicHeader;
            buf = buf[4 := version];
            buf = buf[5 := msgType];
            buf = go_copy buf 6 22 sessionID;
            buf = go_copy buf 22 34 nonce
        in Some (go_copy buf 34 38 (PutUint32 payloadLen))
      else None)"

section \<open>Encoding and decoding (envelope.go)\<close>

datatype proto_err =
    ErrInvalidMagic
  | ErrUnsupportedVer
  | ErrPayloadTooLarge
  | ErrHeader io_err
  | ErrPayload io_err
  | ErrWriteFrame
  | ErrInvalidPadding
  | PanicBounds

definition MaxPayloadSize :: u32 where "MaxPayloadSize = 32 * 1024 * 1024"
definition MaxHandshakePayload :: u32 where "MaxHandshakePayload = 8192"

text \<open>
  \<open>Encode\<close> takes the buffer that \<open>framePool.Get\<close> hands out, 64 KiB with whatever an earlier
  frame left in it. A larger frame gets a fresh zeroed buffer. The length is truncated to 32
  bits before it is compared with the limit, as in the source.
\<close>

definition Encode :: "bytes \<Rightarrow> conn \<Rightarrow> envelope \<Rightarrow> (proto_err + unit) \<times> conn" where
  "Encode pooled w env =
     (let payloadLen = (of_nat (length (env_Payload env)) :: u32) in
      if MaxPayloadSize < payloadLen then (Inl ErrPayloadTooLarge, w)
      else
        let fullSize = HeaderSize + unat payloadLen;
            buf = (if fullSize \<le> 64 * 1024 then take fullSize pooled else replicate fullSize 0)
        in case SerializeHeader buf (env_Version env) (env_MsgType env) (env_SessionID env)
                  (env_Nonce env) payloadLen of
             None \<Rightarrow> (Inl PanicBounds, w)
           | Some buf \<Rightarrow>
               let buf = (if 0 < payloadLen then go_copy buf HeaderSize (length buf) (env_Payload env)
                          else buf);
                   (ok, w') = conn_Write buf w
               in (if ok then Inr () else Inl ErrWriteFrame, w'))"

text \<open>A buffer as \<open>framePool.New\<close> makes it.\<close>

definition framePool_New :: bytes where
  "framePool_New = replicate (64 * 1024) 0"

definition DecodeWithMax :: "conn \<Rightarrow> u32 \<Rightarrow> (proto_err + envelope) \<times> conn" where
  "DecodeWithMax r maxPayload =
     (case ReadFull HeaderSize r of
        (Inl e, r) \<Rightarrow> (Inl (ErrHeader e), r)
      | (Inr headerBuf, r) \<Rightarrow>
          if go_slice headerBuf 0 4 \<noteq> MagicHeader then (Inl ErrInvalidMagic, r)
          else let version = headerBuf ! 4 in
          if version < MinSupportedVersion then (Inl ErrUnsupportedVer, r)
          else
            let msgType = headerBuf ! 5;
                sessionID = go_slice headerBuf 6 22;
                nonce = go_slice headerBuf 22 34;
                payloadLen = Uint32 (go_slice headerBuf 34 38)
            in if maxPayload < payloadLen then (Inl ErrPayloadTooLarge, r)
            else (case (if 0 < payloadLen then ReadFull (unat payloadLen) r else (Inr [], r)) of
                    (Inl e, r) \<Rightarrow> (Inl (ErrPayload e), r)
                  | (Inr payload, r) \<Rightarrow>
                      (Inr \<lparr>env_Version = version, env_MsgType = msgType, env_SessionID = sessionID,
                            env_Nonce = nonce, env_Payload = payload\<rparr>, r)))"

definition Decode :: "conn \<Rightarrow> (proto_err + envelope) \<times> conn" where
  "Decode r = DecodeWithMax r MaxPayloadSize"

definition DecodeEnvelope :: "bytes \<Rightarrow> proto_err + envelope" where
  "DecodeEnvelope data = fst (Decode (bytes_NewReader data))"

section \<open>Padding (envelope.go)\<close>

definition DefaultPaddingTargetSize :: nat where "DefaultPaddingTargetSize = 1280"
definition lenPrefixSize :: nat where "lenPrefixSize = 4"

definition PadPayload :: "bytes \<Rightarrow> nat \<Rightarrow> bytes" where
  "PadPayload data targetSize =
     (let realLen = length data;
          needed = realLen + lenPrefixSize;
          targetSize = (if targetSize < needed then needed else targetSize);
          out = replicate targetSize 0;
          out = go_copy out 0 lenPrefixSize (PutUint32 (of_nat realLen))
      in if 0 < realLen then go_copy out lenPrefixSize (length out) data else out)"

text \<open>
  The upper slice bound \<open>lenPrefixSize+realLen\<close> is computed in \<open>uint32\<close>; a bound below the
  lower one or beyond the slice panics.
\<close>

definition UnpadPayload :: "bytes \<Rightarrow> proto_err + bytes" where
  "UnpadPayload data =
     (if length data < lenPrefixSize then Inl ErrInvalidPadding
      else let realLen = Uint32 (go_slice data 0 lenPrefixSize) in
      if length data < unat realLen + lenPrefixSize then Inl ErrInvalidPadding
      else let hi = unat (of_nat lenPrefixSize + realLen) in
      if hi < lenPrefixSize \<or> length data < hi then Inl PanicBounds
      else Inr (go_slice data lenPrefixSize hi))"

section \<open>The header layout\<close>

text \<open>The layout the documentation gives: magic, version, type, session, nonce, length.\<close>

definition header_bytes :: "byte \<Rightarrow> byte \<Rightarrow> bytes \<Rightarrow> bytes \<Rightarrow> u32 \<Rightarrow> bytes" where
  "header_bytes version msgType sessionID nonce payloadLen =
     MagicHeader @ [version, msgType] @ sessionID @ nonce @ PutUint32 payloadLen"

definition frame_bytes :: "envelope \<Rightarrow> bytes" where
  "frame_bytes e = header_bytes (env_Version e) (env_MsgType e) (env_SessionID e) (env_Nonce e)
     (of_nat (length (env_Payload e))) @ env_Payload e"

lemma length_MagicHeader [simp]: "length MagicHeader = 4"
  by (simp add: MagicHeader_def)

lemma list_update_at_end:
  "length a = n \<Longrightarrow> n < length (a @ b) \<Longrightarrow> (a @ b)[n := x] = (a @ [x]) @ drop (Suc 0) b"
  by (cases b) (auto simp: list_update_append)

lemma SerializeHeader_eq:
  assumes "length sid = SessionIDSize" "length nonce = NonceSize" "HeaderSize \<le> length buf"
  shows "SerializeHeader buf v t sid nonce n = Some (header_bytes v t sid nonce n @ drop HeaderSize buf)"
proof -
  have len: "length sid = 16" "length nonce = 12" "38 \<le> length buf"
    using assms by (auto simp: SessionIDSize_def NonceSize_def)
  have 1: "go_copy buf 0 4 MagicHeader = MagicHeader @ drop 4 buf"
    using go_copy_append [of "[]" 0 MagicHeader 4 buf] len by simp
  have 2: "(MagicHeader @ drop 4 buf)[4 := v] = (MagicHeader @ [v]) @ drop 5 buf"
    using list_update_at_end [of MagicHeader 4 "drop 4 buf" v] len by simp
  have 3: "((MagicHeader @ [v]) @ drop 5 buf)[5 := t] = (MagicHeader @ [v, t]) @ drop 6 buf"
    using list_update_at_end [of "MagicHeader @ [v]" 5 "drop 5 buf" t] len by simp
  have 4: "go_copy ((MagicHeader @ [v, t]) @ drop 6 buf) 6 22 sid
      = (MagicHeader @ [v, t] @ sid) @ drop 22 buf"
    using go_copy_append [of "MagicHeader @ [v, t]" 6 sid 22 "drop 6 buf"] len by simp
  have 5: "go_copy ((MagicHeader @ [v, t] @ sid) @ drop 22 buf) 22 34 nonce
      = (MagicHeader @ [v, t] @ sid @ nonce) @ drop 34 buf"
    using go_copy_append [of "MagicHeader @ [v, t] @ sid" 22 nonce 34 "drop 22 buf"] len by simp
  have 6: "go_copy ((MagicHeader @ [v, t] @ sid @ nonce) @ drop 34 buf) 34 38 (PutUint32 n)
      = (MagicHeader @ [v, t] @ sid @ nonce @ PutUint32 n) @ drop 38 buf"
    using go_copy_append [of "MagicHeader @ [v, t] @ sid @ nonce" 34 "PutUint32 n" 38 "drop 34 buf"] len
    by simp
  show ?thesis
    using len unfolding SerializeHeader_def Let_def 1 2 3 4 5 6 header_bytes_def by simp
qed

lemma length_header_bytes [simp]:
  "length sid = SessionIDSize \<Longrightarrow> length nonce = NonceSize \<Longrightarrow>
   length (header_bytes v t sid nonce n) = HeaderSize"
  by (simp add: header_bytes_def SessionIDSize_def NonceSize_def)

lemma MaxPayloadSize_nat [simp]: "unat MaxPayloadSize = 33554432"
  by (simp add: MaxPayloadSize_def)

lemma unat_of_nat_payload: "n \<le> unat MaxPayloadSize \<Longrightarrow> unat (of_nat n :: u32) = n"
  by (rule unat_of_nat_small) simp

section \<open>Encode\<close>

text \<open>
  What \<open>Encode\<close> does when the truncated length is within the limit, whatever the pooled
  buffer held: one \<open>Write\<close> with the header and as many payload bytes as the header announces.
\<close>

lemma Encode_gen:
  fixes e :: envelope
  defines "k \<equiv> unat (of_nat (length (env_Payload e)) :: u32)"
  assumes wf: "wf_env e" and le: "k \<le> unat MaxPayloadSize" and pool: "length pooled = 64 * 1024"
  shows "Encode pooled w e =
     (let (ok, w') = conn_Write (header_bytes (env_Version e) (env_MsgType e) (env_SessionID e)
            (env_Nonce e) (of_nat (length (env_Payload e))) @ take k (env_Payload e)) w
      in (if ok then Inr () else Inl ErrWriteFrame, w'))"
proof -
  let ?n = "of_nat (length (env_Payload e)) :: u32"
  let ?h = "header_bytes (env_Version e) (env_MsgType e) (env_SessionID e) (env_Nonce e) ?n"
  have lim: "\<not> MaxPayloadSize < ?n"
    using le by (simp add: word_less_nat_alt k_def)
  have kle: "k \<le> length (env_Payload e)"
    by (simp add: k_def unat_of_nat)
  define buf where "buf = (if HeaderSize + k \<le> 64 * 1024 then take (HeaderSize + k) pooled
    else replicate (HeaderSize + k) 0)"
  have lb: "length buf = HeaderSize + k"
    using pool by (auto simp: buf_def)
  have lh: "length ?h = 38"
    using wf by (simp add: wf_env_def)
  have ser: "SerializeHeader buf (env_Version e) (env_MsgType e) (env_SessionID e) (env_Nonce e) ?n
      = Some (?h @ drop HeaderSize buf)"
    using wf lb by (intro SerializeHeader_eq) (auto simp: wf_env_def)
  have fill: "(if 0 < ?n then go_copy (?h @ drop HeaderSize buf) HeaderSize
        (length (?h @ drop HeaderSize buf)) (env_Payload e) else ?h @ drop HeaderSize buf)
      = ?h @ take k (env_Payload e)"
    using lb lh kle by (auto simp: go_copy_def Let_def word_less_nat_alt k_def [symmetric])
  show ?thesis
    unfolding Encode_def Let_def k_def [symmetric] buf_def [symmetric] ser option.case fill
    using lim by (simp split: prod.splits)
qed

lemma Encode_eq:
  assumes "wf_env e" "length (env_Payload e) \<le> unat MaxPayloadSize" "length pooled = 64 * 1024"
  shows "Encode pooled w e =
     (let (ok, w') = conn_Write (frame_bytes e) w in (if ok then Inr () else Inl ErrWriteFrame, w'))"
  using Encode_gen [OF assms(1) _ assms(3)] assms(2)
  by (simp add: unat_of_nat_payload frame_bytes_def)

lemma length_framePool_New [simp]: "length framePool_New = 64 * 1024"
  by (simp add: framePool_New_def)

text \<open>A truncated length over the limit: refused, and nothing is written.\<close>

lemma Encode_refused:
  "unat MaxPayloadSize < unat (of_nat (length (env_Payload e)) :: u32) \<Longrightarrow>
   Encode pooled w e = (Inl ErrPayloadTooLarge, w)"
  by (simp add: Encode_def word_less_nat_alt)

section \<open>Decode\<close>

text \<open>Reading the fields of a header that was laid out by \<open>header_bytes\<close>.\<close>

lemma header_fields:
  assumes "length sid = SessionIDSize" "length nonce = NonceSize"
  shows "go_slice (header_bytes v t sid nonce n) 0 4 = MagicHeader"
    "header_bytes v t sid nonce n ! 4 = v"
    "header_bytes v t sid nonce n ! 5 = t"
    "go_slice (header_bytes v t sid nonce n) 6 22 = sid"
    "go_slice (header_bytes v t sid nonce n) 22 34 = nonce"
    "Uint32 (go_slice (header_bytes v t sid nonce n) 34 38) = n"
  using assms
  by (auto simp: header_bytes_def go_slice_def MagicHeader_def SessionIDSize_def NonceSize_def)

text \<open>Conversely, 38 bytes with the magic number are the layout of the fields read from them.\<close>

lemma header_bytes_fields:
  assumes "length h = HeaderSize" "go_slice h 0 4 = MagicHeader"
  shows "header_bytes (h ! 4) (h ! 5) (go_slice h 6 22) (go_slice h 22 34) (Uint32 (go_slice h 34 38)) = h"
proof -
  have "PutUint32 (Uint32 (go_slice h 34 38)) = go_slice h 34 38"
    using assms(1) by (intro u32be.put_get) simp
  moreover have "h = take 4 h @ [h ! 4, h ! 5] @ take 16 (drop 6 h) @ take 12 (drop 22 h) @ take 4 (drop 34 h)"
  proof -
    have l: "length h = 38" using assms(1) by simp
    have "drop 4 h = h ! 4 # h ! 5 # drop 6 h"
      using l Cons_nth_drop_Suc [of 4 h] Cons_nth_drop_Suc [of 5 h] by simp
    moreover have "drop 6 h = take 16 (drop 6 h) @ take 12 (drop 22 h) @ take 4 (drop 34 h)"
      using l append_take_drop_id [of 16 "drop 6 h"] append_take_drop_id [of 12 "drop 22 h"] by simp
    ultimately show ?thesis using append_take_drop_id [of 4 h] by simp
  qed
  ultimately show ?thesis
    using assms(2) by (simp add: header_bytes_def go_slice_def)
qed

lemma DecodeWithMax_frame:
  assumes wf: "wf_env e" and ver: "MinSupportedVersion \<le> env_Version e"
    and le: "length (env_Payload e) \<le> unat mx" and op: "\<not> cn_closed c"
  shows "DecodeWithMax (c\<lparr>cn_in := frame_bytes e @ r\<rparr>) mx = (Inr e, c\<lparr>cn_in := r\<rparr>)"
proof -
  let ?n = "length (env_Payload e)"
  let ?h = "header_bytes (env_Version e) (env_MsgType e) (env_SessionID e) (env_Nonce e) (of_nat ?n)"
  have n: "unat (of_nat ?n :: u32) = ?n"
    using le by (rule le_unat_uoi)
  have lens: "length (env_SessionID e) = SessionIDSize" "length (env_Nonce e) = NonceSize"
    using wf by (auto simp: wf_env_def)
  have rd: "ReadFull HeaderSize (c\<lparr>cn_in := frame_bytes e @ r\<rparr>) = (Inr ?h, c\<lparr>cn_in := env_Payload e @ r\<rparr>)"
    using ReadFull_append [OF op length_header_bytes [OF lens]] by (simp add: frame_bytes_def)
  have lim: "\<not> mx < of_nat ?n"
    using le n by (simp add: word_less_nat_alt)
  have pl: "(if 0 < (of_nat ?n :: u32) then ReadFull (unat (of_nat ?n :: u32)) (c\<lparr>cn_in := env_Payload e @ r\<rparr>)
      else (Inr [], c\<lparr>cn_in := env_Payload e @ r\<rparr>)) = (Inr (env_Payload e), c\<lparr>cn_in := r\<rparr>)"
    using n ReadFull_append [OF op, of "env_Payload e" ?n] by (auto simp: word_less_nat_alt)
  show ?thesis
    unfolding DecodeWithMax_def rd prod.case sum.case header_fields [OF lens] Let_def pl
    using ver lim by simp
qed

lemma DecodeWithMax_sound:
  assumes "DecodeWithMax c mx = (Inr e, c')"
  shows "wf_env e" "MinSupportedVersion \<le> env_Version e" "length (env_Payload e) \<le> unat mx"
    "cn_in c = frame_bytes e @ cn_in c'" "c' = c\<lparr>cn_in := cn_in c'\<rparr>"
proof -
  from assms obtain h c1 where rd: "ReadFull HeaderSize c = (Inr h, c1)"
    by (auto simp: DecodeWithMax_def split: prod.splits sum.splits)
  then have h: "length h = HeaderSize" "cn_in c = h @ cn_in c1" "c1 = c\<lparr>cn_in := cn_in c1\<rparr>"
    by (auto simp: ReadFull_Inr_iff)
  let ?n = "Uint32 (go_slice h 34 38)"
  from assms rd have magic: "go_slice h 0 4 = MagicHeader" and ver: "\<not> h ! 4 < MinSupportedVersion"
    and lim: "\<not> mx < ?n"
    by (auto simp: DecodeWithMax_def Let_def split: if_splits)
  with assms rd obtain p where
      pl: "(if 0 < ?n then ReadFull (unat ?n) c1 else (Inr [], c1)) = (Inr p, c')"
    and e: "e = \<lparr>env_Version = h ! 4, env_MsgType = h ! 5, env_SessionID = go_slice h 6 22,
                env_Nonce = go_slice h 22 34, env_Payload = p\<rparr>"
    by (auto simp: DecodeWithMax_def Let_def split: prod.splits sum.splits if_splits)
  from pl have p: "length p = unat ?n" "cn_in c1 = p @ cn_in c'" "c' = c1\<lparr>cn_in := cn_in c'\<rparr>"
    by (auto simp: ReadFull_Inr_iff word_less_nat_alt split: if_splits)
  have "frame_bytes e = h @ p"
    using header_bytes_fields [OF h(1) magic] e p(1) by (simp add: frame_bytes_def)
  then show "cn_in c = frame_bytes e @ cn_in c'"
    using h(2) p(2) by simp
  show "wf_env e"
    using e h(1) by (simp add: wf_env_def SessionIDSize_def NonceSize_def)
  show "MinSupportedVersion \<le> env_Version e"
    using e ver by (simp add: not_less)
  show "length (env_Payload e) \<le> unat mx"
    using e p(1) lim by (simp add: word_less_nat_alt)
  show "c' = c\<lparr>cn_in := cn_in c'\<rparr>"
    using h(3) p(3) by (metis conn.surjective conn.update_convs(1))
qed

text \<open>Frames as a self-delimiting stream of messages.\<close>

definition sendable :: "envelope \<Rightarrow> bool" where
  "sendable e \<longleftrightarrow> wf_env e \<and> MinSupportedVersion \<le> env_Version e
     \<and> length (env_Payload e) \<le> unat MaxPayloadSize"

definition decode_frame :: "bytes \<Rightarrow> (envelope \<times> bytes) option" where
  "decode_frame bs =
     (case Decode (bytes_NewReader bs) of (Inr e, c) \<Rightarrow> Some (e, cn_in c) | (Inl _, c) \<Rightarrow> None)"

interpretation frames: stream_codec frame_bytes decode_frame sendable
proof unfold_locales
  fix m r
  assume "sendable m"
  then show "decode_frame (frame_bytes m @ r) = Some (m, r)"
    using DecodeWithMax_frame [of m MaxPayloadSize "fresh_conn [] EOF" r]
    by (auto simp: sendable_def decode_frame_def Decode_def bytes_NewReader_def fresh_conn_def)
qed

section \<open>Padding\<close>

lemma PadPayload_eq:
  "PadPayload data t =
     PutUint32 (of_nat (length data)) @ data @ replicate (t - (length data + lenPrefixSize)) 0"
proof -
  let ?t = "if t < length data + 4 then length data + 4 else t"
  have 1: "go_copy (replicate ?t 0) 0 4 (PutUint32 (of_nat (length data)))
      = PutUint32 (of_nat (length data)) @ replicate (?t - 4) 0"
    using go_copy_append [of "[]" 0 "PutUint32 (of_nat (length data))" 4 "replicate ?t 0"] by auto
  have 2: "go_copy (PutUint32 (of_nat (length data)) @ replicate (?t - 4) 0) 4 ?t data
      = PutUint32 (of_nat (length data)) @ data @ replicate (?t - 4 - length data) 0"
    by (auto simp: go_copy_def Let_def)
  show ?thesis
    using 1 2 by (auto simp: PadPayload_def Let_def lenPrefixSize_def)
qed

lemma length_PadPayload: "length (PadPayload data t) = max t (length data + lenPrefixSize)"
  by (simp add: PadPayload_eq lenPrefixSize_def)

lemma unat_add_prefix: "n + 4 < 2 ^ 32 \<Longrightarrow> unat (4 + of_nat n :: u32) = n + 4"
  using unat_of_nat_small [of "n + 4", where 'a = 32] by (simp only: of_nat_add add.commute) simp

lemma UnpadPayload_Pad:
  assumes "length data + lenPrefixSize < 2 ^ 32"
  shows "UnpadPayload (PadPayload data t) = Inr data"
proof -
  let ?n = "of_nat (length data) :: u32"
  have l: "length data + 4 < 2 ^ 32"
    using assms by (simp add: lenPrefixSize_def)
  have n: "unat ?n = length data"
    using l by (intro unat_of_nat_small) simp
  have pre: "go_slice (PadPayload data t) 0 4 = PutUint32 ?n"
    by (simp add: PadPayload_eq go_slice_def)
  have body: "go_slice (PadPayload data t) 4 (length data + 4) = data"
    by (simp add: PadPayload_eq go_slice_def)
  show ?thesis
    using l by (simp add: UnpadPayload_def Let_def lenPrefixSize_def length_PadPayload pre n
        unat_add_prefix body del: unat_of_nat)
qed

lemma unat_prefix_add: "unat (4 + x :: u32) = (unat x + 4) mod 2 ^ 32"
proof -
  have four: "unat (4 :: u32) = 4" by simp
  have "unat (4 + x) = (unat (4 :: u32) + unat x) mod 2 ^ LENGTH(32)"
    by (rule unat_word_ariths(1))
  then show ?thesis unfolding four add.commute [of 4] by simp
qed

lemma UnpadPayload_no_panic:
  "length data < 2 ^ 32 \<Longrightarrow> UnpadPayload data \<noteq> Inl PanicBounds"
proof
  assume l: "length data < 2 ^ 32" and p: "UnpadPayload data = Inl PanicBounds"
  let ?n = "Uint32 (go_slice data 0 4)"
  from p have le: "unat ?n + 4 \<le> length data" and bad: "unat (4 + ?n) < 4 \<or> length data < unat (4 + ?n)"
    by (auto simp: UnpadPayload_def Let_def lenPrefixSize_def split: if_splits)
  have "unat (4 + ?n) = (unat ?n + 4) mod 2 ^ 32"
    by (rule unat_prefix_add)
  also have "\<dots> = unat ?n + 4"
    using le l by simp
  finally show False using bad le by simp
qed

lemma UnpadPayload_length:
  "UnpadPayload data = Inr p \<Longrightarrow> length p + lenPrefixSize \<le> length data"
  by (auto simp: UnpadPayload_def Let_def lenPrefixSize_def go_slice_def split: if_splits)

section \<open>Properties of the wire protocol\<close>

text \<open>A small frame for the witnesses.\<close>

definition sample_env :: envelope where
  "sample_env = \<lparr>env_Version = Version, env_MsgType = MsgTypeDataStream,
     env_SessionID = replicate 16 7, env_Nonce = replicate 12 9, env_Payload = [1, 2, 3]\<rparr>"

lemma sample_env_ok: "sendable sample_env"
  by (simp add: sample_env_def sendable_def wf_env_def SessionIDSize_def NonceSize_def
      Version_def MinSupportedVersion_def)

text \<open>
  C16: Encode and Decode are inverse. A frame within the size limit is written with exactly one
  \<open>Write\<close> call, and a reader whose stream starts with the bytes of that call gets the same
  envelope back and keeps exactly the bytes that follow.
\<close>

theorem Encode_Decode_roundtrip:
  assumes "wf_env e" "MinSupportedVersion \<le> env_Version e"
    "length (env_Payload e) \<le> unat MaxPayloadSize"
    "length pooled = 64 * 1024" "\<not> cn_closed w" "\<not> cn_wfail w" "\<not> cn_closed c"
  shows "\<exists>bs. Encode pooled w e = (Inr (), w\<lparr>cn_out := cn_out w @ [bs]\<rparr>)
     \<and> Decode (c\<lparr>cn_in := bs @ rest\<rparr>) = (Inr e, c\<lparr>cn_in := rest\<rparr>)"
  using assms Encode_eq [OF assms(1,3,4), of w] DecodeWithMax_frame [OF assms(1,2,3,7), of rest]
  by (auto simp: conn_Write_def Decode_def)

theorem Encode_Decode_roundtrip_witness:
  "\<exists>bs. Encode framePool_New (fresh_conn [] EOF) sample_env
       = (Inr (), (fresh_conn [] EOF)\<lparr>cn_out := cn_out (fresh_conn [] EOF) @ [bs]\<rparr>)
     \<and> Decode ((fresh_conn [] EOF)\<lparr>cn_in := bs @ [255]\<rparr>)
       = (Inr sample_env, (fresh_conn [] EOF)\<lparr>cn_in := [255]\<rparr>)"
  using sample_env_ok
  by (intro Encode_Decode_roundtrip) (auto simp: sendable_def fresh_conn_def)

text \<open>
  C17: \<open>DecodeWithMax\<close> accepts exactly the well-formed frames: it returns the envelope \<open>e\<close> and
  leaves the rest of the stream if and only if the stream is the layout of \<open>e\<close> followed by
  that rest, the version is supported and the payload is within the given limit. Nothing else
  on the connection changes.
\<close>

theorem DecodeWithMax_iff:
  "DecodeWithMax c mx = (Inr e, c') \<longleftrightarrow>
     \<not> cn_closed c \<and> wf_env e \<and> MinSupportedVersion \<le> env_Version e
     \<and> length (env_Payload e) \<le> unat mx
     \<and> cn_in c = frame_bytes e @ cn_in c' \<and> c' = c\<lparr>cn_in := cn_in c'\<rparr>"
proof
  assume d: "DecodeWithMax c mx = (Inr e, c')"
  then have "\<not> cn_closed c"
    by (auto simp: DecodeWithMax_def ReadFull_def split: if_splits)
  with DecodeWithMax_sound [OF d] show "\<not> cn_closed c \<and> wf_env e \<and> MinSupportedVersion \<le> env_Version e
     \<and> length (env_Payload e) \<le> unat mx
     \<and> cn_in c = frame_bytes e @ cn_in c' \<and> c' = c\<lparr>cn_in := cn_in c'\<rparr>"
    by blast
next
  assume r: "\<not> cn_closed c \<and> wf_env e \<and> MinSupportedVersion \<le> env_Version e
     \<and> length (env_Payload e) \<le> unat mx
     \<and> cn_in c = frame_bytes e @ cn_in c' \<and> c' = c\<lparr>cn_in := cn_in c'\<rparr>"
  then have "DecodeWithMax (c\<lparr>cn_in := frame_bytes e @ cn_in c'\<rparr>) mx = (Inr e, c\<lparr>cn_in := cn_in c'\<rparr>)"
    by (intro DecodeWithMax_frame) auto
  moreover from r have "c\<lparr>cn_in := frame_bytes e @ cn_in c'\<rparr> = c"
    by (metis conn.surjective conn.update_convs(1))
  ultimately show "DecodeWithMax c mx = (Inr e, c')"
    using r by metis
qed

text \<open>
  Every rejection of a frame with a complete header happens on the header alone, in the
  order magic number, version, declared length, and consumes exactly the 38 header bytes: an
  oversized frame is refused before any payload is read or allocated.
\<close>

lemma DecodeWithMax_rejects_on_header:
  assumes "\<not> cn_closed c" "length h = HeaderSize"
  shows "DecodeWithMax (c\<lparr>cn_in := h @ r\<rparr>) mx =
     (if take 4 h \<noteq> MagicHeader then (Inl ErrInvalidMagic, c\<lparr>cn_in := r\<rparr>)
      else if h ! 4 < MinSupportedVersion then (Inl ErrUnsupportedVer, c\<lparr>cn_in := r\<rparr>)
      else if unat mx < unat (Uint32 (drop 34 h)) then (Inl ErrPayloadTooLarge, c\<lparr>cn_in := r\<rparr>)
      else if length r < unat (Uint32 (drop 34 h))
      then (Inl (ErrPayload (if r \<noteq> [] \<and> cn_end c = EOF then ErrUnexpectedEOF else cn_end c)),
            c\<lparr>cn_in := []\<rparr>)
      else (Inr \<lparr>env_Version = h ! 4, env_MsgType = h ! 5, env_SessionID = take 16 (drop 6 h),
                 env_Nonce = take 12 (drop 22 h),
                 env_Payload = take (unat (Uint32 (drop 34 h))) r\<rparr>,
            c\<lparr>cn_in := drop (unat (Uint32 (drop 34 h))) r\<rparr>))"
proof -
  have "go_slice h 34 38 = drop 34 h"
    using assms(2) by (simp add: go_slice_def)
  then show ?thesis
    using assms(1) ReadFull_append [OF assms, of r]
    by (auto simp: DecodeWithMax_def Let_def go_slice_def ReadFull_def word_less_nat_alt)
qed

text \<open>
  The buffer pool leaks nothing: the bytes written, the result and the connection do not
  depend on what an earlier frame left in the pooled buffer, for payloads of any size.
\<close>

lemma Encode_pool_independent:
  assumes "wf_env e" "length pooled = 64 * 1024" "length pooled' = 64 * 1024"
  shows "Encode pooled w e = Encode pooled' w e"
proof (cases "unat (of_nat (length (env_Payload e)) :: u32) \<le> unat MaxPayloadSize")
  case True
  then show ?thesis using assms by (simp only: Encode_gen)
next
  case False
  then show ?thesis by (simp add: Encode_refused)
qed

text \<open>
  Padding: the padded buffer is at least the target size, is exactly the target size when
  the payload and its prefix fit (so all small frames have one length on the wire), and
  \<open>UnpadPayload\<close> recovers the payload.
\<close>

lemma Pad_Unpad_roundtrip:
  assumes "length data + lenPrefixSize < 2 ^ 32"
  shows "UnpadPayload (PadPayload data t) = Inr data
     \<and> length (PadPayload data t) = max t (length data + lenPrefixSize)"
  using assms by (simp add: UnpadPayload_Pad length_PadPayload)

text \<open>
  Framing of a whole stream: the concatenation of the frames a writer sent, followed by
  anything, is read back as that sequence of envelopes, in order, with nothing lost.
\<close>

lemma frames_in_order:
  assumes "list_all sendable es"
  shows "decode_seq decode_frame (length es) (concat (map frame_bytes es) @ rest) = Some (es, rest)"
  using assms by (rule frames.decode_seq_enc)

section \<open>Payloads of 4 GiB and more\<close>

text \<open>
  The length check works on the length truncated to 32 bits: a payload of \<open>2^32 + k\<close> bytes
  with small \<open>k\<close> passes it, and a frame with its first \<open>k\<close> bytes is sent without an error.
\<close>

lemma Encode_truncates_4GiB:
  assumes "wf_env e" "length (env_Payload e) = 2 ^ 32 + k" "k \<le> unat MaxPayloadSize"
    "length pooled = 64 * 1024" "\<not> cn_closed w" "\<not> cn_wfail w"
  shows "Encode pooled w e =
     (Inr (), w\<lparr>cn_out := cn_out w @ [frame_bytes (e\<lparr>env_Payload := take k (env_Payload e)\<rparr>)]\<rparr>)"
proof -
  have trunc: "(of_nat (length (env_Payload e)) :: u32) = of_nat k"
  proof -
    have "(2 :: u32) ^ 32 = 0" by simp
    then show ?thesis using assms(2) by (simp only: of_nat_add of_nat_power of_nat_numeral add_0)
  qed
  have k: "unat (of_nat k :: u32) = k"
    using assms(3) by (rule unat_of_nat_payload)
  have "length (take k (env_Payload e)) = k"
    using assms(2) by simp
  then show ?thesis
    using Encode_gen [OF assms(1) _ assms(4), of w, unfolded trunc k, OF assms(3)] assms(5,6)
    by (simp add: conn_Write_def frame_bytes_def)
qed

end
