(* ===== verification/RingBuffer.thy ===== *)
theory RingBuffer
  imports Go_IO
begin

text \<open>
  The RAM replay buffer, \<open>pkg/feed/ringbuffer.go\<close>, with the buffer pool it takes its memory
  from. A byte slice is its backing array and its length (\<open>cap\<close> is the length of the array).
  The invariant \<open>ring_inv\<close> covers the indices, the occupied and the free slots and the pool:
  free slots hold no payload and every pooled array is zero. \<open>ring_items\<close> is the abstraction
  to the list of messages, oldest first; \<open>replay_log\<close> is the contract the engines rely on.
\<close>

section \<open>Slices with a backing array and the buffer pool\<close>

record gslice =
  gs_arr :: bytes
  gs_len :: nat

definition gs_bytes :: "gslice \<Rightarrow> bytes" where
  "gs_bytes b = take (gs_len b) (gs_arr b)"

text \<open>\<open>crypto.ZeroBytes\<close> on the memory of one slice: the whole capacity is overwritten.\<close>

definition ZeroBytes :: "gslice \<Rightarrow> gslice" where
  "ZeroBytes b = (if gs_len b = 0 then b else b\<lparr>gs_arr := replicate (length (gs_arr b)) 0\<rparr>)"

text \<open>
  \<open>sync.Pool\<close> leaves open which of its buffers \<open>Get\<close> returns, and may drop some. The model takes the one
  put back last; \<open>copyBuffer_spec\<close> holds for every pool of zeroed buffers, so that what a copy
  contains does not depend on the choice.
\<close>

type_synonym bufpool = "gslice list"

definition bufPool_Get :: "bufpool \<Rightarrow> gslice \<times> bufpool" where
  "bufPool_Get pool =
     (case pool of [] \<Rightarrow> (\<lparr>gs_arr = replicate 4096 0, gs_len = 0\<rparr>, []) | b # bs \<Rightarrow> (b, bs))"

definition getBuffer :: "bufpool \<Rightarrow> nat \<Rightarrow> gslice \<times> bufpool" where
  "getBuffer pool n =
     (let (bp, pool) = bufPool_Get pool in
      (if length (gs_arr bp) < n then \<lparr>gs_arr = replicate n 0, gs_len = n\<rparr>
       else bp\<lparr>gs_len := n\<rparr>, pool))"

definition putBuffer :: "gslice option \<Rightarrow> bufpool \<Rightarrow> bufpool" where
  "putBuffer b pool =
     (case b of None \<Rightarrow> pool | Some b \<Rightarrow> (ZeroBytes b)\<lparr>gs_len := 0\<rparr> # pool)"

text \<open>\<open>buf := getBuffer(len(src)); copy(buf, src)\<close>\<close>

definition copyBuffer :: "bufpool \<Rightarrow> bytes \<Rightarrow> gslice \<times> bufpool" where
  "copyBuffer pool src =
     (let (b, pool) = getBuffer pool (length src) in
      (b\<lparr>gs_arr := go_copy (gs_arr b) 0 (gs_len b) src\<rparr>, pool))"

section \<open>The ring buffer\<close>

record seqmsg =
  sm_SeqNum :: u64
  sm_Payload :: "gslice option"

definition nil_msg :: seqmsg where
  "nil_msg = \<lparr>sm_SeqNum = 0, sm_Payload = None\<rparr>"

record ringbuffer =
  rb_capacity :: nat
  rb_data :: "seqmsg list"
  rb_head :: nat
  rb_tail :: nat
  rb_size :: nat

definition payload_bytes :: "seqmsg \<Rightarrow> bytes" where
  "payload_bytes m = (case sm_Payload m of None \<Rightarrow> [] | Some b \<Rightarrow> gs_bytes b)"

definition NewRingBuffer :: "int \<Rightarrow> ringbuffer" where
  "NewRingBuffer capacity =
     (let capacity = (if capacity \<le> 0 then 100 else nat capacity) in
      \<lparr>rb_capacity = capacity, rb_data = replicate capacity nil_msg,
       rb_head = 0, rb_tail = 0, rb_size = 0\<rparr>)"

definition Push :: "u64 \<Rightarrow> bytes \<Rightarrow> bufpool \<times> ringbuffer \<Rightarrow> bufpool \<times> ringbuffer" where
  "Push seqNum msg st =
     (let (pool, rb) = st;
          (msgCopy, pool) = copyBuffer pool msg;
          (pool, rb) =
            (if rb_size rb = rb_capacity rb then
               let old = rb_data rb ! rb_head rb;
                   (pool, rb) =
                     (case sm_Payload old of
                        None \<Rightarrow> (pool, rb)
                      | Some b \<Rightarrow> (putBuffer (Some b) pool,
                          rb\<lparr>rb_data := (rb_data rb)[rb_head rb := old\<lparr>sm_Payload := None\<rparr>]\<rparr>))
               in (pool, rb\<lparr>rb_head := (rb_head rb + 1) mod rb_capacity rb,
                            rb_size := rb_size rb - 1\<rparr>)
             else (pool, rb));
          rb = rb\<lparr>rb_data := (rb_data rb)[rb_tail rb := \<lparr>sm_SeqNum = seqNum, sm_Payload = Some msgCopy\<rparr>]\<rparr>
      in (pool, rb\<lparr>rb_tail := (rb_tail rb + 1) mod rb_capacity rb, rb_size := rb_size rb + 1\<rparr>))"

text \<open>The loop of \<open>GetAfter\<close> over the offsets from the head.\<close>

fun GetAfter_loop :: "ringbuffer \<Rightarrow> u64 \<Rightarrow> nat list \<Rightarrow> bufpool \<Rightarrow> bufpool \<times> seqmsg list" where
  "GetAfter_loop rb lastSeqNum [] pool = (pool, [])"
| "GetAfter_loop rb lastSeqNum (i # is) pool =
     (let idx = (rb_head rb + i) mod rb_capacity rb;
          item = rb_data rb ! idx
      in if lastSeqNum < sm_SeqNum item then
           let (payloadCopy, pool) = copyBuffer pool (payload_bytes item);
               (pool, rest) = GetAfter_loop rb lastSeqNum is pool
           in (pool, \<lparr>sm_SeqNum = sm_SeqNum item, sm_Payload = Some payloadCopy\<rparr> # rest)
         else GetAfter_loop rb lastSeqNum is pool)"

definition GetAfter :: "u64 \<Rightarrow> bufpool \<times> ringbuffer \<Rightarrow> (bufpool \<times> ringbuffer) \<times> seqmsg list" where
  "GetAfter lastSeqNum st =
     (let (pool, rb) = st;
          (pool, result) = GetAfter_loop rb lastSeqNum [0..<rb_size rb] pool
      in ((pool, rb), result))"

fun GetAll_loop :: "ringbuffer \<Rightarrow> nat list \<Rightarrow> bufpool \<Rightarrow> bufpool \<times> gslice list" where
  "GetAll_loop rb [] pool = (pool, [])"
| "GetAll_loop rb (i # is) pool =
     (let idx = (rb_head rb + i) mod rb_capacity rb;
          (msgCopy, pool) = copyBuffer pool (payload_bytes (rb_data rb ! idx));
          (pool, rest) = GetAll_loop rb is pool
      in (pool, msgCopy # rest))"

definition GetAll :: "bufpool \<times> ringbuffer \<Rightarrow> (bufpool \<times> ringbuffer) \<times> gslice list" where
  "GetAll st =
     (let (pool, rb) = st; (pool, result) = GetAll_loop rb [0..<rb_size rb] pool
      in ((pool, rb), result))"

definition Len :: "ringbuffer \<Rightarrow> nat" where
  "Len rb = rb_size rb"

definition OldestSeqNum :: "ringbuffer \<Rightarrow> u64" where
  "OldestSeqNum rb = (if rb_size rb = 0 then 0 else sm_SeqNum (rb_data rb ! rb_head rb))"

definition IsOverflow :: "ringbuffer \<Rightarrow> u64 \<Rightarrow> bool" where
  "IsOverflow rb lastSeqNum =
     (if rb_size rb = 0 \<or> lastSeqNum = 0 then False
      else let oldest = sm_SeqNum (rb_data rb ! rb_head rb)
           in 0 < oldest \<and> lastSeqNum < oldest - 1)"

fun Wipe_loop :: "seqmsg list \<Rightarrow> bufpool \<Rightarrow> bufpool \<times> seqmsg list" where
  "Wipe_loop [] pool = (pool, [])"
| "Wipe_loop (m # ms) pool =
     (case sm_Payload m of
        None \<Rightarrow> (let (pool, ms) = Wipe_loop ms pool in (pool, m # ms))
      | Some b \<Rightarrow> (let (pool, ms) = Wipe_loop ms (putBuffer (Some b) pool) in (pool, nil_msg # ms)))"

definition Wipe :: "bufpool \<times> ringbuffer \<Rightarrow> bufpool \<times> ringbuffer" where
  "Wipe st =
     (let (pool, rb) = st; (pool, data) = Wipe_loop (rb_data rb) pool
      in (pool, rb\<lparr>rb_data := data, rb_head := 0, rb_tail := 0, rb_size := 0\<rparr>))"

section \<open>Pool and copies\<close>

definition clean_slice :: "gslice \<Rightarrow> bool" where
  "clean_slice b \<longleftrightarrow> gs_len b = 0 \<and> gs_arr b = replicate (length (gs_arr b)) 0"

definition pool_inv :: "bufpool \<Rightarrow> bool" where
  "pool_inv pool \<longleftrightarrow> list_all clean_slice pool"

text \<open>A slice as the pool hands it out: its length is within its capacity.\<close>

definition slice_ok :: "gslice \<Rightarrow> bool" where
  "slice_ok b \<longleftrightarrow> gs_len b \<le> length (gs_arr b) \<and> drop (gs_len b) (gs_arr b) = replicate (length (gs_arr b) - gs_len b) 0"

lemma drop_zeros: "a = replicate (length a) 0 \<Longrightarrow> drop n a = replicate (length a - n) (0 :: byte)"
  by (metis drop_replicate)

lemma copyBuffer_spec:
  assumes "pool_inv pool" "copyBuffer pool src = (b, pool')"
  shows "gs_bytes b = src" "slice_ok b" "pool_inv pool'"
  using assms drop_zeros
  by (auto simp: copyBuffer_def getBuffer_def bufPool_Get_def pool_inv_def clean_slice_def gs_bytes_def
      slice_ok_def go_copy_def Let_def split: list.splits if_splits prod.splits)

lemma putBuffer_inv: "pool_inv pool \<Longrightarrow> slice_ok b \<Longrightarrow> pool_inv (putBuffer (Some b) pool)"
  by (auto simp: putBuffer_def pool_inv_def clean_slice_def ZeroBytes_def slice_ok_def)

section \<open>Invariant and abstraction\<close>

definition slot :: "ringbuffer \<Rightarrow> nat \<Rightarrow> seqmsg" where
  "slot rb j = rb_data rb ! ((rb_head rb + j) mod rb_capacity rb)"

definition msg_of :: "seqmsg \<Rightarrow> u64 \<times> bytes" where
  "msg_of m = (sm_SeqNum m, payload_bytes m)"

definition ring_items :: "bufpool \<times> ringbuffer \<Rightarrow> (u64 \<times> bytes) list" where
  "ring_items st = map (\<lambda>j. msg_of (slot (snd st) j)) [0..<rb_size (snd st)]"

definition occupied_ok :: "seqmsg \<Rightarrow> bool" where
  "occupied_ok m \<longleftrightarrow> (\<exists>b. sm_Payload m = Some b \<and> slice_ok b)"

definition rb_wf :: "ringbuffer \<Rightarrow> bool" where
  "rb_wf rb \<longleftrightarrow> 0 < rb_capacity rb \<and> length (rb_data rb) = rb_capacity rb
     \<and> rb_head rb < rb_capacity rb \<and> rb_size rb \<le> rb_capacity rb
     \<and> rb_tail rb = (rb_head rb + rb_size rb) mod rb_capacity rb
     \<and> (\<forall>j < rb_size rb. occupied_ok (slot rb j))
     \<and> (\<forall>j < rb_capacity rb. rb_size rb \<le> j \<longrightarrow> sm_Payload (slot rb j) = None)"

definition ring_inv :: "bufpool \<times> ringbuffer \<Rightarrow> bool" where
  "ring_inv st \<longleftrightarrow> pool_inv (fst st) \<and> rb_wf (snd st)"

lemma mod_offset_inj:
  assumes "j < c" "k < c" "(h + j) mod c = (h + k) mod c"
  shows "j = (k :: nat)"
proof -
  have "c dvd (h + max j k) - (h + min j k)"
    using assms(3) by (intro mod_eq_dvd_iff_nat [THEN iffD1]) (auto simp: max_def min_def)
  then have "c dvd max j k - min j k" by simp
  then have "max j k - min j k = 0"
    using assms(1,2) by (meson diff_le_self dvd_imp_le gr0I leD le_less_trans max_less_iff_conj)
  then show ?thesis by (simp add: max_def min_def split: if_splits)
qed

lemma slot_update:
  assumes "j < rb_capacity rb" "k < rb_capacity rb" "length (rb_data rb) = rb_capacity rb"
  shows "slot (rb\<lparr>rb_data := (rb_data rb)[(rb_head rb + k) mod rb_capacity rb := m]\<rparr>) j
     = (if j = k then m else slot rb j)"
  using assms mod_offset_inj [of j "rb_capacity rb" k "rb_head rb"]
  by (auto simp: slot_def nth_list_update)

lemma slot_rotate: "slot (rb\<lparr>rb_head := (rb_head rb + 1) mod rb_capacity rb\<rparr>) j = slot rb (Suc j)"
  by (simp add: slot_def mod_add_left_eq)

lemma slot_frame [simp]:
  "slot (rb\<lparr>rb_tail := t\<rparr>) j = slot rb j"
  "slot (rb\<lparr>rb_size := n\<rparr>) j = slot rb j"
  by (simp_all add: slot_def)

text \<open>The free case: the message goes into the first free slot.\<close>

lemma Push_free:
  fixes s :: u64
  assumes wf: "rb_wf rb" and free: "rb_size rb \<noteq> rb_capacity rb"
    and cp: "copyBuffer pool msg = (b, pool')"
  defines "m \<equiv> \<lparr>sm_SeqNum = s, sm_Payload = Some b\<rparr>"
  shows "\<exists>rb'. Push s msg (pool, rb) = (pool', rb')
     \<and> rb_capacity rb' = rb_capacity rb \<and> length (rb_data rb') = rb_capacity rb
     \<and> rb_head rb' = rb_head rb \<and> rb_size rb' = Suc (rb_size rb)
     \<and> rb_tail rb' = (rb_head rb + Suc (rb_size rb)) mod rb_capacity rb
     \<and> (\<forall>j < rb_capacity rb. slot rb' j = (if j = rb_size rb then m else slot rb j))"
  using assms slot_update [of _ rb "rb_size rb" m]
  by (auto simp: Push_def rb_wf_def Let_def mod_Suc_eq slot_def)

text \<open>The full case: the oldest message is scrubbed and its slot is the new last one.\<close>

lemma Push_full:
  fixes s :: u64
  assumes wf: "rb_wf rb" and full: "rb_size rb = rb_capacity rb"
    and cp: "copyBuffer pool msg = (b, pool')" and old: "sm_Payload (slot rb 0) = Some ob"
  defines "m \<equiv> \<lparr>sm_SeqNum = s, sm_Payload = Some b\<rparr>"
  shows "\<exists>rb'. Push s msg (pool, rb) = (putBuffer (Some ob) pool', rb')
     \<and> rb_capacity rb' = rb_capacity rb \<and> length (rb_data rb') = rb_capacity rb
     \<and> rb_head rb' = (rb_head rb + 1) mod rb_capacity rb \<and> rb_size rb' = rb_capacity rb
     \<and> rb_tail rb' = (rb_head rb + 1) mod rb_capacity rb
     \<and> (\<forall>j < rb_capacity rb. slot rb' j = (if Suc j = rb_capacity rb then m else slot rb (Suc j)))"
proof -
  let ?c = "rb_capacity rb"
  have c: "0 < ?c" "length (rb_data rb) = ?c" "rb_head rb < ?c" "rb_tail rb = rb_head rb"
    using wf full by (auto simp: rb_wf_def)
  have hd: "rb_data rb ! rb_head rb = slot rb 0"
    using c by (simp add: slot_def)
  let ?rb = "rb\<lparr>rb_data := (rb_data rb)[rb_head rb := m], rb_head := (rb_head rb + 1) mod ?c,
    rb_tail := (rb_head rb + 1) mod ?c, rb_size := ?c\<rparr>"
  have push: "Push s msg (pool, rb) = (putBuffer (Some ob) pool', ?rb)"
    using c full cp old by (simp add: Push_def Let_def hd m_def)
  have slots: "slot ?rb j = (if Suc j = ?c then m else slot rb (Suc j))" if "j < ?c" for j
  proof -
    have "slot ?rb j = (rb_data rb)[rb_head rb := m] ! ((rb_head rb + Suc j) mod ?c)"
      by (simp add: slot_def mod_add_left_eq)
    also have "\<dots> = (if Suc j = ?c then m else slot rb (Suc j))"
    proof (cases "Suc j = ?c")
      case True
      then have "(rb_head rb + Suc j) mod ?c = rb_head rb"
        using c by (simp only: mod_add_self2 mod_less)
      then show ?thesis using True c by simp
    next
      case False
      then have "rb_head rb \<noteq> (rb_head rb + Suc j) mod ?c"
        using that c mod_offset_inj [of "Suc j" ?c 0 "rb_head rb"] by auto
      then show ?thesis using False by (simp add: slot_def)
    qed
    finally show ?thesis .
  qed
  show ?thesis
    using push slots c by (intro exI [of _ ?rb]) auto
qed

lemma ring_items_length: "length (ring_items st) = rb_size (snd st)"
  by (simp add: ring_items_def)

lemma Push_refines:
  assumes inv: "ring_inv st"
  shows "ring_inv (Push s msg st)"
    and "rb_capacity (snd (Push s msg st)) = rb_capacity (snd st)"
    and "ring_items (Push s msg st) =
      drop (Suc (length (ring_items st)) - rb_capacity (snd st)) (ring_items st @ [(s, msg)])"
proof -
  obtain pool rb where st: "st = (pool, rb)" by (cases st)
  have wf: "rb_wf rb" and pool: "pool_inv pool"
    using inv st by (auto simp: ring_inv_def)
  obtain b pool' where cp: "copyBuffer pool msg = (b, pool')"
    by (cases "copyBuffer pool msg")
  note b = copyBuffer_spec [OF pool cp]
  let ?m = "\<lparr>sm_SeqNum = s, sm_Payload = Some b\<rparr>"
  have m: "msg_of ?m = (s, msg)" "occupied_ok ?m"
    using b by (auto simp: msg_of_def payload_bytes_def occupied_ok_def)
  have "ring_inv (Push s msg st) \<and> rb_capacity (snd (Push s msg st)) = rb_capacity (snd st)
    \<and> ring_items (Push s msg st) =
      drop (Suc (length (ring_items st)) - rb_capacity (snd st)) (ring_items st @ [(s, msg)])"
  proof (cases "rb_size rb = rb_capacity rb")
    case False
    then have lt: "rb_size rb < rb_capacity rb"
      using wf by (auto simp: rb_wf_def)
    obtain rb' where p: "Push s msg (pool, rb) = (pool', rb')"
      and rb': "rb_capacity rb' = rb_capacity rb" "length (rb_data rb') = rb_capacity rb"
        "rb_head rb' = rb_head rb" "rb_size rb' = Suc (rb_size rb)"
        "rb_tail rb' = (rb_head rb + Suc (rb_size rb)) mod rb_capacity rb"
        "\<forall>j < rb_capacity rb. slot rb' j = (if j = rb_size rb then ?m else slot rb j)"
      using Push_free [OF wf False cp, of s] by blast
    have items: "ring_items (pool', rb') = ring_items (pool, rb) @ [(s, msg)]"
      using rb' lt m(1) by (simp add: ring_items_def)
    have "rb_wf rb'"
      using wf rb' lt m(2) by (auto simp: rb_wf_def less_Suc_eq)
    then show ?thesis
      using p items rb' b lt by (simp add: st ring_inv_def ring_items_length)
  next
    case True
    have c: "0 < rb_capacity rb" using wf by (simp add: rb_wf_def)
    with wf True have "occupied_ok (slot rb 0)" by (auto simp: rb_wf_def)
    then obtain ob where ob: "sm_Payload (slot rb 0) = Some ob" "slice_ok ob"
      by (auto simp: occupied_ok_def)
    obtain rb' where p: "Push s msg (pool, rb) = (putBuffer (Some ob) pool', rb')"
      and rb': "rb_capacity rb' = rb_capacity rb" "length (rb_data rb') = rb_capacity rb"
        "rb_head rb' = (rb_head rb + 1) mod rb_capacity rb" "rb_size rb' = rb_capacity rb"
        "rb_tail rb' = (rb_head rb + 1) mod rb_capacity rb"
        "\<forall>j < rb_capacity rb. slot rb' j = (if Suc j = rb_capacity rb then ?m else slot rb (Suc j))"
      using Push_full [OF wf True cp ob(1), of s] by blast
    have "map (\<lambda>j. msg_of (slot rb' j)) [0..<rb_capacity rb]
        = map (\<lambda>j. msg_of (slot rb j)) [1..<rb_capacity rb] @ [(s, msg)]"
      using c rb'(6) m(1) by (intro nth_equalityI) (auto simp: nth_append)
    then have items: "ring_items (putBuffer (Some ob) pool', rb') = drop 1 (ring_items (pool, rb) @ [(s, msg)])"
      using rb' True c by (simp add: ring_items_def drop_map)
    have "rb_wf rb'"
      using wf rb' True c m(2) by (auto simp: rb_wf_def)
    then show ?thesis
      using p items rb' b True putBuffer_inv [OF b(3) ob(2)]
      by (simp add: st ring_inv_def ring_items_length)
  qed
  then show "ring_inv (Push s msg st)"
    and "rb_capacity (snd (Push s msg st)) = rb_capacity (snd st)"
    and "ring_items (Push s msg st) =
      drop (Suc (length (ring_items st)) - rb_capacity (snd st)) (ring_items st @ [(s, msg)])"
    by blast+
qed

section \<open>Reading and wiping\<close>

lemma GetAfter_loop_spec:
  assumes "pool_inv pool" "GetAfter_loop rb l is pool = (pool', res)"
  shows "pool_inv pool' \<and> list_all occupied_ok res
    \<and> map msg_of res = filter (\<lambda>x. l < fst x) (map (\<lambda>j. msg_of (slot rb j)) is)"
  using assms
proof (induction rb l "is" pool arbitrary: pool' res rule: GetAfter_loop.induct)
  case (1 rb l pool)
  then show ?case by simp
next
  case (2 rb l i "is" pool)
  let ?item = "slot rb i"
  show ?case
  proof (cases "l < sm_SeqNum ?item")
    case True
    obtain b p1 where cp: "copyBuffer pool (payload_bytes ?item) = (b, p1)"
      by (cases "copyBuffer pool (payload_bytes ?item)")
    obtain p2 rest where lp: "GetAfter_loop rb l is p1 = (p2, rest)"
      by (cases "GetAfter_loop rb l is p1")
    note b = copyBuffer_spec [OF "2.prems"(1) cp]
    have "pool' = p2" "res = \<lparr>sm_SeqNum = sm_SeqNum ?item, sm_Payload = Some b\<rparr> # rest"
      using "2.prems"(2) True cp lp by (auto simp: Let_def slot_def)
    moreover have "pool_inv p2 \<and> list_all occupied_ok rest
        \<and> map msg_of rest = filter (\<lambda>x. l < fst x) (map (\<lambda>j. msg_of (slot rb j)) is)"
      using "2.IH"(1) [OF refl refl _ cp [unfolded slot_def, symmetric] refl b(3) lp] True
      by (simp add: slot_def)
    moreover have "msg_of \<lparr>sm_SeqNum = sm_SeqNum ?item, sm_Payload = Some b\<rparr> = msg_of ?item"
        "occupied_ok \<lparr>sm_SeqNum = sm_SeqNum ?item, sm_Payload = Some b\<rparr>" "l < fst (msg_of ?item)"
      using True b by (auto simp: msg_of_def payload_bytes_def occupied_ok_def)
    ultimately show ?thesis by simp
  next
    case False
    then have "GetAfter_loop rb l is pool = (pool', res)"
      using "2.prems"(2) by (auto simp: Let_def slot_def)
    then show ?thesis
      using "2.IH"(2) [OF refl refl _ "2.prems"(1)] False by (simp add: slot_def msg_of_def)
  qed
qed

lemma GetAfter_spec:
  assumes "ring_inv st" "GetAfter l st = (st', res)"
  shows "ring_inv st'" "snd st' = snd st" "list_all occupied_ok res"
    "map msg_of res = filter (\<lambda>x. l < fst x) (ring_items st)"
proof -
  obtain pool rb where st: "st = (pool, rb)" by (cases st)
  obtain pool' where lp: "GetAfter_loop rb l [0..<rb_size rb] pool = (pool', res)" and st': "st' = (pool', rb)"
    using assms(2) st by (auto simp: GetAfter_def split: prod.splits)
  have "pool_inv pool" using assms(1) st by (simp add: ring_inv_def)
  from GetAfter_loop_spec [OF this lp] st st' assms(1)
  show "ring_inv st'" "snd st' = snd st" "list_all occupied_ok res"
    "map msg_of res = filter (\<lambda>x. l < fst x) (ring_items st)"
    by (auto simp: ring_inv_def ring_items_def)
qed

lemma GetAll_loop_spec:
  assumes "pool_inv pool" "GetAll_loop rb is pool = (pool', res)"
  shows "pool_inv pool' \<and> map gs_bytes res = map (\<lambda>j. payload_bytes (slot rb j)) is"
  using assms
proof (induction "is" arbitrary: pool pool' res)
  case Nil
  then show ?case by simp
next
  case (Cons i "is")
  obtain b p1 where cp: "copyBuffer pool (payload_bytes (slot rb i)) = (b, p1)"
    by (cases "copyBuffer pool (payload_bytes (slot rb i))")
  obtain p2 rest where lp: "GetAll_loop rb is p1 = (p2, rest)"
    by (cases "GetAll_loop rb is p1")
  note b = copyBuffer_spec [OF Cons.prems(1) cp]
  have "pool' = p2" "res = b # rest"
    using Cons.prems(2) cp lp by (auto simp: slot_def)
  with Cons.IH [OF b(3) lp] b show ?case by simp
qed

lemma GetAll_spec:
  assumes "ring_inv st" "GetAll st = (st', res)"
  shows "ring_inv st'" "snd st' = snd st" "map gs_bytes res = map snd (ring_items st)"
proof -
  obtain pool rb where st: "st = (pool, rb)" by (cases st)
  obtain pool' where lp: "GetAll_loop rb [0..<rb_size rb] pool = (pool', res)" and st': "st' = (pool', rb)"
    using assms(2) st by (auto simp: GetAll_def split: prod.splits)
  have "pool_inv pool" using assms(1) st by (simp add: ring_inv_def)
  from GetAll_loop_spec [OF this lp] st st' assms(1)
  show "ring_inv st'" "snd st' = snd st" "map gs_bytes res = map snd (ring_items st)"
    by (auto simp: ring_inv_def ring_items_def msg_of_def)
qed

lemma rb_wf_slots:
  assumes "rb_wf rb" "m \<in> set (rb_data rb)"
  shows "sm_Payload m = None \<or> occupied_ok m"
proof -
  let ?c = "rb_capacity rb" and ?h = "rb_head rb"
  from assms obtain i where i: "i < ?c" "m = rb_data rb ! i"
    by (auto simp: rb_wf_def in_set_conv_nth)
  have h: "?h < ?c" using assms(1) by (simp add: rb_wf_def)
  let ?j = "if ?h \<le> i then i - ?h else i + ?c - ?h"
  have "(?h + ?j) mod ?c = i" "?j < ?c"
    using i(1) h by auto
  then have "m = slot rb ?j" using i(2) by (simp add: slot_def)
  then show ?thesis using assms(1) \<open>?j < ?c\<close> by (metis not_le rb_wf_def)
qed

lemma Wipe_loop_spec:
  assumes "pool_inv pool" "\<forall>m \<in> set ms. sm_Payload m = None \<or> occupied_ok m"
    "Wipe_loop ms pool = (pool', ms')"
  shows "pool_inv pool' \<and> length ms' = length ms \<and> (\<forall>m \<in> set ms'. sm_Payload m = None)"
  using assms
proof (induction ms arbitrary: pool pool' ms')
  case Nil
  then show ?case by simp
next
  case (Cons m ms)
  show ?case
  proof (cases "sm_Payload m")
    case None
    then obtain ms'' where "Wipe_loop ms pool = (pool', ms'')" "ms' = m # ms''"
      using Cons.prems(3) by (auto split: prod.splits)
    with Cons.IH [of pool pool' ms''] Cons.prems None show ?thesis by simp
  next
    case (Some b)
    then have "slice_ok b" using Cons.prems(2) by (auto simp: occupied_ok_def)
    then have p: "pool_inv (putBuffer (Some b) pool)"
      using Cons.prems(1) by (simp add: putBuffer_inv)
    obtain ms'' where "Wipe_loop ms (putBuffer (Some b) pool) = (pool', ms'')" "ms' = nil_msg # ms''"
      using Cons.prems(3) Some by (auto split: prod.splits)
    with Cons.IH [OF p _] Cons.prems(2) show ?thesis by (simp add: nil_msg_def)
  qed
qed

lemma Wipe_spec:
  assumes "ring_inv st"
  shows "ring_inv (Wipe st)" "ring_items (Wipe st) = []"
    "\<forall>m \<in> set (rb_data (snd (Wipe st))). sm_Payload m = None"
proof -
  obtain pool rb where st: "st = (pool, rb)" by (cases st)
  have wf: "rb_wf rb" "pool_inv pool" using assms st by (auto simp: ring_inv_def)
  obtain pool' ms' where w: "Wipe_loop (rb_data rb) pool = (pool', ms')"
    by (cases "Wipe_loop (rb_data rb) pool")
  have ms': "pool_inv pool'" "length ms' = length (rb_data rb)" "\<forall>m \<in> set ms'. sm_Payload m = None"
    using Wipe_loop_spec [OF wf(2) _ w] rb_wf_slots [OF wf(1)] by auto
  then show "ring_inv (Wipe st)" "ring_items (Wipe st) = []"
    "\<forall>m \<in> set (rb_data (snd (Wipe st))). sm_Payload m = None"
    using wf w by (auto simp: st Wipe_def ring_inv_def ring_items_def rb_wf_def slot_def)
qed

lemma NewRingBuffer_inv: "pool_inv pool \<Longrightarrow> ring_inv (pool, NewRingBuffer n)"
  by (auto simp: ring_inv_def rb_wf_def NewRingBuffer_def Let_def slot_def nil_msg_def)

lemma NewRingBuffer_items [simp]: "ring_items (pool, NewRingBuffer n) = []"
  by (simp add: ring_items_def NewRingBuffer_def Let_def)

section \<open>The contract of a replay log\<close>

text \<open>If a history is in increasing order, what was dropped is older than what is kept.\<close>

lemma kept_complete:
  fixes xs :: "(u64 \<times> bytes) list"
  assumes "sorted_wrt (<) (map fst xs)" "0 < c"
    and old: "\<And>o1 m1 rest. drop (length xs - c) xs = (o1, m1) # rest \<Longrightarrow> 0 < o1 \<Longrightarrow> o1 - 1 \<le> l"
  shows "filter (\<lambda>x. l < fst x) (drop (length xs - c) xs) = filter (\<lambda>x. l < fst x) xs"
proof -
  let ?d = "length xs - c"
  have srt: "sorted_wrt (<) (map fst (take ?d xs) @ map fst (drop ?d xs))"
    using assms(1) by (metis append_take_drop_id map_append)
  have "\<not> l < fst x" if x: "x \<in> set (take ?d xs)" for x
  proof -
    from x have "drop ?d xs \<noteq> []" using assms(2) by (cases xs) auto
    then obtain o1 m1 rest where hd: "drop ?d xs = (o1, m1) # rest"
      by (metis list.exhaust surj_pair)
    then have lt: "fst x < o1"
      using srt x by (auto simp: sorted_wrt_append)
    then have "o1 - 1 \<le> l"
      using old [of o1 m1 rest] hd word_gt_0 by fastforce
    then show ?thesis using lt by (meson leD order_trans word_less_pred)
  qed
  then have "filter (\<lambda>x. l < fst x) (take ?d xs) = []"
    by (simp add: filter_empty_conv)
  then show ?thesis
    by (metis append_Nil append_take_drop_id filter_append)
qed

text \<open>
  What the engines rely on: a log of bounded capacity that keeps the most recent messages in
  order. Inside the locale: what a whole history of pushes leaves, and when reading from a
  sequence number on misses nothing.
\<close>

locale replay_log =
  fixes items :: "'b \<Rightarrow> (u64 \<times> bytes) list"
    and cap :: "'b \<Rightarrow> nat"
    and push :: "u64 \<Rightarrow> bytes \<Rightarrow> 'b \<Rightarrow> 'b"
    and inv :: "'b \<Rightarrow> bool"
  assumes inv_push: "inv b \<Longrightarrow> inv (push s m b)"
    and cap_push: "inv b \<Longrightarrow> cap (push s m b) = cap b"
    and items_push: "inv b \<Longrightarrow>
      items (push s m b) = drop (Suc (length (items b)) - cap b) (items b @ [(s, m)])"
    and items_cap: "inv b \<Longrightarrow> length (items b) \<le> cap b"
    and cap_pos: "inv b \<Longrightarrow> 0 < cap b"
begin

lemma inv_run: "inv b \<Longrightarrow> inv (fold (\<lambda>(s, m). push s m) xs b)"
  by (induction xs arbitrary: b) (auto simp: inv_push)

lemma items_run:
  "inv b \<Longrightarrow> items (fold (\<lambda>(s, m). push s m) xs b)
     = drop (length (items b) + length xs - cap b) (items b @ xs)"
proof (induction xs arbitrary: b)
  case Nil
  then show ?case using items_cap [of b] by simp
next
  case (Cons x xs)
  obtain s m where x: "x = (s, m)" by (cases x)
  have IH: "items (fold (\<lambda>(s, m). push s m) xs (push s m b))
      = drop (length (items (push s m b)) + length xs - cap b) (items (push s m b) @ xs)"
    using Cons.IH [of "push s m b"] Cons.prems by (simp add: inv_push cap_push)
  show ?case
  proof (cases "Suc (length (items b)) \<le> cap b")
    case True
    then show ?thesis using IH by (simp add: x items_push [OF Cons.prems])
  next
    case False
    then have "length (items b) = cap b" using items_cap [OF Cons.prems] by simp
    then have p: "items (push s m b) = tl (items b @ [x])" and "length (items (push s m b)) = cap b"
      by (auto simp: x items_push [OF Cons.prems] drop_Suc [of 0, simplified] simp del: drop_append)
    then have "items (fold (\<lambda>(s, m). push s m) (x # xs) b) = drop (length xs) (tl (items b @ [x]) @ xs)"
      using IH by (simp add: x)
    also have "tl (items b @ [x]) @ xs = tl (items b @ x # xs)"
      by (cases "items b") auto
    finally show ?thesis
      using \<open>length (items b) = cap b\<close> by (simp add: drop_Suc del: drop_append)
  qed
qed

lemma items_run_new:
  "inv b \<Longrightarrow> items b = [] \<Longrightarrow> items (fold (\<lambda>(s, m). push s m) xs b) = drop (length xs - cap b) xs"
  using items_run [of b xs] by simp

text \<open>When the oldest kept message is no newer than the next one to read, nothing is missed.\<close>

lemma after_complete:
  assumes "inv b" "items b = []" "sorted_wrt (<) (map fst xs)"
    and old: "\<And>o1 m1 rest. items (fold (\<lambda>(s, m). push s m) xs b) = (o1, m1) # rest \<Longrightarrow>
      0 < o1 \<Longrightarrow> o1 - 1 \<le> l"
  shows "filter (\<lambda>x. l < fst x) (items (fold (\<lambda>(s, m). push s m) xs b)) = filter (\<lambda>x. l < fst x) xs"
  using kept_complete [OF assms(3) cap_pos [OF assms(1)], of l] old items_run_new [OF assms(1,2), of xs] by simp

end

lemma ring_cap_bound:
  "ring_inv st \<Longrightarrow> length (ring_items st) \<le> rb_capacity (snd st)"
  "ring_inv st \<Longrightarrow> 0 < rb_capacity (snd st)"
  by (auto simp: ring_items_length ring_inv_def rb_wf_def)

lemma capacity_NewRingBuffer [simp]:
  "rb_capacity (NewRingBuffer n) = (if n \<le> 0 then 100 else nat n)"
  by (simp add: NewRingBuffer_def Let_def)

interpretation rlog: replay_log ring_items "\<lambda>st. rb_capacity (snd st)" Push ring_inv
  by unfold_locales (auto simp: Push_refines ring_cap_bound)

section \<open>Properties of the replay buffer\<close>

text \<open>The operations of the buffer as events of a state machine.\<close>

datatype ring_op = OpPush u64 bytes | OpGetAfter u64 | OpGetAll | OpWipe

fun ring_step :: "ring_op \<Rightarrow> bufpool \<times> ringbuffer \<Rightarrow> bufpool \<times> ringbuffer" where
  "ring_step (OpPush s m) st = Push s m st"
| "ring_step (OpGetAfter l) st = fst (GetAfter l st)"
| "ring_step OpGetAll st = fst (GetAll st)"
| "ring_step OpWipe st = Wipe st"

lemma ring_step_inv: "ring_inv st \<Longrightarrow> ring_inv (ring_step op st)"
proof (cases op)
  case (OpGetAfter l)
  then show "ring_inv st \<Longrightarrow> ?thesis"
    using GetAfter_spec(1) [of st l] by (cases "GetAfter l st") auto
next
  case OpGetAll
  then show "ring_inv st \<Longrightarrow> ?thesis"
    using GetAll_spec(1) [of st] by (cases "GetAll st") auto
qed (auto simp: Push_refines Wipe_spec)

interpretation ringm: safe_machine ring_step ring_inv
  by unfold_locales (rule ring_step_inv)

text \<open>
  The replay buffer is a bounded log: after any sequence of \<open>Push\<close> calls on a new buffer
  of capacity \<open>n\<close> it holds exactly the last \<open>n\<close> messages, oldest first, with their sequence
  numbers and bytes (the last 100 when the requested capacity is not positive).
\<close>

lemma Push_keeps_most_recent:
  assumes "pool_inv pool"
  shows "ring_items (fold (\<lambda>(s, m). Push s m) xs (pool, NewRingBuffer n))
     = drop (length xs - (if n \<le> 0 then 100 else nat n)) xs"
  using rlog.items_run_new [OF NewRingBuffer_inv [OF assms], of n xs] by simp

text \<open>
  \<open>GetAfter\<close> returns copies of exactly the stored messages with a larger sequence number,
  in order, and leaves the buffer as it is.
\<close>

lemma GetAfter_returns_newer:
  assumes "ring_inv st"
  shows "map msg_of (snd (GetAfter l st)) = filter (\<lambda>x. l < fst x) (ring_items st)
     \<and> snd (fst (GetAfter l st)) = snd st"
  using GetAfter_spec [OF assms, of l] by (cases "GetAfter l st") auto

lemma ring_items_hd:
  "0 < rb_size rb \<Longrightarrow> rb_wf rb \<Longrightarrow>
   ring_items (pool, rb) = (OldestSeqNum rb, payload_bytes (slot rb 0)) # tl (ring_items (pool, rb))"
  by (auto simp: ring_items_def OldestSeqNum_def rb_wf_def slot_def msg_of_def upt_conv_Cons)

lemma no_overflow_oldest:
  assumes "ring_inv st" "0 < l" "\<not> IsOverflow (snd st) l" "ring_items st = (o1, m1) # rest" "0 < o1"
  shows "o1 - 1 \<le> l"
proof -
  obtain p rb where st: "st = (p, rb)" by (cases st)
  have pos: "0 < rb_size rb" using assms(4) st ring_items_length [of st] by auto
  have "rb_wf rb" using assms(1) st by (simp add: ring_inv_def)
  with pos assms(4) have "OldestSeqNum rb = o1"
    using ring_items_hd [of rb p] st by simp
  then show ?thesis
    using assms(2,3,5) pos
    by (auto simp: st IsOverflow_def OldestSeqNum_def Let_def word_gt_0 not_less split: if_splits)
qed

text \<open>
  Replay is complete unless \<open>IsOverflow\<close> says otherwise: if messages were pushed with
  increasing sequence numbers and the buffer does not report an overflow for a reader that
  has seen \<open>l > 0\<close>, then \<open>GetAfter l\<close> returns every message ever pushed after \<open>l\<close>.
\<close>

lemma GetAfter_complete_unless_overflow:
  assumes "pool_inv pool" "sorted_wrt (<) (map fst xs)" "0 < l"
    and "\<not> IsOverflow (snd (fold (\<lambda>(s, m). Push s m) xs (pool, NewRingBuffer n))) l"
  shows "map msg_of (snd (GetAfter l (fold (\<lambda>(s, m). Push s m) xs (pool, NewRingBuffer n))))
     = filter (\<lambda>x. l < fst x) xs"
proof -
  let ?st = "fold (\<lambda>(s, m). Push s m) xs (pool, NewRingBuffer n)"
  note inv0 = NewRingBuffer_inv [OF assms(1), of n]
  have inv: "ring_inv ?st" using inv0 by (rule rlog.inv_run)
  have res: "map msg_of (snd (GetAfter l ?st)) = filter (\<lambda>x. l < fst x) (ring_items ?st)"
    using GetAfter_spec [OF inv, of l] by (cases "GetAfter l ?st") auto
  have "filter (\<lambda>x. l < fst x) (ring_items ?st) = filter (\<lambda>x. l < fst x) xs"
    using no_overflow_oldest [OF inv assms(3,4)] by (intro rlog.after_complete [OF inv0 _ assms(2)]) auto
  then show ?thesis using res by simp
qed

text \<open>
  \<open>Wipe\<close> scrubs: afterwards no slot holds a payload, the buffer is empty and every array
  returned to the pool is all zeros, so no message byte survives in the buffer's memory.
\<close>

lemma Wipe_scrubs:
  assumes "ring_inv st"
  shows "list_all (\<lambda>m. sm_Payload m = None) (rb_data (snd (Wipe st)))
     \<and> Len (snd (Wipe st)) = 0 \<and> list_all (\<lambda>b. list_all (\<lambda>x. x = 0) (gs_arr b)) (fst (Wipe st))"
proof -
  have "pool_inv (fst (Wipe st))" using Wipe_spec(1) [OF assms] by (simp add: ring_inv_def)
  then have "\<forall>b \<in> set (fst (Wipe st)). \<forall>x \<in> set (gs_arr b). x = 0"
    by (metis clean_slice_def in_set_replicate list_all_iff pool_inv_def)
  moreover have "Len (snd (Wipe st)) = 0"
    using Wipe_spec(2) [OF assms] by (simp add: Len_def ring_items_def)
  ultimately show ?thesis using Wipe_spec(3) [OF assms] by (simp add: list_all_iff)
qed

text \<open>
  C33: Every sequence of operations on a new buffer, in any order, keeps the invariant: indices
  in range, the live slots consistent with head, tail and size, free slots empty, and the pool
  free of message bytes.
\<close>

theorem ring_operations_safe:
  assumes "pool_inv pool"
  shows "ring_inv (fold ring_step ops (pool, NewRingBuffer n))"
  using NewRingBuffer_inv [OF assms] by (rule ringm.run_inv)

theorem ring_operations_safe_witness:
  "ring_inv (fold ring_step [OpPush 1 [1], OpGetAfter 0, OpWipe, OpGetAll] ([], NewRingBuffer 1))"
  by (rule ring_operations_safe) (simp add: pool_inv_def)

end
