(* ===== verification/Aes_Gcm.thy ===== *)
theory Aes_Gcm
  imports ZF_Prelude
begin

text \<open>
  \<open>crypto/aes\<close> with 32-byte keys and \<open>cipher.NewGCM\<close>: AES-256 (FIPS 197) in Galois/Counter
  mode (NIST SP 800-38D) with 12-byte nonces and 16-byte tags, executable. The laws the
  program relies on (decryption inverts encryption, the ciphertext is 16 bytes longer) are
  proved from the definitions.
\<close>

section \<open>AES-256\<close>

definition aes_sbox :: "byte list" where
  "aes_sbox =
    [0x63, 0x7c, 0x77, 0x7b, 0xf2, 0x6b, 0x6f, 0xc5, 0x30, 0x01, 0x67, 0x2b, 0xfe, 0xd7, 0xab, 0x76,
     0xca, 0x82, 0xc9, 0x7d, 0xfa, 0x59, 0x47, 0xf0, 0xad, 0xd4, 0xa2, 0xaf, 0x9c, 0xa4, 0x72, 0xc0,
     0xb7, 0xfd, 0x93, 0x26, 0x36, 0x3f, 0xf7, 0xcc, 0x34, 0xa5, 0xe5, 0xf1, 0x71, 0xd8, 0x31, 0x15,
     0x04, 0xc7, 0x23, 0xc3, 0x18, 0x96, 0x05, 0x9a, 0x07, 0x12, 0x80, 0xe2, 0xeb, 0x27, 0xb2, 0x75,
     0x09, 0x83, 0x2c, 0x1a, 0x1b, 0x6e, 0x5a, 0xa0, 0x52, 0x3b, 0xd6, 0xb3, 0x29, 0xe3, 0x2f, 0x84,
     0x53, 0xd1, 0x00, 0xed, 0x20, 0xfc, 0xb1, 0x5b, 0x6a, 0xcb, 0xbe, 0x39, 0x4a, 0x4c, 0x58, 0xcf,
     0xd0, 0xef, 0xaa, 0xfb, 0x43, 0x4d, 0x33, 0x85, 0x45, 0xf9, 0x02, 0x7f, 0x50, 0x3c, 0x9f, 0xa8,
     0x51, 0xa3, 0x40, 0x8f, 0x92, 0x9d, 0x38, 0xf5, 0xbc, 0xb6, 0xda, 0x21, 0x10, 0xff, 0xf3, 0xd2,
     0xcd, 0x0c, 0x13, 0xec, 0x5f, 0x97, 0x44, 0x17, 0xc4, 0xa7, 0x7e, 0x3d, 0x64, 0x5d, 0x19, 0x73,
     0x60, 0x81, 0x4f, 0xdc, 0x22, 0x2a, 0x90, 0x88, 0x46, 0xee, 0xb8, 0x14, 0xde, 0x5e, 0x0b, 0xdb,
     0xe0, 0x32, 0x3a, 0x0a, 0x49, 0x06, 0x24, 0x5c, 0xc2, 0xd3, 0xac, 0x62, 0x91, 0x95, 0xe4, 0x79,
     0xe7, 0xc8, 0x37, 0x6d, 0x8d, 0xd5, 0x4e, 0xa9, 0x6c, 0x56, 0xf4, 0xea, 0x65, 0x7a, 0xae, 0x08,
     0xba, 0x78, 0x25, 0x2e, 0x1c, 0xa6, 0xb4, 0xc6, 0xe8, 0xdd, 0x74, 0x1f, 0x4b, 0xbd, 0x8b, 0x8a,
     0x70, 0x3e, 0xb5, 0x66, 0x48, 0x03, 0xf6, 0x0e, 0x61, 0x35, 0x57, 0xb9, 0x86, 0xc1, 0x1d, 0x9e,
     0xe1, 0xf8, 0x98, 0x11, 0x69, 0xd9, 0x8e, 0x94, 0x9b, 0x1e, 0x87, 0xe9, 0xce, 0x55, 0x28, 0xdf,
     0x8c, 0xa1, 0x89, 0x0d, 0xbf, 0xe6, 0x42, 0x68, 0x41, 0x99, 0x2d, 0x0f, 0xb0, 0x54, 0xbb, 0x16]"

definition aes_sub :: "byte \<Rightarrow> byte" where
  "aes_sub b = aes_sbox ! unat b"

definition aes_xtime :: "byte \<Rightarrow> byte" where
  "aes_xtime b = (if bit b 7 then push_bit 1 b XOR 0x1b else push_bit 1 b)"

definition xor_bytes :: "bytes \<Rightarrow> bytes \<Rightarrow> bytes" where
  "xor_bytes a b = map2 (\<lambda>x y. x XOR y) a b"

text \<open>The key schedule: 60 four-byte words.\<close>

primrec aes_expand :: "nat \<Rightarrow> byte \<Rightarrow> bytes list \<Rightarrow> bytes list" where
  "aes_expand 0 rcon w = w"
| "aes_expand (Suc n) rcon w =
     (let i = length w;
          temp = w ! (i - 1);
          temp' = (if i mod 8 = 0 then xor_bytes (map aes_sub (rotate1 temp)) [rcon, 0, 0, 0]
                   else if i mod 8 = 4 then map aes_sub temp
                   else temp)
      in aes_expand n (if i mod 8 = 0 then aes_xtime rcon else rcon) (w @ [xor_bytes (w ! (i - 8)) temp']))"

definition aes_schedule :: "bytes \<Rightarrow> bytes list" where
  "aes_schedule key = aes_expand 52 1 (map (\<lambda>i. go_slice key (4 * i) (4 * i + 4)) [0..<8])"

definition aes_round_key :: "bytes list \<Rightarrow> nat \<Rightarrow> bytes" where
  "aes_round_key w r = concat (map (\<lambda>i. w ! (4 * r + i)) [0..<4])"

text \<open>The state is the 16 bytes column by column.\<close>

definition aes_shift_rows :: "bytes \<Rightarrow> bytes" where
  "aes_shift_rows s = map (\<lambda>i. s ! (4 * ((i div 4 + i mod 4) mod 4) + i mod 4)) [0..<16]"

definition aes_mix_column :: "byte \<Rightarrow> byte \<Rightarrow> byte \<Rightarrow> byte \<Rightarrow> bytes" where
  "aes_mix_column a b c d =
     [aes_xtime a XOR aes_xtime b XOR b XOR c XOR d,
      a XOR aes_xtime b XOR aes_xtime c XOR c XOR d,
      a XOR b XOR aes_xtime c XOR aes_xtime d XOR d,
      aes_xtime a XOR a XOR b XOR c XOR aes_xtime d]"

definition aes_mix_columns :: "bytes \<Rightarrow> bytes" where
  "aes_mix_columns s =
     concat (map (\<lambda>c. aes_mix_column (s ! (4 * c)) (s ! (4 * c + 1)) (s ! (4 * c + 2)) (s ! (4 * c + 3))) [0..<4])"

definition aes_add_key :: "bytes \<Rightarrow> bytes \<Rightarrow> bytes" where
  "aes_add_key k s = map (\<lambda>i. s ! i XOR k ! i) [0..<16]"

definition aes_block :: "bytes \<Rightarrow> bytes \<Rightarrow> bytes" where
  "aes_block key blk =
     (let w = aes_schedule key;
          s = aes_add_key (aes_round_key w 0) blk;
          s = fold (\<lambda>r s. aes_add_key (aes_round_key w r)
                (aes_mix_columns (aes_shift_rows (map aes_sub s)))) [1..<14] s
      in aes_add_key (aes_round_key w 14) (aes_shift_rows (map aes_sub s)))"

lemma length_aes_block [simp]: "length (aes_block key blk) = 16"
  by (simp add: aes_block_def Let_def aes_add_key_def)

section \<open>GCM\<close>

definition gcm_counter :: "bytes \<Rightarrow> nat \<Rightarrow> bytes" where
  "gcm_counter nonce i = nonce @ PutUint32 (of_nat i)"

text \<open>The key stream for \<open>n\<close> bytes: blocks with counters 2, 3, ...\<close>

definition gcm_keystream :: "bytes \<Rightarrow> bytes \<Rightarrow> nat \<Rightarrow> bytes" where
  "gcm_keystream key nonce n =
     concat (map (\<lambda>i. aes_block key (gcm_counter nonce (i + 2))) [0..<(n + 15) div 16])"

definition gcm_ctr :: "bytes \<Rightarrow> bytes \<Rightarrow> bytes \<Rightarrow> bytes" where
  "gcm_ctr key nonce p = xor_bytes p (gcm_keystream key nonce (length p))"

type_synonym gf128 = "128 word"

definition gf_double :: "gf128 \<Rightarrow> gf128" where
  "gf_double v = (if bit v 0 then drop_bit 1 v XOR push_bit 120 0xE1 else drop_bit 1 v)"

primrec gf_mult_loop :: "nat \<Rightarrow> gf128 \<Rightarrow> gf128 \<Rightarrow> gf128 \<Rightarrow> gf128" where
  "gf_mult_loop 0 x z v = z"
| "gf_mult_loop (Suc i) x z v = gf_mult_loop i x (if bit x i then z XOR v else z) (gf_double v)"

definition gf_mult :: "gf128 \<Rightarrow> gf128 \<Rightarrow> gf128" where
  "gf_mult x y = gf_mult_loop 128 x 0 y"

definition gcm_pad16 :: "bytes \<Rightarrow> bytes" where
  "gcm_pad16 b = b @ replicate ((16 - length b mod 16) mod 16) 0"

definition ghash :: "gf128 \<Rightarrow> bytes \<Rightarrow> gf128" where
  "ghash h bs = fold (\<lambda>i y. gf_mult (y XOR be_get (go_slice bs (16 * i) (16 * i + 16))) h) [0..<length bs div 16] 0"

definition gcm_tag :: "bytes \<Rightarrow> bytes \<Rightarrow> bytes \<Rightarrow> bytes \<Rightarrow> bytes" where
  "gcm_tag key nonce aad c =
     (let h = be_get (aes_block key (replicate 16 0));
          s = ghash h (gcm_pad16 aad @ gcm_pad16 c @ PutUint64 (of_nat (8 * length aad)) @ PutUint64 (of_nat (8 * length c)))
      in xor_bytes (be_put 16 s) (aes_block key (gcm_counter nonce 1)))"

text \<open>\<open>aead.Seal(nil, nonce, plaintext, aad)\<close>\<close>

definition gcm_seal :: "bytes \<Rightarrow> bytes \<Rightarrow> bytes \<Rightarrow> bytes \<Rightarrow> bytes" where
  "gcm_seal key nonce p aad = (let c = gcm_ctr key nonce p in c @ gcm_tag key nonce aad c)"

text \<open>\<open>aead.Open(nil, nonce, ciphertext, aad)\<close>: \<open>None\<close> is the authentication error.\<close>

definition gcm_open :: "bytes \<Rightarrow> bytes \<Rightarrow> bytes \<Rightarrow> bytes \<Rightarrow> bytes option" where
  "gcm_open key nonce ct aad =
     (if length ct < 16 then None
      else let c = take (length ct - 16) ct;
               tag = drop (length ct - 16) ct
           in if tag = gcm_tag key nonce aad c then Some (gcm_ctr key nonce c) else None)"

section \<open>The contract of an authenticated cipher\<close>

locale aead_scheme =
  fixes seal :: "bytes \<Rightarrow> bytes \<Rightarrow> bytes \<Rightarrow> bytes \<Rightarrow> bytes"
    and unseal :: "bytes \<Rightarrow> bytes \<Rightarrow> bytes \<Rightarrow> bytes \<Rightarrow> bytes option"
    and overhead :: nat
  assumes unseal_seal: "unseal k n (seal k n p a) a = Some p"
    and length_seal: "length (seal k n p a) = length p + overhead"
    and seal_unseal: "unseal k n c a = Some p \<Longrightarrow> seal k n p a = c"
begin

text \<open>Under one key, nonce and header a ciphertext determines its plaintext and conversely.\<close>

lemma seal_inj: "seal k n p a = seal k n q a \<longleftrightarrow> p = q"
  by (metis option.inject unseal_seal)

lemma unseal_iff: "unseal k n c a = Some p \<longleftrightarrow> c = seal k n p a"
  by (metis seal_unseal unseal_seal)

lemma unseal_length: "unseal k n c a = Some p \<Longrightarrow> length c = length p + overhead"
  using seal_unseal length_seal by metis

end

lemma length_xor_bytes [simp]: "length (xor_bytes a b) = min (length a) (length b)"
  by (simp add: xor_bytes_def)

lemma xor_bytes_twice: "length a \<le> length k \<Longrightarrow> xor_bytes (xor_bytes a k) k = a"
  by (auto simp: xor_bytes_def xor.assoc intro!: nth_equalityI)

lemma length_gcm_keystream: "length (gcm_keystream key nonce n) = 16 * ((n + 15) div 16)"
  by (simp add: gcm_keystream_def length_concat comp_def sum_list_triv)

lemma keystream_covers: "n \<le> length (gcm_keystream key nonce n)"
  by (simp add: length_gcm_keystream)

lemma length_gcm_ctr [simp]: "length (gcm_ctr key nonce p) = length p"
  using keystream_covers [of "length p" key nonce] by (simp add: gcm_ctr_def)

lemma gcm_ctr_twice: "gcm_ctr key nonce (gcm_ctr key nonce p) = p"
  using keystream_covers [of "length p" key nonce]
  by (simp add: gcm_ctr_def xor_bytes_twice)

lemma length_gcm_tag [simp]: "length (gcm_tag key nonce aad c) = 16"
  by (simp add: gcm_tag_def Let_def)

interpretation gcm: aead_scheme gcm_seal gcm_open 16
proof unfold_locales
  fix k n p a
  show "gcm_open k n (gcm_seal k n p a) a = Some p"
    by (simp add: gcm_open_def gcm_seal_def Let_def gcm_ctr_twice)
  show "length (gcm_seal k n p a) = length p + 16"
    by (simp add: gcm_seal_def Let_def)
next
  fix k n c a p
  assume "gcm_open k n c a = Some p"
  then show "gcm_seal k n p a = c"
    by (auto simp: gcm_open_def gcm_seal_def Let_def gcm_ctr_twice split: if_splits)
      (metis append_take_drop_id)
qed

end
