(* ===== verification/Cipher.thy ===== *)
theory Cipher
  imports Go_IO Sha256 Aes_Gcm
begin

text \<open>
  \<open>pkg/crypto/cipher.go\<close>: HKDF key derivation, nonces, the AES-256-GCM \<open>Cipher\<close> object with its
  life cycle, key wrapping, and the short authentication string. Random bytes are an argument
  of the operations that draw them (\<open>None\<close>: the generator failed). Overwriting of temporary
  buffers that the functions no longer return has no effect on a value model and is left out;
  the overwriting of memory that stays reachable is modelled in \<open>RingBuffer\<close> and \<open>Memzero\<close>.
\<close>

section \<open>Errors and constants\<close>

datatype crypto_err =
    ErrDecryptionFailed
  | ErrInvalidKeySize
  | ErrInvalidNonceSize
  | ErrEmptySecret
  | ErrRandom
  | ErrCipherClosed
  | ErrWrappedSize
  | ErrPAKEFailed
  | ErrInvalidPeerMsg

definition KeySize :: nat where "KeySize = 32"
definition crypto_NonceSize :: nat where "crypto_NonceSize = 12"
definition DomainInfo :: bytes where "DomainInfo = bytes_of ''zerofeed-v2-hkdf-aead''"

section \<open>Key derivation\<close>

text \<open>The expand loop of \<open>HKDFSHA256\<close>; the counter is a byte and wraps around.\<close>

function hkdf_expand :: "bytes \<Rightarrow> bytes \<Rightarrow> nat \<Rightarrow> byte \<Rightarrow> bytes \<Rightarrow> bytes \<Rightarrow> bytes" where
  "hkdf_expand prk info len counter prev okm =
     (if length okm < len then
        let nextPrev = hmac prk (prev @ info @ [counter])
        in hkdf_expand prk info len (counter + 1) nextPrev (okm @ nextPrev)
      else okm)"
  by pat_completeness auto
termination
  by (relation "measure (\<lambda>(prk, info, len, counter, prev, okm). len - length okm)") auto

declare hkdf_expand.simps [simp del]

definition HKDFSHA256 :: "bytes \<Rightarrow> bytes \<Rightarrow> bytes \<Rightarrow> nat \<Rightarrow> crypto_err + bytes" where
  "HKDFSHA256 secret salt info len =
     (if length secret = 0 then Inl ErrEmptySecret
      else
        let salt = (if length salt = 0 then bytes_of ''zerofeed-v2-default-salt'' else salt);
            prk = hmac salt secret;
            okm = hkdf_expand prk info len 1 [] []
        in Inr (take len okm))"

definition DeriveKey :: "bytes \<Rightarrow> bytes \<Rightarrow> crypto_err + bytes" where
  "DeriveKey secret sessionID =
     HKDFSHA256 secret (bytes_of ''zerofeed-v2-session-key-salt:'' @ sessionID) DomainInfo KeySize"

definition RatchetKey :: "bytes \<Rightarrow> bytes \<Rightarrow> crypto_err + bytes" where
  "RatchetKey currentKey salt = HKDFSHA256 currentKey salt (bytes_of ''zerofeed-v2-key-ratchet-pfs'') KeySize"

section \<open>Nonces\<close>

text \<open>\<open>rnd\<close> is what the random source delivers for the 12 bytes \<open>io.ReadFull\<close> requests.\<close>

definition GenerateNonce :: "bytes option \<Rightarrow> crypto_err + bytes" where
  "GenerateNonce rnd =
     (case rnd of None \<Rightarrow> Inl ErrRandom
      | Some r \<Rightarrow> Inr (go_copy (replicate crypto_NonceSize 0) 0 crypto_NonceSize r))"

definition ConstructNonceRFC5116 :: "bytes \<Rightarrow> u64 \<Rightarrow> bytes" where
  "ConstructNonceRFC5116 sessionSalt seqNum =
     (let nonce = replicate crypto_NonceSize 0;
          nonce = go_copy nonce 0 4 sessionSalt
      in go_copy nonce 4 12 (PutUint64 seqNum))"

section \<open>The cipher object\<close>

text \<open>
  \<open>ci_aead\<close> is the AES-GCM instance, which carries its own copy of the key, or nil;
  \<open>ci_key\<close> is the stored key, or nil.
\<close>

record cipher =
  ci_aead :: "bytes option"
  ci_key :: "bytes option"

definition NewCipher :: "bytes \<Rightarrow> crypto_err + cipher" where
  "NewCipher key =
     (if length key \<noteq> KeySize then Inl ErrInvalidKeySize
      else let keyCopy = go_copy (replicate KeySize 0) 0 KeySize key
           in Inr \<lparr>ci_aead = Some keyCopy, ci_key = Some keyCopy\<rparr>)"

definition UpdateKey :: "cipher \<Rightarrow> bytes \<Rightarrow> crypto_err + cipher" where
  "UpdateKey c newKey =
     (if length newKey \<noteq> KeySize then Inl ErrInvalidKeySize
      else let keyCopy = go_copy (replicate KeySize 0) 0 KeySize newKey
           in Inr (c\<lparr>ci_aead := Some keyCopy, ci_key := Some keyCopy\<rparr>))"

definition GetKey :: "cipher \<Rightarrow> bytes option" where
  "GetKey c =
     (case ci_key c of None \<Rightarrow> None
      | Some k \<Rightarrow> Some (go_copy (replicate KeySize 0) 0 KeySize k))"

text \<open>\<open>Encrypt\<close> with a nil nonce draws a random one; it returns ciphertext and nonce.\<close>

definition Encrypt ::
    "cipher \<Rightarrow> bytes option \<Rightarrow> bytes \<Rightarrow> bytes option \<Rightarrow> bytes \<Rightarrow> crypto_err + bytes \<times> bytes" where
  "Encrypt c rnd plaintext nonce aad =
     (case (case nonce of None \<Rightarrow> GenerateNonce rnd
            | Some n \<Rightarrow> if length n \<noteq> crypto_NonceSize then Inl ErrInvalidNonceSize else Inr n) of
        Inl e \<Rightarrow> Inl e
      | Inr nonce \<Rightarrow>
          (case ci_aead c of
             None \<Rightarrow> Inl ErrCipherClosed
           | Some k \<Rightarrow> Inr (gcm_seal k nonce plaintext aad, nonce)))"

definition Decrypt :: "cipher \<Rightarrow> bytes \<Rightarrow> bytes \<Rightarrow> bytes \<Rightarrow> crypto_err + bytes" where
  "Decrypt c ciphertext nonce aad =
     (if length nonce \<noteq> crypto_NonceSize then Inl ErrInvalidNonceSize
      else (case ci_aead c of
              None \<Rightarrow> Inl ErrCipherClosed
            | Some k \<Rightarrow> (case gcm_open k nonce ciphertext aad of
                          None \<Rightarrow> Inl ErrDecryptionFailed
                        | Some plaintext \<Rightarrow> Inr plaintext)))"

definition Cipher_Close :: "cipher \<Rightarrow> cipher" where
  "Cipher_Close c = c\<lparr>ci_key := None, ci_aead := None\<rparr>"

section \<open>Key wrapping\<close>

definition wrapAAD :: bytes where "wrapAAD = bytes_of ''zerofeed-v3-pqc-key-wrap''"

definition WrapSessionKey :: "bytes option \<Rightarrow> bytes \<Rightarrow> bytes \<Rightarrow> crypto_err + bytes" where
  "WrapSessionKey rnd p2pKey masterKey =
     (case NewCipher p2pKey of Inl e \<Rightarrow> Inl e
      | Inr ciph \<Rightarrow>
          (case Encrypt ciph rnd masterKey None wrapAAD of Inl e \<Rightarrow> Inl e
           | Inr (ciphertext, nonce) \<Rightarrow>
               let out = replicate (length nonce + length ciphertext) 0;
                   out = go_copy out 0 (length nonce) nonce
               in Inr (go_copy out (length nonce) (length out) ciphertext)))"

definition UnwrapSessionKey :: "bytes \<Rightarrow> bytes \<Rightarrow> crypto_err + bytes" where
  "UnwrapSessionKey p2pKey wrappedData =
     (if length wrappedData < crypto_NonceSize + 48 then Inl ErrWrappedSize
      else
        let wrappedData = (if crypto_NonceSize + 48 < length wrappedData then take (crypto_NonceSize + 48) wrappedData
                           else wrappedData)
        in (case NewCipher p2pKey of Inl e \<Rightarrow> Inl e
            | Inr ciph \<Rightarrow> Decrypt ciph (drop crypto_NonceSize wrappedData) (take crypto_NonceSize wrappedData) wrapAAD))"

section \<open>Fingerprints\<close>

definition hex_digit :: "nat \<Rightarrow> char" where
  "hex_digit n = ''0123456789abcdef'' ! n"

text \<open>\<open>hex.EncodeToString\<close>\<close>

definition hex_encode :: "bytes \<Rightarrow> string" where
  "hex_encode bs = concat (map (\<lambda>b. [hex_digit (unat b div 16), hex_digit (unat b mod 16)]) bs)"

text \<open>
  \<open>spki\<close> stands for \<open>x509.ParseCertificate\<close> followed by \<open>RawSubjectPublicKeyInfo\<close>
  (\<open>None\<close>: the certificate does not parse).
\<close>

definition CalculateSPKIFingerprint :: "(bytes \<Rightarrow> bytes option) \<Rightarrow> bytes \<Rightarrow> string" where
  "CalculateSPKIFingerprint spki rawCertDER =
     (case spki rawCertDER of
        None \<Rightarrow> hex_encode (sha256 rawCertDER)
      | Some raw \<Rightarrow> hex_encode (sha256 raw))"

text \<open>The emoji as their UTF-8 bytes.\<close>

definition SASVisualEmojis :: "bytes list" where
  "SASVisualEmojis =
    [[0xf0, 0x9f, 0x9b, 0xa1, 0xef, 0xb8, 0x8f],
     [0xe2, 0x9a, 0xa1],
     [0xf0, 0x9f, 0x9a, 0x80],
     [0xf0, 0x9f, 0x94, 0x92],
     [0xf0, 0x9f, 0x94, 0x91],
     [0xf0, 0x9f, 0x90, 0xba],
     [0xf0, 0x9f, 0xa6, 0x85],
     [0xf0, 0x9f, 0x92, 0x8e],
     [0xf0, 0x9f, 0x8e, 0xaf],
     [0xf0, 0x9f, 0x94, 0xa5],
     [0xf0, 0x9f, 0x8c, 0x8a],
     [0xf0, 0x9f, 0x94, 0xae],
     [0xf0, 0x9f, 0x8f, 0x86],
     [0xf0, 0x9f, 0x8c, 0x9f],
     [0xe2, 0x9a, 0x93],
     [0xf0, 0x9f, 0x91, 0x91]]"

definition hex_digit_upper :: "nat \<Rightarrow> char" where
  "hex_digit_upper n = ''0123456789ABCDEF'' ! n"

definition CalculateSAS :: "bytes \<Rightarrow> string \<times> bytes" where
  "CalculateSAS key =
     (let h = sha256 key;
          hexSAS = concat (map (\<lambda>b. [hex_digit_upper (unat b div 16), hex_digit_upper (unat b mod 16)])
                     (PutUint32 (Uint32 (go_slice h 0 4))));
          idx1 = unat (h ! 4) mod length SASVisualEmojis;
          idx2 = unat (h ! 5) mod length SASVisualEmojis;
          idx3 = unat (h ! 6) mod length SASVisualEmojis;
          idx4 = unat (h ! 7) mod length SASVisualEmojis
      in (hexSAS, SASVisualEmojis ! idx1 @ SASVisualEmojis ! idx2 @ SASVisualEmojis ! idx3
                  @ SASVisualEmojis ! idx4))"

section \<open>HKDF and RFC 5869\<close>

text \<open>
  The blocks: \<open>T(0)\<close> is empty, \<open>T(i)\<close> is the HMAC of \<open>T(i-1)\<close>, the info and the octet \<open>i\<close>.
  \<open>hkdf_ref\<close> is what the code computes from a salt in terms of them, the first \<open>len\<close> bytes of
  \<open>T(1) T(2) ...\<close> for every \<open>len\<close>, with an octet that wraps after 255 blocks.
\<close>

fun hkdf_T :: "bytes \<Rightarrow> bytes \<Rightarrow> nat \<Rightarrow> bytes" where
  "hkdf_T prk info 0 = []"
| "hkdf_T prk info (Suc i) = hmac prk (hkdf_T prk info i @ info @ [of_nat (Suc i)])"

definition hkdf_ref :: "bytes \<Rightarrow> bytes \<Rightarrow> bytes \<Rightarrow> nat \<Rightarrow> bytes" where
  "hkdf_ref salt ikm info len =
     take len (concat (map (hkdf_T (hmac salt ikm) info) [1..<Suc ((len + 31) div 32)]))"

lemma length_hkdf_blocks: "length (concat (map (hkdf_T prk info) [Suc 0..<Suc n])) = 32 * n"
  by (induction n) auto

lemma hkdf_expand_blocks:
  "okm = concat (map (hkdf_T prk info) [1..<Suc i]) \<Longrightarrow> i \<le> (len + 31) div 32 \<Longrightarrow>
   hkdf_expand prk info len (of_nat (Suc i)) (hkdf_T prk info i) okm
     = concat (map (hkdf_T prk info) [1..<Suc ((len + 31) div 32)])"
proof (induction "(len + 31) div 32 - i" arbitrary: i okm)
  case 0
  then have i: "i = (len + 31) div 32" by simp
  have "length okm = 32 * i"
    using 0 by (simp only: length_hkdf_blocks One_nat_def)
  then have "\<not> length okm < len" using i by arith
  then show ?case using 0 i by (simp add: hkdf_expand.simps)
next
  case (Suc n)
  have "length okm = 32 * i"
    using Suc.prems by (simp only: length_hkdf_blocks One_nat_def)
  then have len: "length okm < len" using Suc.hyps(2) by arith
  have "hkdf_expand prk info len (of_nat (Suc (Suc i))) (hkdf_T prk info (Suc i))
          (okm @ hkdf_T prk info (Suc i))
      = concat (map (hkdf_T prk info) [1..<Suc ((len + 31) div 32)])"
    by (rule Suc.hyps(1)) (use Suc.prems Suc.hyps(2) in auto)
  with len show ?case
    by (subst hkdf_expand.simps) (simp add: Let_def add.commute [of 1])
qed

lemma hkdf_expand_ref:
  "hkdf_expand prk info len 1 [] [] = concat (map (hkdf_T prk info) [1..<Suc ((len + 31) div 32)])"
  using hkdf_expand_blocks [of "[]" prk info 0 len] by simp

lemma HKDFSHA256_length: "HKDFSHA256 secret salt info len = Inr k \<Longrightarrow> length k = len"
proof -
  have "len \<le> 32 * ((len + 31) div 32)" by arith
  then show "HKDFSHA256 secret salt info len = Inr k \<Longrightarrow> length k = len"
    by (auto simp: HKDFSHA256_def hkdf_expand_ref Let_def length_hkdf_blocks simp del: upt_Suc
        split: if_splits)
qed

lemma HKDFSHA256_ok: "secret \<noteq> [] \<Longrightarrow> \<exists>k. HKDFSHA256 secret salt info len = Inr k \<and> length k = len"
proof -
  assume "secret \<noteq> []"
  then obtain k where "HKDFSHA256 secret salt info len = Inr k"
    by (simp add: HKDFSHA256_def Let_def)
  then show ?thesis using HKDFSHA256_length by blast
qed

lemma HKDFSHA256_ref:
  "secret \<noteq> [] \<Longrightarrow> HKDFSHA256 secret salt info len =
     Inr (hkdf_ref (if salt = [] then bytes_of ''zerofeed-v2-default-salt'' else salt) secret info len)"
  by (simp add: HKDFSHA256_def hkdf_expand_ref hkdf_ref_def Let_def del: upt_Suc)

text \<open>
  HKDF as RFC 5869 has it: a missing salt is a string of \<open>HashLen\<close> zeros, the blocks are numbered by a
  byte from 1, and more than 255 blocks cannot be asked for (\<open>None\<close>).
\<close>

definition rfc5869 :: "bytes \<Rightarrow> bytes \<Rightarrow> bytes \<Rightarrow> nat \<Rightarrow> bytes option" where
  "rfc5869 salt ikm info len =
     (if 255 * 32 < len then None
      else
        let prk = hmac (if salt = [] then replicate 32 0 else salt) ikm;
            n = (len + 31) div 32
        in Some (take len (concat (map (hkdf_T prk info) [1..<Suc n]))))"

lemma rfc5869_eq:
  "salt \<noteq> [] \<Longrightarrow> len \<le> 255 * 32 \<Longrightarrow> rfc5869 salt ikm info len = Some (hkdf_ref salt ikm info len)"
  by (simp add: rfc5869_def hkdf_ref_def Let_def)

text \<open>C20: \<open>HKDFSHA256\<close> against RFC 5869. For a nonempty secret and a length of at most 255 blocks it returns
  exactly what RFC 5869 prescribes for the salt that is given, and for the empty salt what it
  prescribes for the fixed default of the program. The empty secret is refused, and a length the RFC
  excludes is not: the code returns that many bytes.\<close>

theorem HKDFSHA256_against_RFC5869:
  "HKDFSHA256 [] salt info len = Inl ErrEmptySecret
   \<and> (secret \<noteq> [] \<and> salt \<noteq> [] \<and> len \<le> 255 * 32 \<longrightarrow>
        (\<exists>okm. rfc5869 salt secret info len = Some okm \<and> HKDFSHA256 secret salt info len = Inr okm))
   \<and> (secret \<noteq> [] \<and> len \<le> 255 * 32 \<longrightarrow>
        (\<exists>okm. rfc5869 (bytes_of ''zerofeed-v2-default-salt'') secret info len = Some okm
           \<and> HKDFSHA256 secret [] info len = Inr okm))
   \<and> (secret \<noteq> [] \<and> 255 * 32 < len \<longrightarrow>
        rfc5869 salt secret info len = None
        \<and> (\<exists>okm. HKDFSHA256 secret salt info len = Inr okm \<and> length okm = len))"
proof -
  have "bytes_of ''zerofeed-v2-default-salt'' \<noteq> []" by (simp add: bytes_of_def)
  note eq = rfc5869_eq [OF this] rfc5869_eq
  have "255 * 32 < len \<Longrightarrow> rfc5869 salt secret info len = None" by (simp add: rfc5869_def)
  then show ?thesis
    using HKDFSHA256_ok [of secret salt info len]
    by (simp add: eq HKDFSHA256_ref HKDFSHA256_def [of "[]"] del: upt_Suc)
qed

theorem HKDFSHA256_against_RFC5869_witness:
  "(\<exists>okm. rfc5869 [7] [1, 2] [] 64 = Some okm \<and> HKDFSHA256 [1, 2] [7] [] 64 = Inr okm)
   \<and> (\<exists>okm. rfc5869 (bytes_of ''zerofeed-v2-default-salt'') [1, 2] [] 64 = Some okm
        \<and> HKDFSHA256 [1, 2] [] [] 64 = Inr okm)
   \<and> rfc5869 [7] [1, 2] [] 8161 = None
   \<and> (\<exists>okm. HKDFSHA256 [1, 2] [7] [] 8161 = Inr okm \<and> length okm = 8161)"
  using HKDFSHA256_against_RFC5869 [of "[7]" "[]" 64 "[1, 2]"]
    HKDFSHA256_against_RFC5869 [of "[7]" "[]" 8161 "[1, 2]"] by simp

lemma RatchetKey_ok: "k \<noteq> [] \<Longrightarrow> \<exists>k'. RatchetKey k salt = Inr k' \<and> length k' = 32"
  using HKDFSHA256_ok by (simp add: RatchetKey_def KeySize_def)

lemma RatchetKey_length: "RatchetKey k salt = Inr k' \<Longrightarrow> length k' = 32"
  unfolding RatchetKey_def KeySize_def by (rule HKDFSHA256_length)

lemma DeriveKey_ok: "s \<noteq> [] \<Longrightarrow> \<exists>k. DeriveKey s sid = Inr k \<and> length k = 32"
  using HKDFSHA256_ok by (simp add: DeriveKey_def KeySize_def)

section \<open>Nonces\<close>

lemma ConstructNonceRFC5116_eq:
  "length salt = 4 \<Longrightarrow> ConstructNonceRFC5116 salt n = salt @ PutUint64 n"
  by (simp add: ConstructNonceRFC5116_def go_copy_def Let_def crypto_NonceSize_def)

lemma GenerateNonce_length: "GenerateNonce rnd = Inr n \<Longrightarrow> length n = 12"
  by (auto simp: GenerateNonce_def crypto_NonceSize_def split: option.splits)

section \<open>The cipher object\<close>

lemma go_copy_whole: "length k = n \<Longrightarrow> go_copy (replicate n x) 0 n k = k"
  by (simp add: go_copy_def)

text \<open>The states of a cipher that the operations reach: keyed with one 32-byte key, or closed.\<close>

definition keyed :: "bytes \<Rightarrow> cipher" where
  "keyed k = \<lparr>ci_aead = Some k, ci_key = Some k\<rparr>"

definition closed_cipher :: cipher where
  "closed_cipher = \<lparr>ci_aead = None, ci_key = None\<rparr>"

lemma keyed_sel [simp]: "ci_aead (keyed k) = Some k" "ci_key (keyed k) = Some k"
  by (simp_all add: keyed_def)

lemma NewCipher_eq: "NewCipher k = (if length k = 32 then Inr (keyed k) else Inl ErrInvalidKeySize)"
  by (simp add: NewCipher_def KeySize_def go_copy_whole keyed_def)

lemma UpdateKey_eq: "UpdateKey c k = (if length k = 32 then Inr (keyed k) else Inl ErrInvalidKeySize)"
  by (cases c) (simp add: UpdateKey_def KeySize_def go_copy_whole keyed_def)

lemma GetKey_keyed: "length k = 32 \<Longrightarrow> GetKey (keyed k) = Some k"
  by (simp add: GetKey_def KeySize_def go_copy_whole)

lemma Encrypt_keyed:
  "length n = 12 \<Longrightarrow> Encrypt (keyed k) rnd p (Some n) aad = Inr (gcm_seal k n p aad, n)"
  by (simp add: Encrypt_def crypto_NonceSize_def)

lemma Decrypt_seal:
  "length n = 12 \<Longrightarrow> Decrypt (keyed k) (gcm_seal k n p aad) n aad = Inr p"
  by (simp add: Decrypt_def crypto_NonceSize_def gcm.unseal_seal)

lemma Encrypt_nonce_length: "Encrypt c rnd p nonce aad = Inr (ct, n) \<Longrightarrow> length n = 12"
  by (auto simp: Encrypt_def crypto_NonceSize_def GenerateNonce_length split: option.splits sum.splits if_splits)

text \<open>C19: \<open>Decrypt\<close> accepts a ciphertext exactly when the cipher is open, the nonce has 12
  bytes, and the ciphertext is the one \<open>Encrypt\<close> produces for the returned plaintext with that
  nonce and that associated data; it never returns another plaintext.\<close>

theorem Decrypt_iff_Encrypt:
  "Decrypt c ct n aad = Inr p \<longleftrightarrow> Encrypt c rnd p (Some n) aad = Inr (ct, n)"
  by (auto simp: Decrypt_def Encrypt_def gcm.unseal_iff gcm.unseal_seal gcm.seal_inj
      split: option.splits)

subsection \<open>The life cycle\<close>

datatype cipher_op = CUpdateKey bytes | CClose

fun cipher_step :: "cipher_op \<Rightarrow> cipher \<Rightarrow> cipher" where
  "cipher_step (CUpdateKey k) c = (case UpdateKey c k of Inl e \<Rightarrow> c | Inr c' \<Rightarrow> c')"
| "cipher_step CClose c = Cipher_Close c"

definition cipher_inv :: "cipher \<Rightarrow> bool" where
  "cipher_inv c \<longleftrightarrow> ci_aead c = ci_key c \<and> (\<forall>k. ci_key c = Some k \<longrightarrow> length k = 32)"

lemma cipher_step_inv: "cipher_inv c \<Longrightarrow> cipher_inv (cipher_step e c)"
  by (cases e) (auto simp: cipher_inv_def UpdateKey_eq Cipher_Close_def)

lemma NewCipher_inv: "NewCipher k = Inr c \<Longrightarrow> cipher_inv c"
  by (auto simp: NewCipher_eq cipher_inv_def split: if_splits)

interpretation cipherm: safe_machine cipher_step cipher_inv
  by unfold_locales (rule cipher_step_inv)

lemma GetKey_inv: "cipher_inv c \<Longrightarrow> GetKey c = ci_aead c"
  by (auto simp: cipher_inv_def GetKey_def KeySize_def go_copy_whole split: option.splits)

text \<open>Through any sequence of key updates and closes, what the cipher encrypts decrypts under a
  cipher newly built from the key \<open>GetKey\<close> returns; when \<open>GetKey\<close> returns nil, encryption is
  refused as closed. The stored key and the key in use never diverge.\<close>

lemma cipher_key_in_use:
  assumes "NewCipher k = Inr c0" and "length n = 12"
  shows "case GetKey (fold cipher_step ops c0) of
           None \<Rightarrow> Encrypt (fold cipher_step ops c0) rnd p (Some n) aad = Inl ErrCipherClosed
         | Some k' \<Rightarrow> \<exists>ct c'. Encrypt (fold cipher_step ops c0) rnd p (Some n) aad = Inr (ct, n)
             \<and> NewCipher k' = Inr c' \<and> Decrypt c' ct n aad = Inr p"
proof -
  let ?c = "fold cipher_step ops c0"
  have inv: "cipher_inv ?c"
    by (rule cipherm.run_inv) (rule NewCipher_inv [OF assms(1)])
  then show ?thesis
    using assms(2) by (auto simp: GetKey_inv Encrypt_def crypto_NonceSize_def NewCipher_eq Decrypt_def
        gcm.unseal_seal cipher_inv_def split: option.splits)
qed

section \<open>Key wrapping\<close>

lemma WrapSessionKey_eq:
  "length p2p = 32 \<Longrightarrow> GenerateNonce rnd = Inr n \<Longrightarrow>
   WrapSessionKey rnd p2p m = Inr (n @ gcm_seal p2p n m wrapAAD)"
  by (simp add: WrapSessionKey_def NewCipher_eq Encrypt_def Let_def go_copy_def)

lemma UnwrapSessionKey_eq:
  "length n = 12 \<Longrightarrow> length ct = 48 \<Longrightarrow>
   UnwrapSessionKey p2p (n @ ct @ r) =
     (if length p2p \<noteq> 32 then Inl ErrInvalidKeySize
      else case gcm_open p2p n ct wrapAAD of None \<Rightarrow> Inl ErrDecryptionFailed | Some m \<Rightarrow> Inr m)"
  by (auto simp: UnwrapSessionKey_def crypto_NonceSize_def NewCipher_eq Decrypt_def Let_def)

text \<open>A 32-byte session key wrapped under a 32-byte pairwise key is 60 bytes long and unwraps to
  itself under the same pairwise key, also when more bytes follow it in the payload.\<close>

lemma Wrap_Unwrap_roundtrip:
  assumes "length p2p = 32" and "length m = 32" and "WrapSessionKey rnd p2p m = Inr w"
  shows "length w = 60 \<and> UnwrapSessionKey p2p (w @ r) = Inr m"
proof -
  obtain n where n: "GenerateNonce rnd = Inr n"
    using assms(1,3) by (auto simp: WrapSessionKey_def NewCipher_eq Encrypt_def split: sum.splits)
  then have w: "w = n @ gcm_seal p2p n m wrapAAD" and len: "length n = 12"
    using assms(1,3) by (auto simp: WrapSessionKey_eq GenerateNonce_length)
  moreover have "length (gcm_seal p2p n m wrapAAD) = 48"
    by (simp add: gcm.length_seal assms(2))
  ultimately show ?thesis
    by (simp add: UnwrapSessionKey_eq assms(1) gcm.unseal_seal)
qed

text \<open>The nonces of a session (one 4-byte salt, a 64-bit sequence number) are 12 bytes long and
  differ whenever salt or sequence number differ.\<close>

lemma ConstructNonce_unique:
  assumes "length s = 4" and "length s' = 4"
  shows "length (ConstructNonceRFC5116 s n) = 12
       \<and> (ConstructNonceRFC5116 s n = ConstructNonceRFC5116 s' n' \<longleftrightarrow> s = s' \<and> n = n')"
  using assms by (simp add: ConstructNonceRFC5116_eq u64be.put_inj)

lemma CalculateSAS_shape:
  "length (fst (CalculateSAS key)) = 8"
  by (simp add: CalculateSAS_def Let_def length_concat sum_list_triv comp_def)

end
