(* ===== verification/Pake.thy ===== *)
theory Pake
  imports Cipher
begin

text \<open>
  \<open>pkg/crypto/pake.go\<close>: the password-authenticated key exchange, X25519 combined with
  ML-KEM-768 and an Argon2id key of the passphrase. The three primitives are outside the
  sources and are fields of the parameter \<open>prims\<close>; \<open>prims_ok\<close> states what their documentation
  promises and the exchange relies on.
\<close>

section \<open>Primitives\<close>

text \<open>
  Private keys are the random bytes they are generated from.

  \<^item> \<open>x_pub a\<close>: \<open>PublicKey().Bytes()\<close> of the X25519 private key \<open>a\<close>;
  \<^item> \<open>x_dh a p\<close>: \<open>ECDH\<close> of the private key \<open>a\<close> with the public key \<open>p\<close> (\<open>None\<close>: the result is the
    all-zero value and the call fails);
  \<^item> \<open>kem_ek d\<close>: \<open>EncapsulationKey().Bytes()\<close> of the decapsulation key \<open>d\<close>;
  \<^item> \<open>kem_valid ek\<close>: \<open>mlkem.NewEncapsulationKey768\<close> accepts \<open>ek\<close>;
  \<^item> \<open>kem_encaps ek r\<close>: \<open>Encapsulate()\<close> with internal randomness \<open>r\<close>, shared secret and ciphertext;
  \<^item> \<open>kem_decaps d ct\<close>: \<open>Decapsulate\<close> (on a ciphertext of 1088 bytes it never fails);
  \<^item> \<open>argon2_IDKey pw salt\<close>: \<open>argon2.IDKey(pw, salt, 1, 64*1024, 1, KeySize)\<close>.
\<close>

record prims =
  x_pub :: "bytes \<Rightarrow> bytes"
  x_dh :: "bytes \<Rightarrow> bytes \<Rightarrow> bytes option"
  kem_ek :: "bytes \<Rightarrow> bytes"
  kem_valid :: "bytes \<Rightarrow> bool"
  kem_encaps :: "bytes \<Rightarrow> bytes \<Rightarrow> bytes \<times> bytes"
  kem_decaps :: "bytes \<Rightarrow> bytes \<Rightarrow> bytes"
  argon2_IDKey :: "bytes \<Rightarrow> bytes \<Rightarrow> bytes"

definition prims_ok :: "prims \<Rightarrow> bool" where
  "prims_ok P \<longleftrightarrow>
     (\<forall>a. length (x_pub P a) = 32) \<and>
     (\<forall>a b. x_dh P a (x_pub P b) = x_dh P b (x_pub P a)) \<and>
     (\<forall>a p s. x_dh P a p = Some s \<longrightarrow> length s = 32) \<and>
     (\<forall>d. length (kem_ek P d) = 1184 \<and> kem_valid P (kem_ek P d)) \<and>
     (\<forall>d r. length (snd (kem_encaps P (kem_ek P d) r)) = 1088 \<and>
            kem_decaps P d (snd (kem_encaps P (kem_ek P d) r)) = fst (kem_encaps P (kem_ek P d) r))"

lemma prims_okD:
  assumes "prims_ok P"
  shows "length (x_pub P a) = 32" "x_dh P a (x_pub P b) = x_dh P b (x_pub P a)"
    "x_dh P a p = Some s \<Longrightarrow> length s = 32" "length (kem_ek P d) = 1184" "kem_valid P (kem_ek P d)"
    "kem_encaps P (kem_ek P d) r = (m, ct) \<Longrightarrow> length ct = 1088"
    "kem_encaps P (kem_ek P d) r = (m, ct) \<Longrightarrow> kem_decaps P d ct = m"
  using assms unfolding prims_ok_def by (blast, blast, blast, blast, blast, metis snd_conv, metis fst_conv snd_conv)

section \<open>The peer\<close>

definition UniformWireMsgSize :: nat where "UniformWireMsgSize = 1280"

record pakepeer =
  pk_privKey :: bytes
  pk_mlkemDecap :: "bytes option"
  pk_pubBytes :: "bytes option"
  pk_role :: int
  pk_sharedKey :: "bytes option"
  pk_macTag :: "bytes option"
  pk_passphrase :: "bytes option"

text \<open>
  The padded wire message: the raw part first, the rest random (\<open>pad\<close> is what the random source
  delivers for it). \<open>None\<close>: the random source fails.
\<close>

definition pad_wire :: "bytes \<Rightarrow> bytes option \<Rightarrow> bytes option" where
  "pad_wire pubRaw pad =
     (case pad of None \<Rightarrow> None
      | Some noise \<Rightarrow>
          let pubPadded = replicate UniformWireMsgSize 0;
              pubPadded = go_copy pubPadded (length pubRaw) UniformWireMsgSize noise
          in Some (go_copy pubPadded 0 UniformWireMsgSize pubRaw))"

text \<open>The random draws of a peer, in order: X25519 key, ML-KEM key, padding.\<close>

record pake_rnd =
  pr_x :: "bytes option"
  pr_kem :: "bytes option"
  pr_pad :: "bytes option"

definition newPAKEPeer :: "prims \<Rightarrow> pake_rnd \<Rightarrow> bytes \<Rightarrow> int \<Rightarrow> crypto_err + pakepeer" where
  "newPAKEPeer P rnd passphrase role =
     (if length passphrase = 0 then Inl ErrEmptySecret
      else case pr_x rnd of None \<Rightarrow> Inl ErrRandom
      | Some privKey \<Rightarrow>
          let pubRawX25519 = x_pub P privKey;
              passCopy = go_copy (replicate (length passphrase) 0) 0 (length passphrase) passphrase;
              peer = \<lparr>pk_privKey = privKey, pk_mlkemDecap = None, pk_pubBytes = None, pk_role = role,
                      pk_sharedKey = None, pk_macTag = None, pk_passphrase = Some passCopy\<rparr>
          in if role = 2 then
               (case pr_kem rnd of None \<Rightarrow> Inl ErrRandom
                | Some decapKey \<Rightarrow>
                    (case pad_wire (pubRawX25519 @ kem_ek P decapKey) (pr_pad rnd) of
                       None \<Rightarrow> Inl ErrRandom
                     | Some pubPadded \<Rightarrow>
                         Inr (peer\<lparr>pk_mlkemDecap := Some decapKey, pk_pubBytes := Some pubPadded\<rparr>)))
             else Inr peer)"

definition NewPAKEPublisher :: "prims \<Rightarrow> pake_rnd \<Rightarrow> bytes \<Rightarrow> crypto_err + pakepeer" where
  "NewPAKEPublisher P rnd passphrase = newPAKEPeer P rnd passphrase 1"

definition NewPAKESubscriber :: "prims \<Rightarrow> pake_rnd \<Rightarrow> bytes \<Rightarrow> crypto_err + pakepeer" where
  "NewPAKESubscriber P rnd passphrase = newPAKEPeer P rnd passphrase 2"

text \<open>The methods that accept a nil receiver take an option.\<close>

definition Bytes :: "pakepeer option \<Rightarrow> bytes option" where
  "Bytes p = (case p of None \<Rightarrow> None | Some p \<Rightarrow> pk_pubBytes p)"

definition DeriveMasterKeyArgon2 :: "prims \<Rightarrow> bytes \<Rightarrow> bytes" where
  "DeriveMasterKeyArgon2 P passphrase =
     argon2_IDKey P passphrase (sha256 (bytes_of ''zerofeed-v3-argon2id-static-context:'' @ passphrase))"

definition DeriveBlindMatchTag :: "bytes \<Rightarrow> bytes" where
  "DeriveBlindMatchTag argon2Key =
     go_copy (replicate 32 0) 0 32 (hmac argon2Key (bytes_of ''zerofeed-relay-blind-match-tag-v3''))"

text \<open>The last part of \<open>Update\<close>: both shared secrets and the passphrase give the master key.\<close>

definition pake_finish :: "prims \<Rightarrow> pakepeer \<Rightarrow> bytes \<Rightarrow> bytes \<Rightarrow> (crypto_err + unit) \<times> pakepeer" where
  "pake_finish P p sharedX25519 sharedMLKEM =
     (let combinedSecret = sharedX25519 @ sharedMLKEM;
          argon2Key = DeriveMasterKeyArgon2 P (case pk_passphrase p of None \<Rightarrow> [] | Some w \<Rightarrow> w)
      in case HKDFSHA256 combinedSecret argon2Key (bytes_of ''zerofeed-v3-pake-master-secret'') KeySize of
           Inl e \<Rightarrow> (Inl e, p)
         | Inr masterKey \<Rightarrow>
             (Inr (), p\<lparr>pk_sharedKey := Some masterKey,
                        pk_macTag := Some (hmac masterKey (bytes_of ''zerofeed-v3-pake-handshake-auth''
                                            @ [of_int (pk_role p)]))\<rparr>))"

text \<open>
  \<open>Update\<close>; \<open>enc\<close> is the randomness of the encapsulation and \<open>pad\<close> that of the padding (both used
  by the publisher only). The public key constructor accepts every 32-byte value.
\<close>

definition Update ::
    "prims \<Rightarrow> bytes \<Rightarrow> bytes option \<Rightarrow> pakepeer \<Rightarrow> bytes \<Rightarrow> (crypto_err + unit) \<times> pakepeer" where
  "Update P enc pad p peerBytes =
     (if length peerBytes \<noteq> UniformWireMsgSize then (Inl ErrInvalidPeerMsg, p)
      else
        let peerX25519Raw = take 32 peerBytes in
        case x_dh P (pk_privKey p) peerX25519Raw of
          None \<Rightarrow> (Inl ErrPAKEFailed, p)
        | Some sharedX25519 \<Rightarrow>
            if pk_role p = 1 then
              let peerMLKEMKeyRaw = go_slice peerBytes 32 (32 + 1184) in
              if \<not> kem_valid P peerMLKEMKeyRaw then (Inl ErrPAKEFailed, p)
              else
                let (sharedMLKEM, ciphertext) = kem_encaps P peerMLKEMKeyRaw enc;
                    pubRaw = x_pub P (pk_privKey p) @ ciphertext
                in (case pad_wire pubRaw pad of
                      None \<Rightarrow> (Inl ErrRandom, p)
                    | Some pubPadded \<Rightarrow>
                        pake_finish P (p\<lparr>pk_pubBytes := Some pubPadded\<rparr>) sharedX25519 sharedMLKEM)
            else
              let peerMLKEMCiphertext = go_slice peerBytes 32 (32 + 1088) in
              (case pk_mlkemDecap p of
                 None \<Rightarrow> (Inl ErrPAKEFailed, p)
               | Some d \<Rightarrow> pake_finish P p sharedX25519 (kem_decaps P d peerMLKEMCiphertext)))"

definition confirm_mac :: "bytes \<Rightarrow> int \<Rightarrow> bytes" where
  "confirm_mac key role = hmac key (bytes_of ''zerofeed-v3-pake-key-confirmation-v1'' @ [of_int role])"

definition ConfirmTag :: "pakepeer option \<Rightarrow> crypto_err + bytes" where
  "ConfirmTag p =
     (case p of None \<Rightarrow> Inl ErrPAKEFailed
      | Some p \<Rightarrow> (case pk_sharedKey p of None \<Rightarrow> Inl ErrPAKEFailed
                  | Some key \<Rightarrow> Inr (confirm_mac key (pk_role p))))"

definition VerifyPeerConfirm :: "pakepeer option \<Rightarrow> bytes \<Rightarrow> crypto_err + unit" where
  "VerifyPeerConfirm p peerTag =
     (case p of None \<Rightarrow> Inl ErrPAKEFailed
      | Some p \<Rightarrow>
          (case pk_sharedKey p of None \<Rightarrow> Inl ErrPAKEFailed
           | Some key \<Rightarrow>
               if length peerTag = 0 then Inl ErrPAKEFailed
               else if peerTag \<noteq> confirm_mac key (3 - pk_role p) then Inl ErrPAKEFailed
               else Inr ()))"

definition SessionKey :: "pakepeer \<Rightarrow> crypto_err + bytes" where
  "SessionKey p =
     (case pk_sharedKey p of None \<Rightarrow> Inl ErrPAKEFailed
      | Some k \<Rightarrow> Inr (go_copy (replicate (length k) 0) 0 (length k) k))"

definition PAKE_Close :: "pakepeer \<Rightarrow> pakepeer" where
  "PAKE_Close p = p\<lparr>pk_sharedKey := None, pk_pubBytes := None, pk_passphrase := None,
                    pk_macTag := None, pk_mlkemDecap := None\<rparr>"

section \<open>Agreement\<close>

lemma pad_wire_Some:
  "length raw \<le> 1280 \<Longrightarrow>
   \<exists>noise'. pad_wire raw (Some noise) = Some (raw @ noise') \<and> length (raw @ noise') = 1280"
  by (simp add: pad_wire_def UniformWireMsgSize_def go_copy_def Let_def)

lemma pad_wire_length: "length raw \<le> 1280 \<Longrightarrow> pad_wire raw pad = Some w \<Longrightarrow> length w = 1280"
  by (auto simp: pad_wire_def UniformWireMsgSize_def Let_def split: option.splits)

text \<open>The master key both sides are to derive from the shared secrets and a passphrase.\<close>

definition pake_master :: "prims \<Rightarrow> bytes \<Rightarrow> bytes \<Rightarrow> bytes \<Rightarrow> bytes" where
  "pake_master P pw x m =
     hkdf_ref (let k = DeriveMasterKeyArgon2 P pw in
               if k = [] then bytes_of ''zerofeed-v2-default-salt'' else k)
       (x @ m) (bytes_of ''zerofeed-v3-pake-master-secret'') 32"

lemma pake_finish_eq:
  assumes "x \<noteq> []" and "pk_passphrase p = Some pw"
  shows "pake_finish P p x m =
     (Inr (), p\<lparr>pk_sharedKey := Some (pake_master P pw x m),
                pk_macTag := Some (hmac (pake_master P pw x m)
                  (bytes_of ''zerofeed-v3-pake-handshake-auth'' @ [of_int (pk_role p)]))\<rparr>)"
  using assms by (simp add: pake_finish_def HKDFSHA256_ref pake_master_def Let_def KeySize_def)

lemma length_pake_master: "x \<noteq> [] \<Longrightarrow> length (pake_master P pw x m) = 32"
  using HKDFSHA256_length [OF HKDFSHA256_ref] by (auto simp: pake_master_def Let_def)

lemma newPAKEPeer_pub:
  "pw \<noteq> [] \<Longrightarrow> pr_x r = Some a \<Longrightarrow>
   NewPAKEPublisher P r pw = Inr \<lparr>pk_privKey = a, pk_mlkemDecap = None, pk_pubBytes = None, pk_role = 1,
      pk_sharedKey = None, pk_macTag = None, pk_passphrase = Some pw\<rparr>"
  by (simp add: NewPAKEPublisher_def newPAKEPeer_def go_copy_whole)

lemma newPAKEPeer_sub:
  assumes "pw \<noteq> []" "pr_x r = Some b" "pr_kem r = Some d" "pr_pad r = Some noise" "prims_ok P"
  shows "\<exists>noise'. length (x_pub P b @ kem_ek P d @ noise') = 1280 \<and>
     NewPAKESubscriber P r pw = Inr \<lparr>pk_privKey = b, pk_mlkemDecap = Some d,
       pk_pubBytes = Some (x_pub P b @ kem_ek P d @ noise'), pk_role = 2,
       pk_sharedKey = None, pk_macTag = None, pk_passphrase = Some pw\<rparr>"
proof -
  have "length (x_pub P b @ kem_ek P d) \<le> 1280"
    using assms(5) by (simp add: prims_ok_def)
  from pad_wire_Some [OF this, of noise] show ?thesis
    using assms by (auto simp: NewPAKESubscriber_def newPAKEPeer_def go_copy_whole)
qed

text \<open>The publisher's \<open>Update\<close> on a subscriber's message, and the subscriber's on the reply.\<close>

lemma Update_pub:
  assumes ok: "prims_ok P" and role: "pk_role p = 1" "pk_passphrase p = Some pw"
    and len: "length (x_pub P b @ kem_ek P d @ n') = 1280"
    and dh: "x_dh P (pk_privKey p) (x_pub P b) = Some s"
    and enc: "kem_encaps P (kem_ek P d) enc = (ms, ct)"
  shows "\<exists>n'' mac. length (x_pub P (pk_privKey p) @ ct @ n'') = 1280 \<and>
     Update P enc (Some noise) p (x_pub P b @ kem_ek P d @ n') =
       (Inr (), p\<lparr>pk_pubBytes := Some (x_pub P (pk_privKey p) @ ct @ n''),
                  pk_sharedKey := Some (pake_master P pw s ms), pk_macTag := Some mac\<rparr>)"
proof -
  have 1: "take 32 (x_pub P b @ kem_ek P d @ n') = x_pub P b"
    and 2: "go_slice (x_pub P b @ kem_ek P d @ n') 32 1216 = kem_ek P d"
    by (simp_all add: go_slice_def prims_okD [OF ok])
  have s: "s \<noteq> []" using prims_okD(3) [OF ok dh] by auto
  have "length (x_pub P (pk_privKey p) @ ct) \<le> 1280"
    by (simp add: prims_okD [OF ok] prims_okD(6) [OF ok enc])
  from pad_wire_Some [OF this, of noise] obtain n'' where
    "pad_wire (x_pub P (pk_privKey p) @ ct) (Some noise) = Some (x_pub P (pk_privKey p) @ ct @ n'')"
    "length (x_pub P (pk_privKey p) @ ct @ n'') = 1280" by auto
  then show ?thesis
    using assms 1 2 s prims_okD(5) [OF ok]
    by (auto simp: Update_def UniformWireMsgSize_def pake_finish_eq Let_def simp del: length_append)
qed

lemma Update_sub:
  assumes ok: "prims_ok P" and role: "pk_role p = 2" "pk_passphrase p = Some pw" "pk_mlkemDecap p = Some d"
    and len: "length (x_pub P a @ ct @ n') = 1280"
    and dh: "x_dh P (pk_privKey p) (x_pub P a) = Some s"
    and enc: "kem_encaps P (kem_ek P d) enc = (ms, ct)"
  shows "\<exists>mac. Update P enc' pad p (x_pub P a @ ct @ n') =
       (Inr (), p\<lparr>pk_sharedKey := Some (pake_master P pw s ms), pk_macTag := Some mac\<rparr>)"
proof -
  have 1: "take 32 (x_pub P a @ ct @ n') = x_pub P a"
    and 2: "go_slice (x_pub P a @ ct @ n') 32 1120 = ct"
    by (simp_all add: go_slice_def prims_okD [OF ok] prims_okD(6) [OF ok enc])
  have s: "s \<noteq> []" using prims_okD(3) [OF ok dh] by auto
  show ?thesis
    using assms 1 2 s prims_okD(7) [OF ok enc]
    by (auto simp: Update_def UniformWireMsgSize_def pake_finish_eq Let_def simp del: length_append)
qed

text \<open>
  A run of the exchange, in the order the handshake has it: the subscriber's message to the
  publisher, the publisher's reply to the subscriber.
\<close>

definition pake_run :: "prims \<Rightarrow> bytes \<Rightarrow> bytes option \<Rightarrow> pakepeer \<Rightarrow> pakepeer \<Rightarrow> (pakepeer \<times> pakepeer) option" where
  "pake_run P enc pad pub sub =
     (case Bytes (Some sub) of None \<Rightarrow> None
      | Some w1 \<Rightarrow>
          (case Update P enc pad pub w1 of
             (Inl e, _) \<Rightarrow> None
           | (Inr _, pub') \<Rightarrow>
               (case Bytes (Some pub') of None \<Rightarrow> None
                | Some w2 \<Rightarrow>
                    (case Update P [] None sub w2 of
                       (Inl e, _) \<Rightarrow> None
                     | (Inr _, sub') \<Rightarrow> Some (pub', sub')))))"

lemma pake_run_keys:
  assumes ok: "prims_ok P" and "pw \<noteq> []" "pw' \<noteq> []"
    and rnd: "pr_x rp = Some a" "pr_x rs = Some b" "pr_kem rs = Some d" "pr_pad rs = Some n1"
    and dh: "x_dh P a (x_pub P b) = Some s"
    and pub: "NewPAKEPublisher P rp pw = Inr pub" and sub: "NewPAKESubscriber P rs pw' = Inr sub"
  shows "\<exists>ms pub' sub' w1 w2. pake_run P enc (Some n2) pub sub = Some (pub', sub')
     \<and> Bytes (Some sub) = Some w1 \<and> length w1 = 1280 \<and> Bytes (Some pub') = Some w2 \<and> length w2 = 1280
     \<and> pk_sharedKey pub' = Some (pake_master P pw s ms) \<and> pk_role pub' = 1
     \<and> pk_sharedKey sub' = Some (pake_master P pw' s ms) \<and> pk_role sub' = 2"
proof -
  obtain ms ct where enc: "kem_encaps P (kem_ek P d) enc = (ms, ct)" by fastforce
  have p: "pk_role pub = 1" "pk_passphrase pub = Some pw" "pk_privKey pub = a"
    using pub newPAKEPeer_pub [OF assms(2) rnd(1)] by auto
  obtain n' where s: "length (x_pub P b @ kem_ek P d @ n') = 1280"
      "pk_pubBytes sub = Some (x_pub P b @ kem_ek P d @ n')"
      "pk_role sub = 2" "pk_passphrase sub = Some pw'" "pk_mlkemDecap sub = Some d" "pk_privKey sub = b"
    using sub newPAKEPeer_sub [OF assms(3) rnd(2-4) ok] by fastforce
  obtain n'' mac where u: "length (x_pub P a @ ct @ n'') = 1280"
    "Update P enc (Some n2) pub (x_pub P b @ kem_ek P d @ n') =
       (Inr (), pub\<lparr>pk_pubBytes := Some (x_pub P a @ ct @ n''),
                  pk_sharedKey := Some (pake_master P pw s ms), pk_macTag := Some mac\<rparr>)"
    using Update_pub [OF ok p(1,2) s(1) _ enc] p(3) dh by blast
  have dh': "x_dh P (pk_privKey sub) (x_pub P a) = Some s"
    using dh s(6) prims_okD(2) [OF ok, of a b] by simp
  obtain mac' where v: "Update P [] None sub (x_pub P a @ ct @ n'') =
       (Inr (), sub\<lparr>pk_sharedKey := Some (pake_master P pw' s ms), pk_macTag := Some mac'\<rparr>)"
    using Update_sub [OF ok s(3-5) u(1) dh' enc, of "[]" None] by blast
  show ?thesis
    by (intro exI [where x = ms]) (simp add: pake_run_def Bytes_def s(2) u v p s(3) s(1) del: length_append)
qed

text \<open>Primitives that satisfy the contract, for the witnesses.\<close>

definition fit :: "nat \<Rightarrow> bytes \<Rightarrow> bytes" where
  "fit n b = take n (b @ replicate n 0)"

lemma length_fit [simp]: "length (fit n b) = n"
  by (simp add: fit_def)

definition sample_prims :: prims where
  "sample_prims = \<lparr>x_pub = fit 32, x_dh = (\<lambda>a p. Some (fit 32 (map2 (XOR) (fit 32 a) p))),
     kem_ek = fit 1184, kem_valid = (\<lambda>ek. length ek = 1184),
     kem_encaps = (\<lambda>ek r. (take 32 ek, fit 1088 r)), kem_decaps = (\<lambda>d ct. take 32 (fit 1184 d)),
     argon2_IDKey = (\<lambda>pw salt. fit 32 (pw @ salt))\<rparr>"

lemma map2_xor_commute: "map2 (XOR) a b = map2 (XOR) b (a :: bytes)"
  by (induction a b rule: list_induct2') (auto simp: xor.commute)

lemma sample_prims_ok: "prims_ok sample_prims"
  by (auto simp: prims_ok_def sample_prims_def map2_xor_commute)

definition sample_rnd :: pake_rnd where
  "sample_rnd = \<lparr>pr_x = Some [1, 2], pr_kem = Some [3], pr_pad = Some [4]\<rparr>"

lemma sample_dh: "x_dh sample_prims a p = Some (fit 32 (map2 (XOR) (fit 32 a) p))"
  by (simp add: sample_prims_def)

text \<open>Two peers that hold the same passphrase complete the exchange with 1280-byte messages,
  derive the same 32-byte session key, and each accepts the other's key confirmation tag. The
  hypotheses are that the random source delivers and that the X25519 result is not the all-zero
  value.\<close>

lemma PAKE_agreement:
  assumes "prims_ok P" and "pw \<noteq> []"
    and "pr_x rp = Some a" "pr_x rs = Some b" "pr_kem rs = Some d" "pr_pad rs = Some n1"
    and "x_dh P a (x_pub P b) = Some s"
  shows "\<exists>pub sub pub' sub' w1 w2 k t1 t2.
     NewPAKEPublisher P rp pw = Inr pub \<and> NewPAKESubscriber P rs pw = Inr sub
     \<and> pake_run P enc (Some n2) pub sub = Some (pub', sub')
     \<and> Bytes (Some sub) = Some w1 \<and> length w1 = 1280 \<and> Bytes (Some pub') = Some w2 \<and> length w2 = 1280
     \<and> SessionKey pub' = Inr k \<and> SessionKey sub' = Inr k \<and> length k = 32
     \<and> ConfirmTag (Some pub') = Inr t1 \<and> VerifyPeerConfirm (Some sub') t1 = Inr ()
     \<and> ConfirmTag (Some sub') = Inr t2 \<and> VerifyPeerConfirm (Some pub') t2 = Inr ()"
proof -
  obtain pub where pub: "NewPAKEPublisher P rp pw = Inr pub"
    using newPAKEPeer_pub assms(2,3) by blast
  obtain sub where sub: "NewPAKESubscriber P rs pw = Inr sub"
    using newPAKEPeer_sub [OF assms(2,4-6,1)] by blast
  obtain ms pub' sub' w1 w2 where r: "pake_run P enc (Some n2) pub sub = Some (pub', sub')"
     "Bytes (Some sub) = Some w1" "length w1 = 1280" "Bytes (Some pub') = Some w2" "length w2 = 1280"
     "pk_sharedKey pub' = Some (pake_master P pw s ms)" "pk_role pub' = 1"
     "pk_sharedKey sub' = Some (pake_master P pw s ms)" "pk_role sub' = 2"
    using pake_run_keys [OF assms(1,2,2,3-7) pub sub] by blast
  have "s \<noteq> []" using prims_okD(3) [OF assms(1,7)] by auto
  then have "length (pake_master P pw s ms) = 32" by (rule length_pake_master)
  then show ?thesis
    using pub sub r by (auto simp: SessionKey_def ConfirmTag_def VerifyPeerConfirm_def go_copy_whole
        confirm_mac_def)
qed



text \<open>After \<open>Close\<close> every operation that needs a secret fails; the X25519 private key stays.\<close>

lemma PAKE_Close_scrubs:
  "SessionKey (PAKE_Close p) = Inl ErrPAKEFailed \<and> ConfirmTag (Some (PAKE_Close p)) = Inl ErrPAKEFailed
   \<and> VerifyPeerConfirm (Some (PAKE_Close p)) t = Inl ErrPAKEFailed \<and> Bytes (Some (PAKE_Close p)) = None
   \<and> pk_privKey (PAKE_Close p) = pk_privKey p"
  by (simp add: PAKE_Close_def SessionKey_def ConfirmTag_def VerifyPeerConfirm_def Bytes_def)

lemma length_DeriveBlindMatchTag [simp]: "length (DeriveBlindMatchTag k) = 32"
  by (simp add: DeriveBlindMatchTag_def)

end
