(* ===== verification/RateLimit.thy ===== *)
theory RateLimit
  imports Go_IO Go_Strings "HOL-Library.AList"
begin

text \<open>
  \<open>pkg/relay/ratelimit.go\<close>: failed attempts per host and temporary bans. The current time
  is an argument. The records
  are an association list with at most one entry per host; pointers to records are updates of
  the entry.
\<close>

definition MaxFailedAttempts :: int where "MaxFailedAttempts = 3"
definition BanDuration :: time where "BanDuration = 5 * 60 * 1000000000"

record ipRecord =
  ip_attempts :: int
  ip_bannedUntil :: time
  ip_lastActivity :: time

record ratelimiter =
  rl_records :: "(string \<times> ipRecord) list"
  rl_enabled :: bool

definition NewRateLimiter :: ratelimiter where
  "NewRateLimiter = \<lparr>rl_records = [], rl_enabled = True\<rparr>"

definition SetEnabled :: "bool \<Rightarrow> ratelimiter \<Rightarrow> ratelimiter" where
  "SetEnabled enabled r = r\<lparr>rl_enabled := enabled\<rparr>"

text \<open>The host part of a remote address, or all of it when it has no port.\<close>

definition host_of :: "string \<Rightarrow> string" where
  "host_of remoteAddr = (case SplitHostPort remoteAddr of None \<Rightarrow> remoteAddr | Some (ip, _) \<Rightarrow> ip)"

definition IsBanned :: "time \<Rightarrow> string \<Rightarrow> ratelimiter \<Rightarrow> bool \<times> ratelimiter" where
  "IsBanned now remoteAddr r =
     (if \<not> rl_enabled r then (False, r)
      else let ip = host_of remoteAddr in
      case map_of (rl_records r) ip of
        None \<Rightarrow> (False, r)
      | Some rec \<Rightarrow>
          let rec = rec\<lparr>ip_lastActivity := now\<rparr>;
              r = r\<lparr>rl_records := AList.update ip rec (rl_records r)\<rparr>
          in if now < ip_bannedUntil rec then (True, r)
             else if ip_bannedUntil rec < now \<and> MaxFailedAttempts \<le> ip_attempts rec
             then (False, r\<lparr>rl_records := AList.delete ip (rl_records r)\<rparr>)
             else (False, r))"

definition RecordFailure :: "time \<Rightarrow> string \<Rightarrow> ratelimiter \<Rightarrow> ratelimiter" where
  "RecordFailure now remoteAddr r =
     (if \<not> rl_enabled r then r
      else
        let ip = host_of remoteAddr;
            rec = (case map_of (rl_records r) ip of
                     None \<Rightarrow> \<lparr>ip_attempts = 0, ip_bannedUntil = 0, ip_lastActivity = 0\<rparr>
                   | Some rec \<Rightarrow> rec);
            rec = rec\<lparr>ip_lastActivity := now, ip_attempts := ip_attempts rec + 1\<rparr>;
            rec = (if MaxFailedAttempts \<le> ip_attempts rec
                   then rec\<lparr>ip_bannedUntil := now + BanDuration\<rparr> else rec)
        in r\<lparr>rl_records := AList.update ip rec (rl_records r)\<rparr>)"

definition RecordSuccess :: "string \<Rightarrow> ratelimiter \<Rightarrow> ratelimiter" where
  "RecordSuccess remoteAddr r =
     r\<lparr>rl_records := AList.delete (host_of remoteAddr) (rl_records r)\<rparr>"

definition CleanupStale :: "time \<Rightarrow> time \<Rightarrow> ratelimiter \<Rightarrow> ratelimiter" where
  "CleanupStale now maxAge r =
     r\<lparr>rl_records := filter (\<lambda>(ip, rec). \<not> (ip_bannedUntil rec < now \<and> maxAge < now - ip_lastActivity rec))
                      (rl_records r)\<rparr>"

definition Count :: "ratelimiter \<Rightarrow> nat" where
  "Count r = length (rl_records r)"

section \<open>Invariant\<close>

text \<open>
  One record per host; a host with fewer than three failures has no ban, and bans belong to
  hosts with at least three.
\<close>

definition rl_inv :: "ratelimiter \<Rightarrow> bool" where
  "rl_inv r \<longleftrightarrow> distinct (map fst (rl_records r)) \<and>
     (\<forall>(ip, rec) \<in> set (rl_records r).
        0 < ip_attempts rec \<and> (ip_attempts rec < MaxFailedAttempts \<longrightarrow> ip_bannedUntil rec = 0))"

text \<open>The operations as steps, with the time of each.\<close>

datatype rl_op = RlCheck time string | RlFail time string | RlSuccess string | RlCleanup time time
  | RlSetEnabled bool

fun rl_step :: "rl_op \<Rightarrow> ratelimiter \<Rightarrow> ratelimiter" where
  "rl_step (RlCheck now a) r = snd (IsBanned now a r)"
| "rl_step (RlFail now a) r = RecordFailure now a r"
| "rl_step (RlSuccess a) r = RecordSuccess a r"
| "rl_step (RlCleanup now age) r = CleanupStale now age r"
| "rl_step (RlSetEnabled enabled) r = SetEnabled enabled r"

lemma rl_inv_map_of:
  "rl_inv r \<longleftrightarrow> distinct (map fst (rl_records r)) \<and>
     (\<forall>ip rec. map_of (rl_records r) ip = Some rec \<longrightarrow>
        0 < ip_attempts rec \<and> (ip_attempts rec < MaxFailedAttempts \<longrightarrow> ip_bannedUntil rec = 0))"
  unfolding rl_inv_def by (auto dest: map_of_SomeD)

lemma rl_enabled_RecordFailure [simp]: "rl_enabled (RecordFailure now a r) = rl_enabled r"
  by (simp add: RecordFailure_def Let_def)

lemma rl_enabled_IsBanned [simp]: "rl_enabled (snd (IsBanned now a r)) = rl_enabled r"
  by (auto simp: IsBanned_def Let_def split: option.splits)

lemma rl_enabled_step: "(\<And>b. e \<noteq> RlSetEnabled b) \<Longrightarrow> rl_enabled (rl_step e r) = rl_enabled r"
  by (cases e) (auto simp: RecordSuccess_def CleanupStale_def)

text \<open>The record of one host after each operation.\<close>

definition rec_of :: "ratelimiter \<Rightarrow> string \<Rightarrow> ipRecord option" where
  "rec_of r ip = map_of (rl_records r) ip"

lemma rec_of_IsBanned:
  "rl_enabled r \<Longrightarrow> rec_of (snd (IsBanned now a r)) ip =
     (case rec_of r ip of None \<Rightarrow> None
      | Some rec \<Rightarrow> if ip \<noteq> host_of a then Some rec
                    else if ip_bannedUntil rec < now \<and> MaxFailedAttempts \<le> ip_attempts rec then None
                    else Some (rec\<lparr>ip_lastActivity := now\<rparr>))"
  by (auto simp: rec_of_def IsBanned_def Let_def update_conv' delete_conv' split: option.splits)

lemma rec_of_RecordFailure:
  "rl_enabled r \<Longrightarrow> rec_of (RecordFailure now a r) ip =
     (if ip \<noteq> host_of a then rec_of r ip
      else let n = (case rec_of r ip of None \<Rightarrow> 1 | Some rec \<Rightarrow> ip_attempts rec + 1);
               b = (case rec_of r ip of None \<Rightarrow> 0 | Some rec \<Rightarrow> ip_bannedUntil rec)
           in Some \<lparr>ip_attempts = n, ip_bannedUntil = if MaxFailedAttempts \<le> n then now + BanDuration else b,
                    ip_lastActivity = now\<rparr>)"
  by (auto simp: rec_of_def RecordFailure_def Let_def update_conv' split: option.splits)

lemma rec_of_RecordSuccess:
  "rec_of (RecordSuccess a r) ip = (if ip = host_of a then None else rec_of r ip)"
  by (simp add: rec_of_def RecordSuccess_def delete_conv')

lemma rec_of_SetEnabled [simp]: "rec_of (SetEnabled b r) ip = rec_of r ip"
  by (simp add: rec_of_def SetEnabled_def)

text \<open>With one entry per key, an entry survives a filter exactly when it satisfies it.\<close>

lemma lookup_filter_iff:
  assumes "distinct (map fst al)"
  shows "map_of (filter Q al) key = Some val \<longleftrightarrow> map_of al key = Some val \<and> Q (key, val)"
proof -
  have "distinct (map fst (filter Q al))" using assms by (rule distinct_map_filter)
  with assms show ?thesis by (simp only: map_of_eq_Some_iff set_filter mem_Collect_eq) 
qed

lemma lookup_filter_None:
  "distinct (map fst al) \<Longrightarrow> map_of (filter Q al) key = None \<longleftrightarrow> (\<forall>val. map_of al key = Some val \<longrightarrow> \<not> Q (key, val))"
  using lookup_filter_iff by (metis not_None_eq)

lemma rec_of_CleanupStale:
  "rl_inv r \<Longrightarrow> rec_of (CleanupStale now age r) ip =
     (case rec_of r ip of None \<Rightarrow> None
      | Some rec \<Rightarrow> if ip_bannedUntil rec < now \<and> age < now - ip_lastActivity rec then None else Some rec)"
proof -
  assume "rl_inv r"
  then have d: "distinct (map fst (rl_records r))" by (simp add: rl_inv_def)
  show ?thesis
    unfolding rec_of_def CleanupStale_def
    by (cases "map_of (rl_records r) ip") (auto simp: lookup_filter_iff [OF d] lookup_filter_None [OF d])
qed

lemma rl_inv_rec_of:
  "rl_inv r \<longleftrightarrow> distinct (map fst (rl_records r)) \<and>
     (\<forall>ip rec. rec_of r ip = Some rec \<longrightarrow>
        0 < ip_attempts rec \<and> (ip_attempts rec < MaxFailedAttempts \<longrightarrow> ip_bannedUntil rec = 0))"
  by (simp add: rl_inv_map_of rec_of_def)

lemma rl_distinct_step: "distinct (map fst (rl_records r)) \<Longrightarrow> distinct (map fst (rl_records (rl_step e r)))"
  by (cases e) (auto simp: IsBanned_def RecordFailure_def RecordSuccess_def CleanupStale_def SetEnabled_def Let_def
      distinct_update distinct_delete distinct_map_filter split: option.splits)

lemma rl_disabled:
  "\<not> rl_enabled r \<Longrightarrow> IsBanned now a r = (False, r)" "\<not> rl_enabled r \<Longrightarrow> RecordFailure now a r = r"
  by (simp_all add: IsBanned_def RecordFailure_def)

lemma rl_step_inv:
  assumes inv: "rl_inv r"
  shows "rl_inv (rl_step e r)"
proof -
  have d: "distinct (map fst (rl_records (rl_step e r)))"
    using inv rl_distinct_step by (auto simp: rl_inv_def)
  have "rec_of (rl_step e r) ip = Some rec \<Longrightarrow>
      0 < ip_attempts rec \<and> (ip_attempts rec < MaxFailedAttempts \<longrightarrow> ip_bannedUntil rec = 0)" for ip rec
    using inv unfolding rl_inv_rec_of
    by (cases e; cases "rl_enabled r")
      (force simp: rl_disabled rec_of_IsBanned rec_of_RecordFailure rec_of_RecordSuccess
        rec_of_CleanupStale [OF inv] Let_def MaxFailedAttempts_def split: option.splits if_splits)+
  with d show ?thesis by (simp add: rl_inv_rec_of)
qed

lemma NewRateLimiter_inv: "rl_inv NewRateLimiter"
  by (simp add: rl_inv_def NewRateLimiter_def)

interpretation rlm: safe_machine rl_step rl_inv
  by unfold_locales (rule rl_step_inv)

section \<open>Bans\<close>

text \<open>The failures counted against a host.\<close>

definition failures :: "ratelimiter \<Rightarrow> string \<Rightarrow> int" where
  "failures r ip = (case rec_of r ip of None \<Rightarrow> 0 | Some rec \<Rightarrow> ip_attempts rec)"

lemma IsBanned_iff:
  "fst (IsBanned now a r) \<longleftrightarrow>
     rl_enabled r \<and> (\<exists>rec. rec_of r (host_of a) = Some rec \<and> now < ip_bannedUntil rec)"
  by (auto simp: IsBanned_def rec_of_def Let_def split: option.splits)

text \<open>C27: after any history of the limiter, switching it on and off included, recording a failure of an
  address at \<open>now\<close> bans exactly its own host, exactly when the limiter is switched on and this is at
  least its third counted failure, and exactly until five minutes after \<open>now\<close>; the answers for every
  other host are unchanged.\<close>

theorem third_failure_bans:
  assumes "0 \<le> t"
  shows "fst (IsBanned t a' (RecordFailure now a (fold rl_step es NewRateLimiter))) \<longleftrightarrow>
     (if host_of a' = host_of a
      then rl_enabled (fold rl_step es NewRateLimiter)
           \<and> 2 \<le> failures (fold rl_step es NewRateLimiter) (host_of a) \<and> t < now + BanDuration
      else fst (IsBanned t a' (fold rl_step es NewRateLimiter)))"
proof -
  let ?r = "fold rl_step es NewRateLimiter"
  have inv: "rl_inv ?r" by (rule rlm.run_inv) (rule NewRateLimiter_inv)
  show ?thesis
  proof (cases "rl_enabled ?r")
    case False
    then show ?thesis by (simp add: IsBanned_iff rl_disabled)
  next
    case True
    then show ?thesis
      using assms inv unfolding IsBanned_iff rec_of_RecordFailure [OF True] rl_enabled_RecordFailure
      by (force simp: failures_def Let_def MaxFailedAttempts_def rl_inv_rec_of split: option.splits if_splits)
  qed
qed

definition sample_rl :: "rl_op list" where
  "sample_rl = [RlFail 1 ''10.0.0.1:80'', RlSetEnabled False, RlFail 1 ''10.0.0.1:80'', RlSetEnabled True,
     RlFail 1 ''10.0.0.1:99'']"

theorem third_failure_bans_witness:
  "fst (IsBanned 300000000001 ''10.0.0.1:81'' (RecordFailure 2 ''10.0.0.1:80'' (fold rl_step sample_rl NewRateLimiter)))
   \<longleftrightarrow> (if host_of ''10.0.0.1:81'' = host_of ''10.0.0.1:80''
        then rl_enabled (fold rl_step sample_rl NewRateLimiter)
             \<and> 2 \<le> failures (fold rl_step sample_rl NewRateLimiter) (host_of ''10.0.0.1:80'')
             \<and> 300000000001 < 2 + BanDuration
        else fst (IsBanned 300000000001 ''10.0.0.1:81'' (fold rl_step sample_rl NewRateLimiter)))"
  by (rule third_failure_bans) simp

text \<open>An operation during a ban: it happens after the failure that caused the ban, before the
  ban ends, and is neither a recorded success of the banned host nor switches the
  limiter off.\<close>

fun during_ban :: "time \<Rightarrow> string \<Rightarrow> rl_op \<Rightarrow> bool" where
  "during_ban B ip (RlCheck now a) \<longleftrightarrow> now < B"
| "during_ban B ip (RlFail now a) \<longleftrightarrow> B - BanDuration \<le> now \<and> now < B"
| "during_ban B ip (RlSuccess a) \<longleftrightarrow> host_of a \<noteq> ip"
| "during_ban B ip (RlCleanup now age) \<longleftrightarrow> now < B"
| "during_ban B ip (RlSetEnabled enabled) \<longleftrightarrow> enabled"

definition banned_until :: "time \<Rightarrow> string \<Rightarrow> ratelimiter \<Rightarrow> bool" where
  "banned_until B ip r \<longleftrightarrow> rl_inv r \<and> rl_enabled r \<and>
     (\<exists>rec. rec_of r ip = Some rec \<and> MaxFailedAttempts \<le> ip_attempts rec \<and> B \<le> ip_bannedUntil rec)"

lemma banned_until_step:
  assumes "banned_until B ip r" and "during_ban B ip e"
  shows "banned_until B ip (rl_step e r)"
proof -
  have inv: "rl_inv r" and en: "rl_enabled r" using assms(1) by (auto simp: banned_until_def)
  obtain rec where "rec_of r ip = Some rec" "MaxFailedAttempts \<le> ip_attempts rec" "B \<le> ip_bannedUntil rec"
    using assms(1) by (auto simp: banned_until_def)
  then have "\<exists>rec. rec_of (rl_step e r) ip = Some rec \<and> MaxFailedAttempts \<le> ip_attempts rec
      \<and> B \<le> ip_bannedUntil rec"
    using assms(2) by (cases e) (auto simp: rec_of_IsBanned [OF en] rec_of_RecordFailure [OF en]
        rec_of_RecordSuccess rec_of_CleanupStale [OF inv] Let_def)
  moreover have "rl_enabled (rl_step e r)"
    using en assms(2) rl_enabled_step [of e r] by (cases e) (auto simp: SetEnabled_def)
  ultimately show ?thesis using inv by (simp add: banned_until_def rl_step_inv)
qed

lemma banned_until_run:
  "banned_until B ip r \<Longrightarrow> list_all (during_ban B ip) es \<Longrightarrow> banned_until B ip (fold rl_step es r)"
  by (induction es arbitrary: r) (auto simp: banned_until_step)

text \<open>A ban is not lifted early. Whatever checks, failures, clean-ups and successes of other hosts
  happen before it ends, with the limiter left on, a host that was banned until \<open>B\<close> is still refused at every time before
  \<open>B\<close>.\<close>

lemma ban_not_lifted_early:
  assumes "banned_until B (host_of a) r" and "list_all (during_ban B (host_of a)) es" and "t < B"
  shows "fst (IsBanned t a (fold rl_step es r))"
  using banned_until_run [OF assms(1,2)] assms(3) by (force simp: IsBanned_iff banned_until_def)

end
