(* ===== verification/Relay_Session.thy ===== *)
theory Relay_Session
  imports Protocol RateLimit
begin

text \<open>
  \<open>pkg/relay/session.go\<close>: the connection of a relay peer with its send queue, and the session
  that joins one publisher and its subscribers.

  Clients and sessions are objects on a heap and are referred to by their index. An operation
  on them is one step of the machine of \<open>Relay_Server\<close>. A blocking \<open>select\<close> is taken at the moment
  it commits; where two of its cases are ready, a \<open>pick\<close> argument says which one the
  scheduler takes.
\<close>

section \<open>Client connections\<close>

definition SubscriberQueueSize :: nat where "SubscriberQueueSize = 200"
definition HighWatermark :: nat where "HighWatermark = 160"
definition LowWatermark :: nat where "LowWatermark = 80"

datatype relay_err = ErrQueueFull | ErrQueueTimeout | ErrSubscriberClosed | ErrNoPublisher | ErrSend proto_err

text \<open>
  \<open>cl_key\<close> identifies the network connection, \<open>cl_sendCh\<close> is the content of the send channel,
  \<open>cl_done\<close> says that the channel \<open>done\<close> is closed, \<open>cl_writer\<close> that the goroutine \<open>writeLoop\<close> runs.
\<close>

record client =
  cl_netConn :: conn
  cl_key :: nat
  cl_role :: nat
  cl_initialEnv :: "envelope option"
  cl_sendCh :: "envelope list"
  cl_done :: bool
  cl_writer :: bool

definition NewClientConn :: "nat \<Rightarrow> conn \<Rightarrow> nat \<Rightarrow> envelope option \<Rightarrow> client" where
  "NewClientConn key c role initialEnv =
     \<lparr>cl_netConn = c, cl_key = key, cl_role = role, cl_initialEnv = initialEnv, cl_sendCh = [],
      cl_done = False, cl_writer = (role = 2)\<rparr>"

definition IsClosed :: "client \<Rightarrow> bool" where
  "IsClosed c = cl_done c"

definition QueueLen :: "client \<Rightarrow> nat" where
  "QueueLen c = (if cl_role c \<noteq> 2 then 0 else length (cl_sendCh c))"

definition IsHighWatermark :: "client \<Rightarrow> bool" where
  "IsHighWatermark c \<longleftrightarrow> HighWatermark \<le> QueueLen c"

definition IsLowWatermark :: "client \<Rightarrow> bool" where
  "IsLowWatermark c \<longleftrightarrow> QueueLen c \<le> LowWatermark"

text \<open>\<open>Close\<close>: once; a subscriber's socket is closed later, by \<open>close_netConn\<close> after 20 ms.\<close>

definition ClientConn_Close :: "client \<Rightarrow> client" where
  "ClientConn_Close c =
     (if cl_done c then c
      else let c = c\<lparr>cl_done := True\<rparr> in
           if cl_role c = 2 then c else c\<lparr>cl_netConn := conn_Close (cl_netConn c)\<rparr>)"

definition close_netConn :: "client \<Rightarrow> client" where
  "close_netConn c = (if cl_role c = 2 \<and> cl_done c then c\<lparr>cl_netConn := conn_Close (cl_netConn c)\<rparr> else c)"

text \<open>
  \<open>SendFrameWithTimeout\<close>. In the blocking case of a subscriber: with room and not closed the
  frame is queued; with room and closed the scheduler picks; without room the frame is
  refused, as closed or when the timer fires.
\<close>

definition SendFrameWithTimeout ::
    "bool \<Rightarrow> client \<Rightarrow> envelope \<Rightarrow> time \<Rightarrow> (relay_err + unit) \<times> client" where
  "SendFrameWithTimeout pick c env timeout =
     (if cl_role c = 2 then
        let room = (length (cl_sendCh c) < SubscriberQueueSize);
            queued = c\<lparr>cl_sendCh := cl_sendCh c @ [env]\<rparr>
        in if timeout = 0 then
             (if room then (Inr (), queued) else (Inl ErrQueueFull, c))
           else if room \<and> (\<not> cl_done c \<or> pick) then (Inr (), queued)
           else if cl_done c then (Inl ErrSubscriberClosed, c)
           else (Inl ErrQueueTimeout, c)
      else
        (case Encode framePool_New (cl_netConn c) env of
           (Inl e, cn) \<Rightarrow> (Inl (ErrSend e), c\<lparr>cl_netConn := cn\<rparr>)
         | (Inr _, cn) \<Rightarrow> (Inr (), c\<lparr>cl_netConn := cn\<rparr>)))"

definition SendFrame :: "bool \<Rightarrow> client \<Rightarrow> envelope \<Rightarrow> (relay_err + unit) \<times> client" where
  "SendFrame pick c env = SendFrameWithTimeout pick c env (5 * 1000000000)"

text \<open>The inner loop of \<open>writeLoop\<close> after \<open>done\<close>: write what is queued, errors are dropped.\<close>

fun flush_queue :: "envelope list \<Rightarrow> conn \<Rightarrow> conn" where
  "flush_queue [] cn = cn"
| "flush_queue (env # q) cn = flush_queue q (snd (Encode framePool_New cn env))"

text \<open>One iteration of \<open>writeLoop\<close>; when neither case is ready it waits, and nothing changes.\<close>

definition writeLoop_step :: "bool \<Rightarrow> client \<Rightarrow> client" where
  "writeLoop_step pick c =
     (if \<not> cl_writer c then c
      else if cl_done c \<and> (pick \<or> cl_sendCh c = []) then
        c\<lparr>cl_netConn := flush_queue (cl_sendCh c) (cl_netConn c), cl_sendCh := [], cl_writer := False\<rparr>
      else case cl_sendCh c of
        [] \<Rightarrow> c
      | env # q \<Rightarrow>
          (case Encode framePool_New (cl_netConn c) env of
             (Inl e, cn) \<Rightarrow>
               (ClientConn_Close (c\<lparr>cl_sendCh := q, cl_netConn := cn\<rparr>))\<lparr>cl_writer := False\<rparr>
           | (Inr _, cn) \<Rightarrow> c\<lparr>cl_sendCh := q, cl_netConn := cn\<rparr>))"

text \<open>\<open>WaitForDrain\<close> only waits; when it may return: drained, closed, or past its deadline.\<close>

definition WaitForDrain :: "client \<Rightarrow> bool \<Rightarrow> bool" where
  "WaitForDrain c expired \<longleftrightarrow> cl_role c \<noteq> 2 \<or> IsLowWatermark c \<or> cl_done c \<or> expired"

section \<open>Sessions\<close>

record rsession =
  se_sessionID :: bytes
  se_publisher :: "nat option"
  se_subscribers :: "(string \<times> nat) list"
  se_createdAt :: time
  se_closed :: bool

definition sessionGracePeriod :: time where "sessionGracePeriod = 30 * 1000000000"

definition NewRelaySession :: "time \<Rightarrow> bytes \<Rightarrow> rsession" where
  "NewRelaySession now sessionID =
     \<lparr>se_sessionID = sessionID, se_publisher = None, se_subscribers = [], se_createdAt = now, se_closed = False\<rparr>"

definition IsEmpty :: "rsession \<Rightarrow> bool" where
  "IsEmpty s =
     (if se_closed s then True
      else let hasPub = (se_publisher s \<noteq> None); hasSubs = (0 < length (se_subscribers s))
           in \<not> hasPub \<and> \<not> hasSubs)"

definition IsReapable :: "time \<Rightarrow> rsession \<Rightarrow> bool" where
  "IsReapable now s = (if \<not> IsEmpty s then False else sessionGracePeriod \<le> now - se_createdAt s)"

text \<open>
  The heap: all clients and sessions ever created, by index, and the counter that makes
  subscriber keys unique.
\<close>

record heap =
  hp_clients :: "client list"
  hp_sessions :: "rsession list"
  hp_subKey :: u64

definition upd_client :: "nat \<Rightarrow> (client \<Rightarrow> client) \<Rightarrow> heap \<Rightarrow> heap" where
  "upd_client i f h = h\<lparr>hp_clients := (hp_clients h)[i := f (hp_clients h ! i)]\<rparr>"

definition upd_session :: "nat \<Rightarrow> (rsession \<Rightarrow> rsession) \<Rightarrow> heap \<Rightarrow> heap" where
  "upd_session s f h = h\<lparr>hp_sessions := (hp_sessions h)[s := f (hp_sessions h ! s)]\<rparr>"

definition alloc_client :: "client \<Rightarrow> heap \<Rightarrow> nat \<times> heap" where
  "alloc_client c h = (length (hp_clients h), h\<lparr>hp_clients := hp_clients h @ [c]\<rparr>)"

text \<open>
  \<open>RegisterPublisher\<close>: refused, with the new connection closed, while the present publisher is
  open; else the new connection is the publisher. The result has the closed connection or
  the index of the new client.
\<close>

definition set_publisher :: "nat \<Rightarrow> nat \<Rightarrow> conn \<Rightarrow> envelope \<Rightarrow> heap \<Rightarrow> nat \<times> heap" where
  "set_publisher s key c env h =
     (case alloc_client (NewClientConn key c 1 (Some env)) h of
        (i, h) \<Rightarrow> (i, upd_session s (\<lambda>x. x\<lparr>se_publisher := Some i\<rparr>) h))"

definition RegisterPublisher ::
    "nat \<Rightarrow> nat \<Rightarrow> conn \<Rightarrow> envelope \<Rightarrow> heap \<Rightarrow> (conn + nat) \<times> heap" where
  "RegisterPublisher s key c env h =
     (case se_publisher (hp_sessions h ! s) of
        Some p \<Rightarrow>
          if \<not> IsClosed (hp_clients h ! p) then (Inl (conn_Close c), h)
          else map_prod Inr id (set_publisher s key c env (upd_client p ClientConn_Close h))
      | None \<Rightarrow> map_prod Inr id (set_publisher s key c env h))"

definition RegisterSubscriber ::
    "nat \<Rightarrow> nat \<Rightarrow> conn \<Rightarrow> string \<Rightarrow> envelope \<Rightarrow> heap \<Rightarrow> (nat \<times> string) \<times> heap" where
  "RegisterSubscriber s key c raddr env h =
     (let (i, h) = alloc_client (NewClientConn key c 2 (Some env)) h;
          n = hp_subKey h + 1;
          h = h\<lparr>hp_subKey := n\<rparr>;
          k = raddr @ ''#'' @ print_nat (unat n)
      in ((i, k), upd_session s (\<lambda>x. x\<lparr>se_subscribers := AList.update k i (se_subscribers x)\<rparr>) h))"

definition RemoveSubscriber :: "nat \<Rightarrow> string \<Rightarrow> heap \<Rightarrow> heap" where
  "RemoveSubscriber s addr h =
     (case map_of (se_subscribers (hp_sessions h ! s)) addr of
        None \<Rightarrow> h
      | Some i \<Rightarrow>
          upd_client i ClientConn_Close
            (upd_session s (\<lambda>x. x\<lparr>se_subscribers := AList.delete addr (se_subscribers x)\<rparr>) h))"

text \<open>
  \<open>ForwardFromPublisher\<close>: send to every subscriber of the snapshot; the keys of those that fail
  are returned, each is removed by a goroutine of its own. \<open>pick\<close> decides for each client.
\<close>

fun forward_loop ::
    "(nat \<Rightarrow> bool) \<Rightarrow> envelope \<Rightarrow> (string \<times> nat) list \<Rightarrow> heap \<Rightarrow> string list \<times> bool \<times> heap" where
  "forward_loop pick env [] h = ([], False, h)"
| "forward_loop pick env ((addr, i) # subs) h =
     (case SendFrame (pick i) (hp_clients h ! i) env of
        (r, c) \<Rightarrow>
          let (failed, hit, h') = forward_loop pick env subs (upd_client i (\<lambda>_. c) h)
          in case r of Inl e \<Rightarrow> (addr # failed, hit, h')
             | Inr _ \<Rightarrow> (failed, hit \<or> IsHighWatermark c, h'))"

definition ForwardFromPublisher ::
    "(nat \<Rightarrow> bool) \<Rightarrow> nat \<Rightarrow> envelope \<Rightarrow> heap \<Rightarrow> string list \<times> bool \<times> heap" where
  "ForwardFromPublisher pick s env h = forward_loop pick env (se_subscribers (hp_sessions h ! s)) h"

definition ForwardToPublisher :: "bool \<Rightarrow> nat \<Rightarrow> envelope \<Rightarrow> heap \<Rightarrow> (relay_err + unit) \<times> heap" where
  "ForwardToPublisher pick s env h =
     (case se_publisher (hp_sessions h ! s) of
        None \<Rightarrow> (Inl ErrNoPublisher, h)
      | Some p \<Rightarrow> (case SendFrame pick (hp_clients h ! p) env of
                    (r, c) \<Rightarrow> (r, upd_client p (\<lambda>_. c) h)))"

definition RelaySession_Close :: "nat \<Rightarrow> heap \<Rightarrow> heap" where
  "RelaySession_Close s h =
     (let x = hp_sessions h ! s in
      if se_closed x then h
      else
        let h = (case se_publisher x of None \<Rightarrow> h | Some p \<Rightarrow> upd_client p ClientConn_Close h);
            h = fold (\<lambda>(_, i). upd_client i ClientConn_Close) (se_subscribers x) h
        in upd_session s (\<lambda>x. x\<lparr>se_closed := True, se_publisher := None, se_subscribers := []\<rparr>) h)"

section \<open>The queue of a subscriber\<close>

text \<open>
  What can happen to a subscriber's connection, in any order: a frame is sent to it, its writer
  makes an iteration, it is closed, its socket is closed. The second component of the state
  collects the frames \<open>SendFrame\<close> accepted.
\<close>

datatype client_op = CoSend bool envelope | CoWrite bool | CoClose | CoCloseNet

fun client_step :: "client_op \<Rightarrow> client \<times> envelope list \<Rightarrow> client \<times> envelope list" where
  "client_step (CoSend pick env) (c, acc) =
     (case SendFrame pick c env of (Inl e, c') \<Rightarrow> (c', acc) | (Inr _, c') \<Rightarrow> (c', acc @ [env]))"
| "client_step (CoWrite pick) (c, acc) = (writeLoop_step pick c, acc)"
| "client_step CoClose (c, acc) = (ClientConn_Close c, acc)"
| "client_step CoCloseNet (c, acc) = (close_netConn c, acc)"

fun op_sendable :: "client_op \<Rightarrow> bool" where
  "op_sendable (CoSend pick env) = sendable env"
| "op_sendable _ = True"

lemma SendFrame_sub:
  "cl_role c = 2 \<Longrightarrow> SendFrame pick c env =
     (if length (cl_sendCh c) < SubscriberQueueSize \<and> (\<not> cl_done c \<or> pick)
      then (Inr (), c\<lparr>cl_sendCh := cl_sendCh c @ [env]\<rparr>)
      else (Inl (if cl_done c then ErrSubscriberClosed else ErrQueueTimeout), c))"
  by (simp add: SendFrame_def SendFrameWithTimeout_def Let_def)

definition writable :: "conn \<Rightarrow> bool" where
  "writable cn \<longleftrightarrow> \<not> cn_closed cn \<and> \<not> cn_wfail cn"

lemma Encode_sendable:
  "sendable e \<Longrightarrow> Encode framePool_New cn e =
     (if writable cn then (Inr (), cn\<lparr>cn_out := cn_out cn @ [frame_bytes e]\<rparr>) else (Inl ErrWriteFrame, cn))"
  by (simp add: Encode_eq sendable_def conn_Write_def writable_def)

lemma flush_queue_eq:
  "list_all sendable q \<Longrightarrow> flush_queue q cn =
     (if writable cn then cn\<lparr>cn_out := cn_out cn @ map frame_bytes q\<rparr> else cn)"
proof (induction q arbitrary: cn)
  case (Cons e q)
  have "writable (cn\<lparr>cn_out := x\<rparr>) = writable cn" for x by (simp add: writable_def)
  with Cons show ?case by (simp add: Encode_sendable)
qed simp

text \<open>
  The invariant of such a run, for what the connection had written (\<open>out0\<close>) and queued (\<open>q0\<close>)
  at its start: what was accepted is what was written since, then what was lost, then what is
  queued. Frames are lost only when the connection is closed and its socket can not be written.
\<close>

definition fifo_inv :: "bytes list \<Rightarrow> envelope list \<Rightarrow> client \<times> envelope list \<Rightarrow> bool" where
  "fifo_inv out0 q0 st \<longleftrightarrow>
     (case st of (c, acc) \<Rightarrow>
        cl_role c = 2 \<and> list_all sendable (cl_sendCh c) \<and> length (cl_sendCh c) \<le> SubscriberQueueSize
        \<and> (\<exists>ws lost. cn_out (cl_netConn c) = out0 @ map frame_bytes ws
             \<and> q0 @ acc = ws @ lost @ cl_sendCh c
             \<and> (lost \<noteq> [] \<longrightarrow> cl_done c \<and> \<not> writable (cl_netConn c))))"

lemma fifo_invI:
  "cl_role c = 2 \<Longrightarrow> list_all sendable (cl_sendCh c) \<Longrightarrow> length (cl_sendCh c) \<le> SubscriberQueueSize \<Longrightarrow>
   q0 @ acc = ws @ lost @ cl_sendCh c \<Longrightarrow> cn_out (cl_netConn c) = out0 @ map frame_bytes ws \<Longrightarrow>
   (lost \<noteq> [] \<Longrightarrow> cl_done c \<and> \<not> writable (cl_netConn c)) \<Longrightarrow> fifo_inv out0 q0 (c, acc)"
  by (auto simp: fifo_inv_def)

lemma fifo_inv_send:
  assumes "fifo_inv out0 q0 (c, acc)" and "sendable env"
  shows "fifo_inv out0 q0 (client_step (CoSend pick env) (c, acc))"
proof -
  have r: "cl_role c = 2" using assms(1) by (simp add: fifo_inv_def)
  obtain ws lost where w: "cn_out (cl_netConn c) = out0 @ map frame_bytes ws"
    "q0 @ acc = ws @ lost @ cl_sendCh c" "lost \<noteq> [] \<longrightarrow> cl_done c \<and> \<not> writable (cl_netConn c)"
    using assms(1) by (auto simp: fifo_inv_def)
  then have "(q0 @ acc) @ [env] = ws @ lost @ cl_sendCh c @ [env]" by simp
  then show ?thesis
    using assms r w by (auto simp: SendFrame_sub fifo_inv_def)
qed

lemma fifo_inv_write:
  assumes "fifo_inv out0 q0 (c, acc)"
  shows "fifo_inv out0 q0 (client_step (CoWrite pick) (c, acc))"
proof -
  have r: "cl_role c = 2" and q: "list_all sendable (cl_sendCh c)" "length (cl_sendCh c) \<le> SubscriberQueueSize"
    using assms by (auto simp: fifo_inv_def)
  obtain ws lost where w: "cn_out (cl_netConn c) = out0 @ map frame_bytes ws"
    "q0 @ acc = ws @ lost @ cl_sendCh c" "lost \<noteq> [] \<longrightarrow> cl_done c \<and> \<not> writable (cl_netConn c)"
    using assms by (auto simp: fifo_inv_def)
  consider (idle) "\<not> cl_writer c" | (flush) "cl_writer c" "cl_done c \<and> (pick \<or> cl_sendCh c = [])"
    | (wait) "cl_writer c" "\<not> (cl_done c \<and> (pick \<or> cl_sendCh c = []))" "cl_sendCh c = []"
    | (one) e rest where "cl_writer c" "\<not> (cl_done c \<and> (pick \<or> cl_sendCh c = []))" "cl_sendCh c = e # rest"
    by (metis neq_Nil_conv)
  then show ?thesis
  proof cases
    case idle
    then show ?thesis using assms by (simp add: writeLoop_step_def)
  next
    case wait
    then show ?thesis using assms by (simp add: writeLoop_step_def)
  next
    case flush
    show ?thesis
    proof (cases "writable (cl_netConn c)")
      case True
      then have "lost = []" using w(3) by blast
      then have "q0 @ acc = (ws @ cl_sendCh c) @ [] @ []" using w(2) by simp
      then have "fifo_inv out0 q0
          (c\<lparr>cl_netConn := flush_queue (cl_sendCh c) (cl_netConn c), cl_sendCh := [], cl_writer := False\<rparr>, acc)"
        using r True w(1) flush_queue_eq [OF q(1)] by (intro fifo_invI [where ws = "ws @ cl_sendCh c" and lost = "[]"]) auto
      then show ?thesis using flush by (simp add: writeLoop_step_def)
    next
      case False
      then show ?thesis
        using flush r q w by (auto simp: writeLoop_step_def fifo_inv_def flush_queue_eq)
    qed
  next
    case one
    have e: "sendable e" "list_all sendable rest" using q one by auto
    show ?thesis
    proof (cases "writable (cl_netConn c)")
      case True
      then have "lost = []" using w(3) by blast
      then have "q0 @ acc = (ws @ [e]) @ [] @ rest" using w(2) one by simp
      then have "fifo_inv out0 q0
          (c\<lparr>cl_sendCh := rest, cl_netConn := (cl_netConn c)\<lparr>cn_out := cn_out (cl_netConn c) @ [frame_bytes e]\<rparr>\<rparr>, acc)"
        using r q one e w(1) by (intro fifo_invI [where ws = "ws @ [e]" and lost = "[]"]) auto
      then show ?thesis
        using one(1,2) True e(1) by (auto simp: writeLoop_step_def Encode_sendable one(3))
    next
      case False
      have "q0 @ acc = ws @ (lost @ [e]) @ rest" using w(2) one by simp
      then have "fifo_inv out0 q0
          (c\<lparr>cl_sendCh := rest, cl_done := True, cl_writer := False\<rparr>, acc)"
        using r q one e w(1) False by (intro fifo_invI [where ws = ws and lost = "lost @ [e]"]) auto
      moreover have "writeLoop_step pick c = c\<lparr>cl_sendCh := rest, cl_done := True, cl_writer := False\<rparr>"
        using one False e(1) r
        by (cases c) (auto simp: writeLoop_step_def Encode_sendable ClientConn_Close_def Let_def)
      ultimately show ?thesis by simp
    qed
  qed
qed

lemma fifo_inv_step:
  assumes "fifo_inv out0 q0 st" and "op_sendable op"
  shows "fifo_inv out0 q0 (client_step op st)"
proof (cases st)
  case (Pair c acc)
  show ?thesis
  proof (cases op)
    case (CoSend pick env)
    then show ?thesis using fifo_inv_send assms Pair by simp
  next
    case (CoWrite pick)
    then show ?thesis using fifo_inv_write assms Pair by simp
  qed (use assms Pair in \<open>auto simp: fifo_inv_def ClientConn_Close_def close_netConn_def conn_Close_def
      writable_def Let_def\<close>)
qed

lemma fifo_inv_run:
  "fifo_inv out0 q0 st \<Longrightarrow> list_all op_sendable ops \<Longrightarrow> fifo_inv out0 q0 (fold client_step ops st)"
  by (induction ops arbitrary: st) (auto simp: fifo_inv_step)

text \<open>C22: the relay delivers to a subscriber in order, without gaps and without duplicates. After
  any interleaving of sends, writer iterations and closes, what the subscriber's socket has
  received is a prefix of the frames \<open>SendFrame\<close> accepted; while the connection is open the
  rest is exactly the queue; and the queue never exceeds 200 frames.\<close>

theorem subscriber_fifo:
  assumes "list_all op_sendable ops"
    and "fold client_step ops (NewClientConn key cn 2 env0, []) = (c, acc)" and "cn_out cn = []"
  shows "\<exists>ws. cn_out (cl_netConn c) = map frame_bytes ws \<and> prefix ws acc
       \<and> (cl_done c \<or> acc = ws @ cl_sendCh c) \<and> length (cl_sendCh c) \<le> SubscriberQueueSize"
proof -
  have "fifo_inv [] [] (NewClientConn key cn 2 env0, [])"
    by (simp add: fifo_inv_def NewClientConn_def assms(3))
  then have "fifo_inv [] [] (c, acc)" using fifo_inv_run assms(1,2) by metis
  then show ?thesis by (auto simp: fifo_inv_def)
qed

theorem subscriber_fifo_witness:
  "\<exists>c acc ws. fold client_step [CoSend True sample_env, CoWrite True, CoSend True sample_env, CoClose]
       (NewClientConn 0 (fresh_conn [] EOF) 2 None, []) = (c, acc)
     \<and> cn_out (cl_netConn c) = map frame_bytes ws \<and> prefix ws acc
     \<and> (cl_done c \<or> acc = ws @ cl_sendCh c) \<and> length (cl_sendCh c) \<le> SubscriberQueueSize"
proof -
  obtain c acc where r: "fold client_step [CoSend True sample_env, CoWrite True, CoSend True sample_env, CoClose]
       (NewClientConn 0 (fresh_conn [] EOF) 2 None, []) = (c, acc)" by fastforce
  show ?thesis
    using subscriber_fifo [OF _ r] r sample_env_ok by (auto simp: fresh_conn_def)
qed

end
