(* ===== verification/ProxyProto.thy ===== *)
theory ProxyProto
  imports Go_IO Go_Strings
begin

text \<open>
  \<open>pkg/relay/proxy_proto.go\<close>: reading and stripping a PROXY protocol v2 header. The buffered
  reader takes bytes from the connection in chunks of its own choice; \<open>got\<close> is how many it has
  taken when \<open>Peek(12)\<close> returns (at least 12 when the stream has as many, at most its buffer
  of 4096). A \<open>ConnWithReader\<close> is a connection whose input starts with the buffered rest.
\<close>

definition proxyV2Magic :: bytes where
  "proxyV2Magic = [0x0D, 0x0A, 0x0D, 0x0A, 0x00, 0x0D, 0x0A, 0x51, 0x55, 0x49, 0x54, 0x0A]"

section \<open>Printing addresses\<close>

text \<open>\<open>net.IP.String\<close>: dotted decimal for 4 bytes.\<close>

definition ipv4_string :: "bytes \<Rightarrow> string" where
  "ipv4_string b = print_nat (unat (b ! 0)) @ ''.'' @ print_nat (unat (b ! 1)) @ ''.''
     @ print_nat (unat (b ! 2)) @ ''.'' @ print_nat (unat (b ! 3))"

text \<open>Hexadecimal without leading zeros.\<close>

function print_hex :: "nat \<Rightarrow> string" where
  "print_hex n = (if n < 16 then [''0123456789abcdef'' ! n] else print_hex (n div 16) @ [''0123456789abcdef'' ! (n mod 16)])"
  by pat_completeness auto
termination
  by (relation "measure id") auto

declare print_hex.simps [simp del]

definition ip6_groups :: "bytes \<Rightarrow> nat list" where
  "ip6_groups b = map (\<lambda>i. unat (Uint16 (go_slice b (2 * i) (2 * i + 2)))) [0..<8]"

text \<open>The first longest run of at least two zero groups, as start and end.\<close>

definition zero_run :: "nat list \<Rightarrow> nat \<Rightarrow> nat" where
  "zero_run g i = length (takeWhile (\<lambda>x. x = 0) (drop i g))"

definition best_run :: "nat list \<Rightarrow> (nat \<times> nat) option" where
  "best_run g = fold (\<lambda>i best. let l = zero_run g i in
     if 2 \<le> l \<and> (case best of None \<Rightarrow> True | Some (s, e) \<Rightarrow> e - s < l) then Some (i, i + l) else best)
     [0..<8] None"

fun join_groups :: "string list \<Rightarrow> string" where
  "join_groups [] = []"
| "join_groups [x] = x"
| "join_groups (x # y # r) = x @ '':'' @ join_groups (y # r)"

definition ipv6_string :: "bytes \<Rightarrow> string" where
  "ipv6_string b =
     (if take 12 b = replicate 10 0 @ [0xFF, 0xFF] then ipv4_string (drop 12 b)
      else let g = ip6_groups b in
      case best_run g of
        None \<Rightarrow> join_groups (map print_hex g)
      | Some (s, e) \<Rightarrow> join_groups (map print_hex (take s g)) @ ''::'' @ join_groups (map print_hex (drop e g)))"

section \<open>The header\<close>

datatype proxy_err = ErrProxyIO io_err | ErrProxyTooLong

definition ParseProxyHeaderV2 ::
    "nat \<Rightarrow> string \<Rightarrow> conn \<Rightarrow> conn \<times> string \<times> proxy_err option" where
  "ParseProxyHeaderV2 got raddr c =
     (let raw = c\<lparr>cn_in := drop got (cn_in c)\<rparr>;
          magic = take 12 (take got (cn_in c))
      in if length magic < 12 \<or> magic \<noteq> proxyV2Magic then (raw, raddr, None)
      else
        let b = c\<lparr>cn_in := drop 12 (cn_in c)\<rparr> in
        case ReadFull 1 b of
          (Inl e, b) \<Rightarrow> (raw, raddr, Some (ErrProxyIO e))
        | (Inr verCmd, b) \<Rightarrow>
        (case ReadFull 1 b of
          (Inl e, b) \<Rightarrow> (raw, raddr, Some (ErrProxyIO e))
        | (Inr familyBuf, b) \<Rightarrow>
        (case ReadFull 2 b of
          (Inl e, b) \<Rightarrow> (raw, raddr, Some (ErrProxyIO e))
        | (Inr lenBuf, b) \<Rightarrow>
            let hdrLen = Uint16 lenBuf in
            if 512 < hdrLen then (raw, raddr, Some ErrProxyTooLong)
            else case ReadFull (unat hdrLen) b of
              (Inl e, b) \<Rightarrow> (raw, raddr, Some (ErrProxyIO e))
            | (Inr hdrPayload, b) \<Rightarrow>
                let family = drop_bit 4 (hd familyBuf);
                    clientAddr =
                      (if family = 1 \<and> 12 \<le> length hdrPayload then
                         ipv4_string (go_slice hdrPayload 0 4) @ '':''
                         @ print_nat (unat (Uint16 (go_slice hdrPayload 8 10)))
                       else if family = 2 \<and> 36 \<le> length hdrPayload then
                         ''['' @ ipv6_string (go_slice hdrPayload 0 16) @ '']:''
                         @ print_nat (unat (Uint16 (go_slice hdrPayload 32 34)))
                       else raddr)
                in (b, clientAddr, None))))"

section \<open>Properties\<close>

text \<open>A header as a proxy sends it.\<close>

definition proxy_header :: "byte \<Rightarrow> byte \<Rightarrow> bytes \<Rightarrow> bytes" where
  "proxy_header verCmd family body = proxyV2Magic @ [verCmd, family] @ PutUint16 (of_nat (length body)) @ body"

lemma length_proxyV2Magic [simp]: "length proxyV2Magic = 12"
  by (simp add: proxyV2Magic_def)

lemma ParseProxyHeaderV2_header:
  assumes "cn_in c = proxy_header v fam body @ rest" and "length body \<le> 512" and "12 \<le> got" and "\<not> cn_closed c"
  shows "ParseProxyHeaderV2 got raddr c =
     (c\<lparr>cn_in := rest\<rparr>,
      (if drop_bit 4 fam = 1 \<and> 12 \<le> length body then
         ipv4_string (go_slice body 0 4) @ '':'' @ print_nat (unat (Uint16 (go_slice body 8 10)))
       else if drop_bit 4 fam = 2 \<and> 36 \<le> length body then
         ''['' @ ipv6_string (go_slice body 0 16) @ '']:'' @ print_nat (unat (Uint16 (go_slice body 32 34)))
       else raddr), None)"
proof -
  have n: "unat (of_nat (length body) :: u16) = length body"
    using assms(2) by (simp add: unat_of_nat_small)
  have lim: "\<not> 512 < (of_nat (length body) :: u16)"
    using assms(2) n by (simp add: word_less_nat_alt)
  have m: "take 12 (take got (cn_in c)) = proxyV2Magic"
    using assms(1,3) by (simp add: proxy_header_def min_absorb1)
  have d: "drop 12 (cn_in c) = [v] @ [fam] @ PutUint16 (of_nat (length body)) @ body @ rest"
    using assms(1) by (simp add: proxy_header_def)
  note rf = ReadFull_append [OF assms(4)]
  have 1: "ReadFull 1 (c\<lparr>cn_in := [v] @ [fam] @ PutUint16 (of_nat (length body)) @ body @ rest\<rparr>)
      = (Inr [v], c\<lparr>cn_in := [fam] @ PutUint16 (of_nat (length body)) @ body @ rest\<rparr>)"
    by (rule rf) simp
  have 2: "ReadFull 1 (c\<lparr>cn_in := [fam] @ PutUint16 (of_nat (length body)) @ body @ rest\<rparr>)
      = (Inr [fam], c\<lparr>cn_in := PutUint16 (of_nat (length body)) @ body @ rest\<rparr>)"
    by (rule rf) simp
  have 3: "ReadFull 2 (c\<lparr>cn_in := PutUint16 (of_nat (length body)) @ body @ rest\<rparr>)
      = (Inr (PutUint16 (of_nat (length body))), c\<lparr>cn_in := body @ rest\<rparr>)"
    by (rule rf) simp
  have 4: "ReadFull (length body) (c\<lparr>cn_in := body @ rest\<rparr>) = (Inr body, c\<lparr>cn_in := rest\<rparr>)"
    by (rule rf) simp
  show ?thesis
    unfolding ParseProxyHeaderV2_def Let_def m d
    by (simp only: 1 2 3 n 4 lim prod.case sum.case be_roundtrip list.sel if_False length_proxyV2Magic
        less_irrefl simp_thms)
qed

text \<open>C28: a complete PROXY v2 header is stripped exactly, however the buffered reader chunks its reads:
  the connection goes on with the first byte behind the header, and the address is the IPv4
  or IPv6 source of the header, or the peer's own for other families.\<close>

theorem proxy_header_stripped:
  assumes "cn_in c = proxy_header v fam body @ rest" and "length body \<le> 512"
    and "12 \<le> got" and "\<not> cn_closed c"
  shows "fst (ParseProxyHeaderV2 got raddr c) = c\<lparr>cn_in := rest\<rparr>
       \<and> snd (snd (ParseProxyHeaderV2 got raddr c)) = None
       \<and> fst (snd (ParseProxyHeaderV2 got raddr c)) =
           (if drop_bit 4 fam = 1 \<and> 12 \<le> length body then
              ipv4_string (take 4 body) @ '':'' @ print_nat (unat (Uint16 (go_slice body 8 10)))
            else if drop_bit 4 fam = 2 \<and> 36 \<le> length body then
              ''['' @ ipv6_string (take 16 body) @ '']:'' @ print_nat (unat (Uint16 (go_slice body 32 34)))
            else raddr)"
  by (simp add: ParseProxyHeaderV2_header [OF assms] go_slice_def)

definition sample_proxy_conn :: conn where
  "sample_proxy_conn = fresh_conn (proxy_header 0x21 0x11 [10, 0, 0, 7, 1, 1, 1, 1, 0, 80, 0, 1] @ [42]) EOF"

theorem proxy_header_stripped_witness:
  "fst (ParseProxyHeaderV2 20 ''p'' sample_proxy_conn) = sample_proxy_conn\<lparr>cn_in := [42]\<rparr>
     \<and> snd (snd (ParseProxyHeaderV2 20 ''p'' sample_proxy_conn)) = None
     \<and> fst (snd (ParseProxyHeaderV2 20 ''p'' sample_proxy_conn)) =
         (if drop_bit 4 (0x11 :: byte) = 1 \<and> 12 \<le> length [10, 0, 0, 7, 1, 1, 1, 1, 0, 80, 0, 1 :: byte] then
            ipv4_string (take 4 [10, 0, 0, 7, 1, 1, 1, 1, 0, 80, 0, 1]) @ '':''
            @ print_nat (unat (Uint16 (go_slice [10, 0, 0, 7, 1, 1, 1, 1, 0, 80, 0, 1] 8 10)))
          else if drop_bit 4 (0x11 :: byte) = 2 \<and> 36 \<le> length [10, 0, 0, 7, 1, 1, 1, 1, 0, 80, 0, 1 :: byte] then
            ''['' @ ipv6_string (take 16 [10, 0, 0, 7, 1, 1, 1, 1, 0, 80, 0, 1]) @ '']:''
            @ print_nat (unat (Uint16 (go_slice [10, 0, 0, 7, 1, 1, 1, 1, 0, 80, 0, 1] 32 34)))
          else ''p'')"
  by (rule proxy_header_stripped [where rest = "[42]"]) (simp_all add: sample_proxy_conn_def fresh_conn_def)

text \<open>C39: a connection that does not start with a PROXY header loses the bytes the buffered reader has
  already taken: the function returns the bare connection, which goes on behind them. A frame
  sent at once by a client without a proxy header is lost, at least its first 12 bytes.\<close>

theorem proxy_bypass_loses_bytes:
  assumes "take 12 (cn_in c) \<noteq> proxyV2Magic" and "12 \<le> got" and "got \<le> length (cn_in c)"
  shows "cn_in c = take got (cn_in c) @ cn_in (fst (ParseProxyHeaderV2 got raddr c))
       \<and> length (cn_in (fst (ParseProxyHeaderV2 got raddr c))) + 12 \<le> length (cn_in c)
       \<and> snd (snd (ParseProxyHeaderV2 got raddr c)) = None"
proof -
  have "take 12 (take got (cn_in c)) = take 12 (cn_in c)" using assms(2) by (simp add: min_absorb1)
  then show ?thesis using assms by (simp add: ParseProxyHeaderV2_def Let_def)
qed

theorem proxy_bypass_loses_bytes_witness:
  "cn_in (fresh_conn (replicate 20 1) EOF) = take 15 (cn_in (fresh_conn (replicate 20 1) EOF))
       @ cn_in (fst (ParseProxyHeaderV2 15 ''p'' (fresh_conn (replicate 20 1) EOF)))
     \<and> length (cn_in (fst (ParseProxyHeaderV2 15 ''p'' (fresh_conn (replicate 20 1) EOF)))) + 12
         \<le> length (cn_in (fresh_conn (replicate 20 1) EOF))
     \<and> snd (snd (ParseProxyHeaderV2 15 ''p'' (fresh_conn (replicate 20 1) EOF))) = None"
  by (rule proxy_bypass_loses_bytes) (simp_all add: fresh_conn_def proxyV2Magic_def numeral_eq_Suc)

end
