(* ===== verification/Relay_Server.thy ===== *)
theory Relay_Server
  imports Relay_Session ProxyProto
begin

text \<open>
  \<open>pkg/relay/server.go\<close>: the session table, the handling of a connection, the loops of a
  publisher and a subscriber, housekeeping, and the counters of \<open>pkg/relay/metrics.go\<close>.

  The goroutines of the server are \<open>task\<close>s. A task runs in steps that are the sections of the
  code between two acquisitions of a lock, so that the steps of different tasks interleave as the
  goroutines do. A connection is given with all that its peer will send.
\<close>

section \<open>State\<close>

definition MaxActiveConnections :: int where "MaxActiveConnections = 10000"

record metrics =
  mt_ActiveSessions :: int
  mt_SessionsCreatedTotal :: u64
  mt_ActiveConnections :: int
  mt_BytesTransferredTotal :: u64
  mt_MessagesRelayedTotal :: u64
  mt_RateLimitBansTotal :: u64
  mt_MalformedPacketsDroppedTotal :: u64
  mt_BackpressurePausesTotal :: u64
  mt_SlowConsumersPrunedTotal :: u64

definition NewMetrics :: metrics where
  "NewMetrics = \<lparr>mt_ActiveSessions = 0, mt_SessionsCreatedTotal = 0, mt_ActiveConnections = 0,
     mt_BytesTransferredTotal = 0, mt_MessagesRelayedTotal = 0, mt_RateLimitBansTotal = 0,
     mt_MalformedPacketsDroppedTotal = 0, mt_BackpressurePausesTotal = 0, mt_SlowConsumersPrunedTotal = 0\<rparr>"

record server =
  sv_heap :: heap
  sv_sessions :: "(bytes \<times> nat) list"
  sv_rateLimiter :: ratelimiter
  sv_trustProxy :: bool
  sv_metrics :: metrics
  sv_activeConns :: int

definition NewServer :: server where
  "NewServer = \<lparr>sv_heap = \<lparr>hp_clients = [], hp_sessions = [], hp_subKey = 0\<rparr>, sv_sessions = [],
     sv_rateLimiter = NewRateLimiter, sv_trustProxy = False, sv_metrics = NewMetrics, sv_activeConns = 0\<rparr>"

definition DisableRateLimiting :: "server \<Rightarrow> server" where
  "DisableRateLimiting srv = srv\<lparr>sv_rateLimiter := SetEnabled False (sv_rateLimiter srv)\<rparr>"

definition SetRateLimiting :: "bool \<Rightarrow> server \<Rightarrow> server" where
  "SetRateLimiting enabled srv = srv\<lparr>sv_rateLimiter := SetEnabled enabled (sv_rateLimiter srv)\<rparr>"

definition SetTrustProxy :: "bool \<Rightarrow> server \<Rightarrow> server" where
  "SetTrustProxy trust srv = srv\<lparr>sv_trustProxy := trust\<rparr>"

abbreviation upd_metrics :: "(metrics \<Rightarrow> metrics) \<Rightarrow> server \<Rightarrow> server" where
  "upd_metrics f srv \<equiv> srv\<lparr>sv_metrics := f (sv_metrics srv)\<rparr>"

abbreviation sess :: "server \<Rightarrow> nat \<Rightarrow> rsession" where
  "sess srv s \<equiv> hp_sessions (sv_heap srv) ! s"

abbreviation clnt :: "server \<Rightarrow> nat \<Rightarrow> client" where
  "clnt srv i \<equiv> hp_clients (sv_heap srv) ! i"

section \<open>The session table\<close>

definition getOrCreateSession :: "time \<Rightarrow> bytes \<Rightarrow> server \<Rightarrow> nat \<times> server" where
  "getOrCreateSession now sessionID srv =
     (case map_of (sv_sessions srv) sessionID of
        Some s \<Rightarrow> (s, srv)
      | None \<Rightarrow>
          let h = sv_heap srv;
              s = length (hp_sessions h);
              h = h\<lparr>hp_sessions := hp_sessions h @ [NewRelaySession now sessionID]\<rparr>;
              srv = srv\<lparr>sv_heap := h, sv_sessions := AList.update sessionID s (sv_sessions srv)\<rparr>
          in (s, upd_metrics (\<lambda>m. m\<lparr>mt_ActiveSessions := mt_ActiveSessions m + 1,
                                  mt_SessionsCreatedTotal := mt_SessionsCreatedTotal m + 1\<rparr>) srv))"

definition lookupSession :: "bytes \<Rightarrow> server \<Rightarrow> nat option" where
  "lookupSession sessionID srv = map_of (sv_sessions srv) sessionID"

definition drop_session :: "bytes \<Rightarrow> nat \<Rightarrow> server \<Rightarrow> server" where
  "drop_session sessionID s srv =
     srv\<lparr>sv_heap := RelaySession_Close s (sv_heap srv),
         sv_sessions := AList.delete sessionID (sv_sessions srv)\<rparr>"

definition removeSession :: "bytes \<Rightarrow> server \<Rightarrow> server" where
  "removeSession sessionID srv =
     (case map_of (sv_sessions srv) sessionID of
        None \<Rightarrow> srv
      | Some s \<Rightarrow> upd_metrics (\<lambda>m. m\<lparr>mt_ActiveSessions := mt_ActiveSessions m - 1\<rparr>)
                    (drop_session sessionID s srv))"

definition CloseAll :: "server \<Rightarrow> server" where
  "CloseAll srv = fold (\<lambda>(id, s). drop_session id s) (sv_sessions srv) srv"

definition SessionCount :: "server \<Rightarrow> nat" where
  "SessionCount srv = length (sv_sessions srv)"

definition reap_one :: "time \<Rightarrow> bytes \<times> nat \<Rightarrow> server \<Rightarrow> server" where
  "reap_one now = (\<lambda>(id, s) srv.
     if IsReapable now (sess srv s)
     then upd_metrics (\<lambda>m. m\<lparr>mt_ActiveSessions := mt_ActiveSessions m - 1\<rparr>) (drop_session id s srv)
     else srv)"

definition reapStaleSessions :: "time \<Rightarrow> server \<Rightarrow> server" where
  "reapStaleSessions now srv = fold (reap_one now) (sv_sessions srv) srv"

section \<open>Handling a connection\<close>

text \<open>\<open>errors.Is(err, io.EOF)\<close> for the errors of \<open>DecodeWithMax\<close>, which wrap those of the reader.\<close>

definition is_EOF :: "proto_err \<Rightarrow> bool" where
  "is_EOF e \<longleftrightarrow> e = ErrHeader EOF \<or> e = ErrPayload EOF"

definition version_refusal :: envelope where
  "version_refusal = \<lparr>env_Version = Version, env_MsgType = MsgTypeClose,
     env_SessionID = replicate SessionIDSize 0, env_Nonce = zero_nonce,
     env_Payload = bytes_of ''zerofeed/relay: unsupported protocol version (minimum required: 0x03)''\<rparr>"

definition count_malformed :: "server \<Rightarrow> server" where
  "count_malformed srv = upd_metrics (\<lambda>m. m\<lparr>mt_MalformedPacketsDroppedTotal := mt_MalformedPacketsDroppedTotal m + 1\<rparr>) srv"

text \<open>
  The first part of \<open>handleConnection\<close>: PROXY header, ban, first frame. \<open>Inl\<close> has the connection
  after it was closed, \<open>Inr\<close> the decoded frame with the connection and the client's address.
  \<open>got\<close> belongs to \<open>ParseProxyHeaderV2\<close>.
\<close>

definition receive_first ::
    "time \<Rightarrow> nat \<Rightarrow> string \<Rightarrow> conn \<Rightarrow> server \<Rightarrow> (conn + envelope \<times> conn \<times> string) \<times> server" where
  "receive_first now got raddr c srv =
     (case (if sv_trustProxy srv then ParseProxyHeaderV2 got raddr c else (c, raddr, None)) of
        (c, remoteAddr, Some e) \<Rightarrow> (Inl (conn_Close c), srv)
      | (c, remoteAddr, None) \<Rightarrow>
          (case IsBanned now remoteAddr (sv_rateLimiter srv) of (banned, rl) \<Rightarrow>
             let srv = srv\<lparr>sv_rateLimiter := rl\<rparr> in
             if banned then
               (Inl (conn_Close c),
                upd_metrics (\<lambda>m. m\<lparr>mt_RateLimitBansTotal := mt_RateLimitBansTotal m + 1\<rparr>) srv)
             else
               (case DecodeWithMax c MaxHandshakePayload of
                  (Inl ErrUnsupportedVer, c) \<Rightarrow>
                    (Inl (conn_Close (snd (Encode framePool_New c version_refusal))), srv)
                | (Inl e, c) \<Rightarrow>
                    (Inl (conn_Close c),
                     if is_EOF e then srv
                     else count_malformed
                            (srv\<lparr>sv_rateLimiter := RecordFailure now remoteAddr (sv_rateLimiter srv)\<rparr>))
                | (Inr env, c) \<Rightarrow> (Inr (env, c, remoteAddr), srv))))"

section \<open>Tasks\<close>

text \<open>
  The control points of the goroutine that handles a connection, named after the step that
  comes next, with the references its local variables hold: session, client, subscriber key.

  \<^item> \<open>TAdmit\<close>: a connection that has passed the limit, of the TCP loop or of a WebSocket handler, is
    counted next (the counter and the gauge in one step, as nothing reads both); \<open>TConn\<close>: a counted
    connection; \<open>TRegPub\<close>, \<open>TRegSub\<close>: a handshake frame was read and the session
    looked up, the registration is next; \<open>TGreet\<close>: the publisher gets the waiting subscribers'
    first frames; \<open>TNotify\<close>: the publisher gets the new subscriber's; \<open>TPub\<close>, \<open>TSub\<close>: the loops;
  \<^item> \<open>TDrop\<close>: \<open>removeSession\<close> is next; \<open>TSubExit\<close>, \<open>TSubCheck\<close>: the end of \<open>loopSubscriber\<close>;
  \<^item> \<open>TSync\<close>: a single frame for the publisher of a session; \<open>TRemove\<close>: the goroutine that removes
    a subscriber that could not be sent to.
\<close>

datatype task =
    TAdmit bool nat string conn nat
  | TConn nat string conn nat
  | TRegPub nat nat conn envelope
  | TGreet nat nat
  | TPub nat nat
  | TDrop nat
  | TRegSub nat nat conn string envelope
  | TNotify nat nat string envelope
  | TSub nat nat string
  | TSubExit nat string
  | TSubCheck nat
  | TSync nat nat envelope
  | TRemove nat string

text \<open>What the environment decides in a step: the time and the scheduler's picks.\<close>

record sched =
  sc_now :: time
  sc_pick :: "nat \<Rightarrow> bool"

text \<open>The end of a connection's goroutine: the two deferred subtractions, as part of its last step.\<close>

definition finish :: "server \<Rightarrow> server" where
  "finish srv = upd_metrics (\<lambda>m. m\<lparr>mt_ActiveConnections := mt_ActiveConnections m - 1\<rparr>)
     (srv\<lparr>sv_activeConns := sv_activeConns srv - 1\<rparr>)"

definition upd_heap :: "(heap \<Rightarrow> heap) \<Rightarrow> server \<Rightarrow> server" where
  "upd_heap f srv = srv\<lparr>sv_heap := f (sv_heap srv)\<rparr>"

text \<open>From the accepted connection to the look-up of its session.\<close>

definition step_conn :: "sched \<Rightarrow> nat \<Rightarrow> string \<Rightarrow> conn \<Rightarrow> nat \<Rightarrow> server \<Rightarrow> server \<times> task list" where
  "step_conn sc key raddr c got srv =
     (case receive_first (sc_now sc) got raddr c srv of
        (Inl _, srv) \<Rightarrow> (finish srv, [])
      | (Inr (env, c, remoteAddr), srv) \<Rightarrow>
          if env_MsgType env = MsgTypePAKEInitPub then
            (case getOrCreateSession (sc_now sc) (env_SessionID env) srv of
               (s, srv) \<Rightarrow> (srv, [TRegPub s key c env]))
          else if env_MsgType env = MsgTypePAKEInitSub then
            (case getOrCreateSession (sc_now sc) (env_SessionID env) srv of
               (s, srv) \<Rightarrow> (srv, [TRegSub s key c raddr env]))
          else if env_MsgType env = MsgTypeSyncReq then
            (case lookupSession (env_SessionID env) srv of
               None \<Rightarrow> (finish (srv\<lparr>sv_rateLimiter :=
                           RecordFailure (sc_now sc) remoteAddr (sv_rateLimiter srv)\<rparr>), [])
             | Some s \<Rightarrow> (srv, [TSync s key env]))
          else
            (finish (count_malformed (srv\<lparr>sv_rateLimiter :=
               RecordFailure (sc_now sc) remoteAddr (sv_rateLimiter srv)\<rparr>)), []))"

definition step_regpub :: "nat \<Rightarrow> nat \<Rightarrow> conn \<Rightarrow> envelope \<Rightarrow> server \<Rightarrow> server \<times> task list" where
  "step_regpub s key c env srv =
     (case RegisterPublisher s key c env (sv_heap srv) of
        (Inl _, h) \<Rightarrow> (finish (srv\<lparr>sv_heap := h\<rparr>), [])
      | (Inr i, h) \<Rightarrow> (srv\<lparr>sv_heap := h\<rparr>, [TGreet s i]))"

definition greet_one :: "bool \<Rightarrow> nat \<Rightarrow> string \<times> nat \<Rightarrow> heap \<Rightarrow> heap" where
  "greet_one pick i = (\<lambda>(_, j) h.
     case cl_initialEnv (hp_clients h ! j) of
       None \<Rightarrow> h
     | Some env \<Rightarrow> upd_client i (\<lambda>c. snd (SendFrame pick c env)) h)"

definition step_greet :: "sched \<Rightarrow> nat \<Rightarrow> nat \<Rightarrow> server \<Rightarrow> server \<times> task list" where
  "step_greet sc s i srv =
     (upd_heap (fold (greet_one (sc_pick sc i) i) (se_subscribers (sess srv s))) srv, [TPub s i])"

text \<open>One iteration of \<open>loopPublisher\<close>.\<close>

definition step_pub :: "sched \<Rightarrow> nat \<Rightarrow> nat \<Rightarrow> server \<Rightarrow> server \<times> task list" where
  "step_pub sc s i srv =
     (case Decode (cl_netConn (clnt srv i)) of
        (r, cn) \<Rightarrow>
          let srv = upd_heap (upd_client i (\<lambda>c. c\<lparr>cl_netConn := cn\<rparr>)) srv in
          case r of
            Inl e \<Rightarrow> (srv, [TDrop s])
          | Inr env \<Rightarrow>
              if env_MsgType env = MsgTypeHeartbeat then (srv, [TPub s i])
              else
                let close = (env_MsgType env = MsgTypeClose);
                    srv = (if close then srv
                           else upd_metrics (\<lambda>m. m\<lparr>mt_MessagesRelayedTotal := mt_MessagesRelayedTotal m + 1,
                                  mt_BytesTransferredTotal := mt_BytesTransferredTotal m
                                    + of_nat (length (env_Payload env))\<rparr>) srv)
                in (case ForwardFromPublisher (sc_pick sc) s env (sv_heap srv) of
                      (failed, hit, h) \<Rightarrow>
                        (srv\<lparr>sv_heap := h\<rparr>,
                         (if close then TDrop s else TPub s i) # map (TRemove s) failed)))"

text \<open>One iteration of \<open>loopSubscriber\<close>.\<close>

definition step_sub :: "sched \<Rightarrow> nat \<Rightarrow> nat \<Rightarrow> string \<Rightarrow> server \<Rightarrow> server \<times> task list" where
  "step_sub sc s i addr srv =
     (case Decode (cl_netConn (clnt srv i)) of
        (r, cn) \<Rightarrow>
          let srv = upd_heap (upd_client i (\<lambda>c. c\<lparr>cl_netConn := cn\<rparr>)) srv in
          case r of
            Inl e \<Rightarrow> (srv, [TSubExit s addr])
          | Inr env \<Rightarrow>
              if env_MsgType env = MsgTypeHeartbeat then (srv, [TSub s i addr])
              else if env_MsgType env = MsgTypeSyncReq \<or> env_MsgType env = MsgTypeKeyConfirm
                      \<or> env_MsgType env = MsgTypeChunkAck then
                (upd_heap (\<lambda>h. snd (ForwardToPublisher (sc_pick sc i) s env h)) srv, [TSub s i addr])
              else (srv, [TSub s i addr]))"

fun task_step :: "sched \<Rightarrow> task \<Rightarrow> server \<Rightarrow> server \<times> task list" where
  "task_step sc (TAdmit tcp key raddr c got) srv =
     (upd_metrics (\<lambda>m. m\<lparr>mt_ActiveConnections := mt_ActiveConnections m + 1\<rparr>)
        (srv\<lparr>sv_activeConns := sv_activeConns srv + 1\<rparr>), [TConn key raddr c got])"
| "task_step sc (TConn key raddr c got) srv = step_conn sc key raddr c got srv"
| "task_step sc (TRegPub s key c env) srv = step_regpub s key c env srv"
| "task_step sc (TGreet s i) srv = step_greet sc s i srv"
| "task_step sc (TPub s i) srv = step_pub sc s i srv"
| "task_step sc (TDrop s) srv = (finish (removeSession (se_sessionID (sess srv s)) srv), [])"
| "task_step sc (TRegSub s key c raddr env) srv =
     (case RegisterSubscriber s key c raddr env (sv_heap srv) of
        ((i, addr), h) \<Rightarrow> (srv\<lparr>sv_heap := h\<rparr>, [TNotify s i addr env]))"
| "task_step sc (TNotify s i addr env) srv =
     (upd_heap (\<lambda>h. snd (ForwardToPublisher (sc_pick sc i) s env h)) srv, [TSub s i addr])"
| "task_step sc (TSub s i addr) srv = step_sub sc s i addr srv"
| "task_step sc (TSubExit s addr) srv = (upd_heap (RemoveSubscriber s addr) srv, [TSubCheck s])"
| "task_step sc (TSubCheck s) srv =
     (if se_publisher (sess srv s) = None \<and> se_subscribers (sess srv s) = [] then (srv, [TDrop s])
      else (finish srv, []))"
| "task_step sc (TSync s key env) srv =
     (case se_publisher (sess srv s) of
        None \<Rightarrow> (finish srv, [])
      | Some p \<Rightarrow>
          if cl_key (clnt srv p) \<noteq> key
          then (finish (upd_heap (\<lambda>h. snd (ForwardToPublisher (sc_pick sc p) s env h)) srv), [])
          else (finish srv, []))"
| "task_step sc (TRemove s addr) srv = (upd_heap (RemoveSubscriber s addr) srv, [])"

section \<open>The server as a machine\<close>

text \<open>
  Events:
  \<^item> \<open>EvAccept\<close>: the loop of \<open>Start\<close> has a connection and compares the number of connections with the
    limit. The loop is one goroutine: it accepts nothing while a connection it has let pass is not
    counted yet.
  \<^item> \<open>EvWebSocket\<close>: a handler of the WebSocket server makes the same comparison; every request has its
    own goroutine. The connection stands for the bytes the frames carry (theory \<open>WebSocket\<close>).
  \<^item> \<open>EvTask\<close>: the \<open>k\<close>-th task makes a step; \<open>EvWriter\<close>: a subscriber's writer makes an iteration;
    \<open>EvCloseNet\<close>: the socket of a closed subscriber is closed.
  \<^item> \<open>EvTick\<close>: the ticker fires; \<open>EvCloseAll\<close>: the server shuts down; \<open>EvTrustProxy\<close> and \<open>EvRateLimiting\<close>:
    the server is configured.
\<close>

datatype event =
    EvAccept nat string conn nat
  | EvWebSocket nat string conn nat
  | EvTask nat sched
  | EvWriter nat bool
  | EvCloseNet nat
  | EvTick time
  | EvCloseAll
  | EvTrustProxy bool
  | EvRateLimiting bool

type_synonym sys = "server \<times> task list"

text \<open>A connection of the TCP loop that was compared with the limit and is not counted yet.\<close>

fun tcp_pending :: "task \<Rightarrow> bool" where
  "tcp_pending (TAdmit tcp key raddr c got) = tcp"
| "tcp_pending _ = False"

fun sys_step :: "event \<Rightarrow> sys \<Rightarrow> sys" where
  "sys_step (EvAccept key raddr c got) (srv, ts) =
     (if list_ex tcp_pending ts \<or> MaxActiveConnections \<le> sv_activeConns srv then (srv, ts)
      else (srv, ts @ [TAdmit True key raddr c got]))"
| "sys_step (EvWebSocket key raddr c got) (srv, ts) =
     (if MaxActiveConnections \<le> sv_activeConns srv then (srv, ts)
      else (srv, ts @ [TAdmit False key raddr c got]))"
| "sys_step (EvTask k sc) (srv, ts) =
     (if k < length ts then
        (case task_step sc (ts ! k) srv of (srv', new) \<Rightarrow> (srv', take k ts @ new @ drop (Suc k) ts))
      else (srv, ts))"
| "sys_step (EvWriter i pick) (srv, ts) = (upd_heap (upd_client i (writeLoop_step pick)) srv, ts)"
| "sys_step (EvCloseNet i) (srv, ts) = (upd_heap (upd_client i close_netConn) srv, ts)"
| "sys_step (EvTick now) (srv, ts) =
     (reapStaleSessions now
        (srv\<lparr>sv_rateLimiter := CleanupStale now (15 * 60 * 1000000000) (sv_rateLimiter srv)\<rparr>), ts)"
| "sys_step EvCloseAll (srv, ts) = (CloseAll srv, ts)"
| "sys_step (EvTrustProxy trust) (srv, ts) = (SetTrustProxy trust srv, ts)"
| "sys_step (EvRateLimiting enabled) (srv, ts) = (SetRateLimiting enabled srv, ts)"

definition sys_init :: sys where
  "sys_init = (NewServer, [])"

end
