(* ===== verification/Relay_Inv.thy ===== *)
theory Relay_Inv
  imports Relay_Server
begin

text \<open>
  The invariant of the relay server and its preservation by every event: sessions own disjoint
  sets of clients, the table holds open sessions under their own identifier, queues are
  bounded, tasks refer to existing objects, and the gauges count what they are meant to count.
\<close>

section \<open>The heap\<close>

definition client_ok :: "client \<Rightarrow> bool" where
  "client_ok c \<longleftrightarrow> length (cl_sendCh c) \<le> SubscriberQueueSize \<and> (cl_role c \<noteq> 2 \<longrightarrow> cl_sendCh c = [])"

definition members :: "rsession \<Rightarrow> nat set" where
  "members x = set_option (se_publisher x) \<union> snd ` set (se_subscribers x)"

definition sess_ok :: "client list \<Rightarrow> rsession \<Rightarrow> bool" where
  "sess_ok cs x \<longleftrightarrow>
     (\<forall>p. se_publisher x = Some p \<longrightarrow> p < length cs \<and> cl_role (cs ! p) = 1)
     \<and> (\<forall>i \<in> snd ` set (se_subscribers x). i < length cs \<and> cl_role (cs ! i) = 2)
     \<and> distinct (map fst (se_subscribers x)) \<and> distinct (map snd (se_subscribers x))"

definition heap_ok :: "heap \<Rightarrow> bool" where
  "heap_ok h \<longleftrightarrow> list_all client_ok (hp_clients h)
     \<and> list_all (sess_ok (hp_clients h)) (hp_sessions h)
     \<and> (\<forall>s < length (hp_sessions h). \<forall>t < length (hp_sessions h). s \<noteq> t \<longrightarrow>
          members (hp_sessions h ! s) \<inter> members (hp_sessions h ! t) = {})"

text \<open>Updates of a client that keep its role and its bound.\<close>

definition keeps :: "(client \<Rightarrow> client) \<Rightarrow> bool" where
  "keeps f \<longleftrightarrow> (\<forall>c. cl_role (f c) = cl_role c \<and> (client_ok c \<longrightarrow> client_ok (f c)))"

lemma keeps_comp: "keeps f \<Longrightarrow> keeps g \<Longrightarrow> keeps (\<lambda>c. f (g c))"
  by (simp add: keeps_def)

lemma keeps_ClientConn_Close [simp]: "keeps ClientConn_Close"
  by (simp add: keeps_def client_ok_def ClientConn_Close_def Let_def)

lemma keeps_close_netConn [simp]: "keeps close_netConn"
  by (simp add: keeps_def client_ok_def close_netConn_def)

lemma keeps_netConn [simp]: "keeps (\<lambda>c. c\<lparr>cl_netConn := g c\<rparr>)"
  by (simp add: keeps_def client_ok_def)

lemma keeps_SendFrame [simp]: "keeps (\<lambda>c. snd (SendFrame pick c env))"
  by (auto simp: keeps_def client_ok_def SendFrame_def SendFrameWithTimeout_def SubscriberQueueSize_def Let_def
      split: prod.splits sum.splits)

lemma keeps_writeLoop_step [simp]: "keeps (writeLoop_step pick)"
  by (auto simp: keeps_def client_ok_def writeLoop_step_def ClientConn_Close_def Let_def
      split: list.splits prod.splits sum.splits)

text \<open>Heaps of the same shape: same sessions, same clients with the same roles, bounds kept.\<close>

definition same_shape :: "heap \<Rightarrow> heap \<Rightarrow> bool" where
  "same_shape h h' \<longleftrightarrow> hp_sessions h' = hp_sessions h
     \<and> map cl_role (hp_clients h') = map cl_role (hp_clients h)
     \<and> (list_all client_ok (hp_clients h) \<longrightarrow> list_all client_ok (hp_clients h'))"

lemma same_shape_refl [simp]: "same_shape h h"
  by (simp add: same_shape_def)

lemma same_shape_trans [trans]: "same_shape h h' \<Longrightarrow> same_shape h' h'' \<Longrightarrow> same_shape h h''"
  by (simp add: same_shape_def)

lemma same_shape_upd_client: "keeps f \<Longrightarrow> same_shape h (upd_client i f h)"
proof (cases "i < length (hp_clients h)")
  case True
  assume "keeps f"
  moreover have "map cl_role ((hp_clients h)[i := f (hp_clients h ! i)]) = (map cl_role (hp_clients h))[i := cl_role (f (hp_clients h ! i))]"
    by (simp add: map_update)
  ultimately show ?thesis
    using True by (auto simp: same_shape_def upd_client_def keeps_def list_all_length nth_list_update map_update [symmetric])
qed (simp add: same_shape_def upd_client_def list_update_beyond)

lemma same_shape_lengths:
  "same_shape h h' \<Longrightarrow> length (hp_clients h') = length (hp_clients h) \<and> length (hp_sessions h') = length (hp_sessions h)"
  unfolding same_shape_def by (metis length_map)

lemma sess_ok_roles: "map cl_role cs' = map cl_role cs \<Longrightarrow> sess_ok cs' x = sess_ok cs x"
proof -
  assume r: "map cl_role cs' = map cl_role cs"
  then have "length cs' = length cs" by (metis length_map)
  moreover have "cl_role (cs' ! i) = cl_role (cs ! i)" if "i < length cs" for i
    using r that calculation by (metis nth_map)
  ultimately show ?thesis by (auto simp: sess_ok_def)
qed

lemma heap_ok_same_shape: "heap_ok h \<Longrightarrow> same_shape h h' \<Longrightarrow> heap_ok h'"
  by (auto simp: heap_ok_def same_shape_def sess_ok_roles [of "hp_clients h'" "hp_clients h"] list_all_iff)

text \<open>Allocation and the change of one session.\<close>

lemma members_bound: "heap_ok h \<Longrightarrow> s < length (hp_sessions h) \<Longrightarrow> i \<in> members (hp_sessions h ! s) \<Longrightarrow> i < length (hp_clients h)"
  by (auto simp: heap_ok_def list_all_length sess_ok_def members_def)

lemma sess_ok_append: "sess_ok cs x \<Longrightarrow> sess_ok (cs @ [c]) x"
  by (auto simp: sess_ok_def nth_append)

lemma heap_ok_alloc:
  "heap_ok h \<Longrightarrow> client_ok c \<Longrightarrow> heap_ok (h\<lparr>hp_clients := hp_clients h @ [c]\<rparr>)"
  by (auto simp: heap_ok_def list_all_iff sess_ok_append)

lemma heap_ok_upd_session:
  assumes ok: "heap_ok h" and s: "s < length (hp_sessions h)"
    and new: "sess_ok (hp_clients h) (f (hp_sessions h ! s))"
    and mem: "members (f (hp_sessions h ! s)) \<subseteq> members (hp_sessions h ! s) \<union> N"
    and fresh: "\<And>t. t < length (hp_sessions h) \<Longrightarrow> members (hp_sessions h ! t) \<inter> N = {}"
  shows "heap_ok (upd_session s f h)"
proof -
  have "members (hp_sessions h ! t) \<inter> members (f (hp_sessions h ! s)) = {}"
    if "t < length (hp_sessions h)" "t \<noteq> s" for t
    using ok s mem fresh [OF that(1)] that by (fastforce simp: heap_ok_def)
  then show ?thesis
    using ok s new by (auto simp: heap_ok_def upd_session_def list_all_length nth_list_update Int_commute)
qed

lemma forward_loop_shape: "forward_loop pick env subs h = (failed, hit, h') \<Longrightarrow> same_shape h h'"
proof (induction subs arbitrary: h failed hit)
  case (Cons a subs)
  obtain addr i where a: "a = (addr, i)" by fastforce
  obtain r c where r: "SendFrame (pick i) (hp_clients h ! i) env = (r, c)" by fastforce
  obtain f' hit' h'' where f: "forward_loop pick env subs (upd_client i (\<lambda>_. c) h) = (f', hit', h'')"
    by (metis prod_cases3)
  have "h'' = h'" using Cons.prems a r f by (auto split: sum.splits)
  moreover have "upd_client i (\<lambda>_. c) h = upd_client i (\<lambda>c. snd (SendFrame (pick i) c env)) h"
    by (simp add: upd_client_def r)
  ultimately show ?case
    using same_shape_upd_client [OF keeps_SendFrame, of h i "pick i" env] Cons.IH f
    by (metis same_shape_trans)
qed simp

lemma ForwardToPublisher_shape: "same_shape h (snd (ForwardToPublisher pick s env h))"
proof (cases "se_publisher (hp_sessions h ! s)")
  case (Some p)
  have "snd (ForwardToPublisher pick s env h) = upd_client p (\<lambda>c. snd (SendFrame pick c env)) h"
    using Some by (auto simp: ForwardToPublisher_def upd_client_def split: prod.splits)
  then show ?thesis by (simp add: same_shape_upd_client)
qed (simp add: ForwardToPublisher_def)

lemma fold_shape:
  assumes "\<And>x h. x \<in> set xs \<Longrightarrow> same_shape h (f x h)"
  shows "same_shape h (fold f xs h)"
  using assms by (induction xs arbitrary: h) (auto intro: same_shape_trans)

lemma greet_one_shape: "same_shape h (greet_one pick i x h)"
  by (auto simp: greet_one_def same_shape_upd_client split: option.splits prod.splits)

section \<open>Operations on sessions\<close>

text \<open>
  What the table needs of an operation on the heap: nothing disappears, and no session changes
  its identifier or is closed.
\<close>

definition keeps_table :: "heap \<Rightarrow> heap \<Rightarrow> bool" where
  "keeps_table h h' \<longleftrightarrow> length (hp_clients h) \<le> length (hp_clients h')
     \<and> length (hp_sessions h') = length (hp_sessions h)
     \<and> (\<forall>t < length (hp_sessions h). se_sessionID (hp_sessions h' ! t) = se_sessionID (hp_sessions h ! t)
          \<and> se_closed (hp_sessions h' ! t) = se_closed (hp_sessions h ! t))"

lemma keeps_table_trans: "keeps_table h h' \<Longrightarrow> keeps_table h' h'' \<Longrightarrow> keeps_table h h''"
  by (simp add: keeps_table_def)

lemma same_shape_keeps_table: "same_shape h h' \<Longrightarrow> keeps_table h h'"
  using same_shape_lengths [of h h'] by (simp add: keeps_table_def same_shape_def)

lemma keeps_table_alloc: "keeps_table h (h\<lparr>hp_clients := hp_clients h @ [c]\<rparr>)"
  by (simp add: keeps_table_def)

lemma keeps_table_upd_session:
  assumes "\<And>x. se_sessionID (f x) = se_sessionID x" "\<And>x. se_closed (f x) = se_closed x"
  shows "keeps_table h (upd_session s f h)"
  unfolding keeps_table_def upd_session_def
proof (intro conjI allI impI)
  fix t
  show "se_sessionID (hp_sessions (h\<lparr>hp_sessions := (hp_sessions h)[s := f (hp_sessions h ! s)]\<rparr>) ! t)
      = se_sessionID (hp_sessions h ! t)" if "t < length (hp_sessions h)"
    using that assms by (cases "t = s") simp_all
  show "se_closed (hp_sessions (h\<lparr>hp_sessions := (hp_sessions h)[s := f (hp_sessions h ! s)]\<rparr>) ! t)
      = se_closed (hp_sessions h ! t)" if "t < length (hp_sessions h)"
    using that assms by (cases "t = s") simp_all
qed simp_all

lemma client_ok_New [simp]: "client_ok (NewClientConn key c role e)"
  by (simp add: client_ok_def NewClientConn_def)

lemma alloc_fresh:
  "heap_ok h \<Longrightarrow> t < length (hp_sessions h) \<Longrightarrow> members (hp_sessions h ! t) \<inter> {length (hp_clients h)} = {}"
  using members_bound by fastforce

text \<open>A new client becomes publisher of a session.\<close>

lemma set_publisher_ok:
  assumes ok: "heap_ok h" and s: "s < length (hp_sessions h)" and r: "set_publisher s key c env h = (i, h')"
  shows "heap_ok h' \<and> keeps_table h h' \<and> i < length (hp_clients h')"
proof -
  let ?f = "\<lambda>x. x\<lparr>se_publisher := Some (length (hp_clients h))\<rparr>"
  let ?h = "h\<lparr>hp_clients := hp_clients h @ [NewClientConn key c 1 (Some env)]\<rparr>"
  have h': "h' = upd_session s ?f ?h" "i = length (hp_clients h)"
    using r by (auto simp: set_publisher_def alloc_client_def)
  have ok': "heap_ok ?h" by (simp add: heap_ok_alloc ok)
  have "heap_ok (upd_session s ?f ?h)"
  proof (rule heap_ok_upd_session [where N = "{length (hp_clients h)}", OF ok'])
    show "s < length (hp_sessions ?h)" using s by simp
    have "sess_ok (hp_clients ?h) (hp_sessions h ! s)"
      using ok' s by (simp add: heap_ok_def list_all_length)
    then show "sess_ok (hp_clients ?h) (?f (hp_sessions ?h ! s))"
      by (simp add: sess_ok_def NewClientConn_def)
    show "members (?f (hp_sessions ?h ! s)) \<subseteq> members (hp_sessions ?h ! s) \<union> {length (hp_clients h)}"
      by (auto simp: members_def)
    show "members (hp_sessions ?h ! t) \<inter> {length (hp_clients h)} = {}" if "t < length (hp_sessions ?h)" for t
      using alloc_fresh [OF ok, of t] that by simp
  qed
  moreover have "keeps_table h (upd_session s ?f ?h)"
    by (rule keeps_table_trans [OF keeps_table_alloc keeps_table_upd_session]) simp_all
  ultimately show ?thesis using h' by (simp add: upd_session_def)
qed

lemma RegisterPublisher_ok:
  assumes ok: "heap_ok h" and s: "s < length (hp_sessions h)" and r: "RegisterPublisher s key c env h = (r, h')"
  shows "heap_ok h' \<and> keeps_table h h' \<and> (\<forall>i. r = Inr i \<longrightarrow> i < length (hp_clients h'))"
proof (cases "se_publisher (hp_sessions h ! s)")
  case None
  then obtain i where "set_publisher s key c env h = (i, h')" "r = Inr i"
    using r by (cases "set_publisher s key c env h") (simp add: RegisterPublisher_def)
  then show ?thesis using set_publisher_ok [OF ok s] by blast
next
  case (Some p)
  let ?h = "upd_client p ClientConn_Close h"
  have sh: "same_shape h ?h" by (simp add: same_shape_upd_client)
  then have h: "heap_ok ?h" "keeps_table h ?h" "s < length (hp_sessions ?h)"
    using ok s heap_ok_same_shape same_shape_keeps_table same_shape_lengths by auto
  show ?thesis
  proof (cases "IsClosed (hp_clients h ! p)")
    case True
    then obtain i where "set_publisher s key c env ?h = (i, h')" "r = Inr i"
      using r Some by (cases "set_publisher s key c env ?h") (simp add: RegisterPublisher_def)
    then show ?thesis using set_publisher_ok [OF h(1,3)] keeps_table_trans [OF h(2)] by blast
  next
    case False
    then show ?thesis using r Some ok by (auto simp: RegisterPublisher_def keeps_table_def)
  qed
qed

lemma distinct_snd_update:
  "distinct (map snd xs) \<Longrightarrow> v \<notin> snd ` set xs \<Longrightarrow> distinct (map snd (AList.update k v xs))"
proof (induction xs)
  case (Cons x xs)
  have "snd ` set (AList.update k v xs) \<subseteq> insert v (snd ` set xs)"
    by (induction xs) auto
  with Cons show ?case by (cases x) auto
qed simp

lemma set_update_snd: "snd ` set (AList.update k v xs) \<subseteq> insert v (snd ` set xs)"
  by (induction xs) auto

lemma sess_ok_add_subscriber:
  assumes "sess_ok cs x" "i < length cs" "cl_role (cs ! i) = 2" "i \<notin> snd ` set (se_subscribers x)"
  shows "sess_ok cs (x\<lparr>se_subscribers := AList.update k i (se_subscribers x)\<rparr>)"
proof -
  have "j < length cs \<and> cl_role (cs ! j) = 2" if "j \<in> snd ` set (AList.update k i (se_subscribers x))" for j
  proof -
    have "j = i \<or> j \<in> snd ` set (se_subscribers x)" using subsetD [OF set_update_snd that] by simp
    then show ?thesis using assms(1-3) unfolding sess_ok_def by blast
  qed
  then show ?thesis
    using assms by (simp add: sess_ok_def distinct_update distinct_snd_update)
qed

lemma install_subscriber_ok:
  assumes ok: "heap_ok h" and s: "s < length (hp_sessions h)"
  shows "heap_ok (upd_session s (\<lambda>x. x\<lparr>se_subscribers := AList.update k (length (hp_clients h)) (se_subscribers x)\<rparr>)
           (h\<lparr>hp_clients := hp_clients h @ [NewClientConn key c 2 e], hp_subKey := n\<rparr>))" (is "heap_ok (upd_session s ?f ?h)")
proof (rule heap_ok_upd_session [where N = "{length (hp_clients h)}"])
  have "same_shape (h\<lparr>hp_clients := hp_clients h @ [NewClientConn key c 2 e]\<rparr>) ?h"
    by (simp add: same_shape_def)
  then show ok': "heap_ok ?h"
    using heap_ok_alloc [OF ok client_ok_New] heap_ok_same_shape by blast
  show "s < length (hp_sessions ?h)" using s by simp
  have "sess_ok (hp_clients ?h) (hp_sessions h ! s)"
    using ok' s by (simp add: heap_ok_def list_all_length)
  moreover have "length (hp_clients h) \<notin> snd ` set (se_subscribers (hp_sessions h ! s))"
    using alloc_fresh [OF ok s] by (simp add: members_def)
  ultimately show "sess_ok (hp_clients ?h) (?f (hp_sessions ?h ! s))"
    using sess_ok_add_subscriber [of "hp_clients ?h" "hp_sessions h ! s" "length (hp_clients h)" k]
    by (simp add: NewClientConn_def)
  show "members (?f (hp_sessions ?h ! s)) \<subseteq> members (hp_sessions ?h ! s) \<union> {length (hp_clients h)}"
    using set_update_snd [of k "length (hp_clients h)" "se_subscribers (hp_sessions h ! s)"]
    unfolding members_def by auto
  show "members (hp_sessions ?h ! t) \<inter> {length (hp_clients h)} = {}" if "t < length (hp_sessions ?h)" for t
    using alloc_fresh [OF ok, of t] that by simp
qed

lemma RegisterSubscriber_ok:
  assumes ok: "heap_ok h" and s: "s < length (hp_sessions h)"
    and r: "RegisterSubscriber s key c raddr env h = ((i, addr), h')"
  shows "heap_ok h' \<and> keeps_table h h' \<and> i < length (hp_clients h')"
proof -
  have "h' = upd_session s (\<lambda>x. x\<lparr>se_subscribers := AList.update addr (length (hp_clients h)) (se_subscribers x)\<rparr>)
           (h\<lparr>hp_clients := hp_clients h @ [NewClientConn key c 2 (Some env)], hp_subKey := hp_subKey h + 1\<rparr>)"
    and "i = length (hp_clients h)"
    using r by (auto simp: RegisterSubscriber_def alloc_client_def Let_def)
  moreover have "keeps_table h (h\<lparr>hp_clients := hp_clients h @ [NewClientConn key c 2 (Some env)], hp_subKey := hp_subKey h + 1\<rparr>)"
    by (simp add: keeps_table_def)
  then have "keeps_table h (upd_session s (\<lambda>x. x\<lparr>se_subscribers := AList.update addr (length (hp_clients h)) (se_subscribers x)\<rparr>)
           (h\<lparr>hp_clients := hp_clients h @ [NewClientConn key c 2 (Some env)], hp_subKey := hp_subKey h + 1\<rparr>))"
    by (rule keeps_table_trans [OF _ keeps_table_upd_session]) simp_all
  moreover have "length (hp_clients (upd_session s f k)) = length (hp_clients k)" for f k
    by (simp add: upd_session_def)
  ultimately show ?thesis
    using install_subscriber_ok [OF ok s] by simp
qed

lemma distinct_delete_snd: "distinct (map snd xs) \<Longrightarrow> distinct (map snd (AList.delete k xs))"
  by (simp add: AList.delete_eq distinct_map_filter)

lemma RemoveSubscriber_ok:
  assumes ok: "heap_ok h" and s: "s < length (hp_sessions h)"
  shows "heap_ok (RemoveSubscriber s addr h) \<and> keeps_table h (RemoveSubscriber s addr h)"
proof (cases "map_of (se_subscribers (hp_sessions h ! s)) addr")
  case None
  then show ?thesis using ok by (simp add: RemoveSubscriber_def keeps_table_def)
next
  case (Some i)
  let ?h = "upd_session s (\<lambda>x. x\<lparr>se_subscribers := AList.delete addr (se_subscribers x)\<rparr>) h"
  have x: "sess_ok (hp_clients h) (hp_sessions h ! s)"
    using ok s by (simp add: heap_ok_def list_all_length)
  have sub: "set (AList.delete addr xs) \<subseteq> set xs" for xs :: "(string \<times> nat) list" by (auto simp: AList.delete_eq)
  have "heap_ok ?h"
    by (rule heap_ok_upd_session [where N = "{}", OF ok s])
      (use x sub in \<open>auto simp: sess_ok_def members_def distinct_delete distinct_delete_snd\<close>)
  moreover have "keeps_table h ?h" by (rule keeps_table_upd_session) simp_all
  moreover have "same_shape ?h (RemoveSubscriber s addr h)"
    using Some by (simp add: RemoveSubscriber_def same_shape_upd_client)
  ultimately show ?thesis
    using heap_ok_same_shape same_shape_keeps_table keeps_table_trans by blast
qed

text \<open>Closing a session: it loses its members, keeps its identifier, and no other session changes.\<close>

lemma RelaySession_Close_shape:
  assumes "\<not> se_closed (hp_sessions h ! s)"
  obtains h1 where "same_shape h h1"
    and "RelaySession_Close s h = upd_session s (\<lambda>x. x\<lparr>se_closed := True, se_publisher := None, se_subscribers := []\<rparr>) h1"
proof -
  let ?x = "hp_sessions h ! s"
  let ?h0 = "case se_publisher ?x of None \<Rightarrow> h | Some p \<Rightarrow> upd_client p ClientConn_Close h"
  let ?h1 = "fold (\<lambda>(_, i). upd_client i ClientConn_Close) (se_subscribers ?x) ?h0"
  have "same_shape h ?h0" by (simp add: same_shape_upd_client split: option.splits)
  moreover have "same_shape ?h0 ?h1"
    by (rule fold_shape) (auto simp: same_shape_upd_client)
  ultimately have "same_shape h ?h1" by (rule same_shape_trans)
  moreover have "RelaySession_Close s h = upd_session s (\<lambda>x. x\<lparr>se_closed := True, se_publisher := None, se_subscribers := []\<rparr>) ?h1"
    using assms by (simp add: RelaySession_Close_def Let_def)
  ultimately show thesis using that by blast
qed

lemma RelaySession_Close_sessions:
  "hp_sessions (RelaySession_Close s h) =
     (if se_closed (hp_sessions h ! s) then hp_sessions h
      else (hp_sessions h)[s := (hp_sessions h ! s)\<lparr>se_closed := True, se_publisher := None, se_subscribers := []\<rparr>])"
proof (cases "se_closed (hp_sessions h ! s)")
  case True
  then show ?thesis by (simp add: RelaySession_Close_def Let_def)
next
  case False
  from RelaySession_Close_shape [OF False] obtain h1 where "same_shape h h1"
    "RelaySession_Close s h = upd_session s (\<lambda>x. x\<lparr>se_closed := True, se_publisher := None, se_subscribers := []\<rparr>) h1" .
  then show ?thesis using False by (simp add: same_shape_def upd_session_def)
qed

lemma RelaySession_Close_ok:
  assumes ok: "heap_ok h" and s: "s < length (hp_sessions h)"
  shows "heap_ok (RelaySession_Close s h) \<and> length (hp_clients (RelaySession_Close s h)) = length (hp_clients h)
     \<and> length (hp_sessions (RelaySession_Close s h)) = length (hp_sessions h)"
proof (cases "se_closed (hp_sessions h ! s)")
  case True
  then show ?thesis using ok by (simp add: RelaySession_Close_def Let_def)
next
  case False
  from RelaySession_Close_shape [OF False] obtain h1 where h1: "same_shape h h1"
    "RelaySession_Close s h = upd_session s (\<lambda>x. x\<lparr>se_closed := True, se_publisher := None, se_subscribers := []\<rparr>) h1" .
  have ok1: "heap_ok h1" and s1: "s < length (hp_sessions h1)"
    using heap_ok_same_shape [OF ok h1(1)] same_shape_lengths [OF h1(1)] s by auto
  have "heap_ok (upd_session s (\<lambda>x. x\<lparr>se_closed := True, se_publisher := None, se_subscribers := []\<rparr>) h1)"
    by (rule heap_ok_upd_session [where N = "{}", OF ok1 s1]) (simp_all add: sess_ok_def members_def)
  then show ?thesis
    using h1(2) same_shape_lengths [OF h1(1)] by (simp add: upd_session_def)
qed

section \<open>The invariant of the server\<close>

definition table_ok :: "server \<Rightarrow> bool" where
  "table_ok srv \<longleftrightarrow> distinct (map fst (sv_sessions srv))
     \<and> (\<forall>sid s. map_of (sv_sessions srv) sid = Some s \<longrightarrow> s < length (hp_sessions (sv_heap srv))
          \<and> se_sessionID (sess srv s) = sid \<and> \<not> se_closed (sess srv s))"

definition srv_ok :: "server \<Rightarrow> bool" where
  "srv_ok srv \<longleftrightarrow> heap_ok (sv_heap srv) \<and> table_ok srv"

fun task_ok :: "heap \<Rightarrow> task \<Rightarrow> bool" where
  "task_ok h (TAdmit tcp key raddr c got) = True"
| "task_ok h (TConn key raddr c got) = True"
| "task_ok h (TRegPub s key c env) = (s < length (hp_sessions h))"
| "task_ok h (TGreet s i) = (s < length (hp_sessions h) \<and> i < length (hp_clients h))"
| "task_ok h (TPub s i) = (s < length (hp_sessions h) \<and> i < length (hp_clients h))"
| "task_ok h (TDrop s) = (s < length (hp_sessions h))"
| "task_ok h (TRegSub s key c raddr env) = (s < length (hp_sessions h))"
| "task_ok h (TNotify s i addr env) = (s < length (hp_sessions h) \<and> i < length (hp_clients h))"
| "task_ok h (TSub s i addr) = (s < length (hp_sessions h) \<and> i < length (hp_clients h))"
| "task_ok h (TSubExit s addr) = (s < length (hp_sessions h))"
| "task_ok h (TSubCheck s) = (s < length (hp_sessions h))"
| "task_ok h (TSync s key env) = (s < length (hp_sessions h))"
| "task_ok h (TRemove s addr) = (s < length (hp_sessions h))"

definition larger :: "heap \<Rightarrow> heap \<Rightarrow> bool" where
  "larger h h' \<longleftrightarrow> length (hp_clients h) \<le> length (hp_clients h') \<and> length (hp_sessions h) \<le> length (hp_sessions h')"

lemma task_ok_larger: "larger h h' \<Longrightarrow> task_ok h t \<Longrightarrow> task_ok h' t"
  by (cases t) (auto simp: larger_def)

lemma larger_refl [simp]: "larger h h" by (simp add: larger_def)

lemma larger_trans: "larger h h' \<Longrightarrow> larger h' h'' \<Longrightarrow> larger h h''"
  by (auto simp: larger_def)

lemma keeps_table_larger: "keeps_table h h' \<Longrightarrow> larger h h'"
  by (simp add: keeps_table_def larger_def)

lemma same_shape_larger: "same_shape h h' \<Longrightarrow> larger h h'"
  by (simp add: keeps_table_larger same_shape_keeps_table)

text \<open>An operation that keeps the heap invariant and the table's view of the sessions.\<close>

lemma srv_ok_heap:
  assumes "srv_ok srv" and "heap_ok h" and "keeps_table (sv_heap srv) h"
    and "sv_heap srv' = h" and "sv_sessions srv' = sv_sessions srv"
  shows "srv_ok srv'"
  using assms by (fastforce simp: srv_ok_def table_ok_def keeps_table_def)

lemma srv_ok_frame:
  "srv_ok srv \<Longrightarrow> sv_heap srv' = sv_heap srv \<Longrightarrow> sv_sessions srv' = sv_sessions srv \<Longrightarrow> srv_ok srv'"
  by (simp add: srv_ok_def table_ok_def)

lemma finish_sel [simp]: "sv_heap (finish srv) = sv_heap srv" "sv_sessions (finish srv) = sv_sessions srv"
  by (simp_all add: finish_def)

lemma count_malformed_sel [simp]:
  "sv_heap (count_malformed srv) = sv_heap srv" "sv_sessions (count_malformed srv) = sv_sessions srv"
  "sv_activeConns (count_malformed srv) = sv_activeConns srv"
  "mt_ActiveConnections (sv_metrics (count_malformed srv)) = mt_ActiveConnections (sv_metrics srv)"
  "mt_ActiveSessions (sv_metrics (count_malformed srv)) = mt_ActiveSessions (sv_metrics srv)"
  by (simp_all add: count_malformed_def)

lemma srv_ok_finish [simp]: "srv_ok (finish srv) = srv_ok srv"
  by (simp add: srv_ok_def table_ok_def)

lemma srv_ok_upd_heap:
  "srv_ok srv \<Longrightarrow> heap_ok (f (sv_heap srv)) \<Longrightarrow> keeps_table (sv_heap srv) (f (sv_heap srv)) \<Longrightarrow>
   srv_ok (upd_heap f srv)"
  by (rule srv_ok_heap [where h = "f (sv_heap srv)"]) (simp_all add: upd_heap_def)

lemma srv_ok_upd_shape:
  assumes "srv_ok srv" and "same_shape (sv_heap srv) (f (sv_heap srv))"
  shows "srv_ok (upd_heap f srv)"
proof (rule srv_ok_upd_heap [OF assms(1)])
  show "heap_ok (f (sv_heap srv))"
    using assms heap_ok_same_shape by (auto simp: srv_ok_def)
  show "keeps_table (sv_heap srv) (f (sv_heap srv))"
    using assms(2) by (rule same_shape_keeps_table)
qed

lemma upd_heap_sel [simp]:
  "sv_heap (upd_heap f srv) = f (sv_heap srv)" "sv_sessions (upd_heap f srv) = sv_sessions srv"
  "sv_activeConns (upd_heap f srv) = sv_activeConns srv" "sv_metrics (upd_heap f srv) = sv_metrics srv"
  by (simp_all add: upd_heap_def)

section \<open>The session table\<close>

lemma table_entry:
  "table_ok srv \<Longrightarrow> map_of (sv_sessions srv) sid = Some s \<Longrightarrow>
     s < length (hp_sessions (sv_heap srv)) \<and> se_sessionID (sess srv s) = sid \<and> \<not> se_closed (sess srv s)"
  by (simp add: table_ok_def)

lemma heap_ok_new_session:
  assumes "heap_ok h"
  shows "heap_ok (h\<lparr>hp_sessions := hp_sessions h @ [NewRelaySession now sid]\<rparr>)"
proof -
  have "sess_ok cs (NewRelaySession now sid)" "members (NewRelaySession now sid) = {}" for cs
    by (simp_all add: sess_ok_def members_def NewRelaySession_def)
  then show ?thesis using assms by (simp add: heap_ok_def nth_append less_Suc_eq)
qed

lemma getOrCreateSession_ok:
  assumes ok: "srv_ok srv" and r: "getOrCreateSession now sid srv = (s, srv')"
  shows "srv_ok srv' \<and> larger (sv_heap srv) (sv_heap srv') \<and> s < length (hp_sessions (sv_heap srv'))"
proof (cases "map_of (sv_sessions srv) sid")
  case (Some t)
  then show ?thesis using ok r table_entry [of srv sid t] by (auto simp: getOrCreateSession_def srv_ok_def)
next
  case None
  let ?n = "length (hp_sessions (sv_heap srv))"
  let ?h = "(sv_heap srv)\<lparr>hp_sessions := hp_sessions (sv_heap srv) @ [NewRelaySession now sid]\<rparr>"
  have h: "sv_heap srv' = ?h" "s = ?n" "sv_sessions srv' = AList.update sid ?n (sv_sessions srv)"
    using r None by (auto simp: getOrCreateSession_def Let_def)
  have "heap_ok ?h" using ok heap_ok_new_session by (simp add: srv_ok_def)
  moreover have "table_ok srv'"
    using ok unfolding table_ok_def srv_ok_def h
    by (auto simp: distinct_update update_conv' nth_append NewRelaySession_def intro: less_SucI)
  ultimately show ?thesis using h by (simp add: srv_ok_def larger_def)
qed

lemma drop_session_ok:
  assumes ok: "srv_ok srv" and s: "map_of (sv_sessions srv) sid = Some s"
  shows "srv_ok (drop_session sid s srv) \<and> larger (sv_heap srv) (sv_heap (drop_session sid s srv))"
proof -
  have e: "s < length (hp_sessions (sv_heap srv))" "se_sessionID (sess srv s) = sid" "\<not> se_closed (sess srv s)"
    using table_entry ok s by (auto simp: srv_ok_def)
  have c: "heap_ok (RelaySession_Close s (sv_heap srv))"
    "larger (sv_heap srv) (RelaySession_Close s (sv_heap srv))"
    using RelaySession_Close_ok [OF _ e(1)] ok by (auto simp: srv_ok_def larger_def)
  have "table_ok (drop_session sid s srv)"
    using ok e unfolding table_ok_def srv_ok_def drop_session_def
    by (auto simp: distinct_delete delete_conv' RelaySession_Close_sessions nth_list_update split: if_splits)
  with c show ?thesis by (simp add: srv_ok_def drop_session_def)
qed

lemma drop_session_table:
  "sv_sessions (drop_session sid s srv) = AList.delete sid (sv_sessions srv)"
  by (simp add: drop_session_def)

lemma srv_ok_metrics [simp]: "srv_ok (upd_metrics f srv) = srv_ok srv"
  by (simp add: srv_ok_def table_ok_def)

lemma removeSession_ok:
  "srv_ok srv \<Longrightarrow> srv_ok (removeSession sid srv) \<and> larger (sv_heap srv) (sv_heap (removeSession sid srv))"
  using drop_session_ok by (auto simp: removeSession_def split: option.splits)

text \<open>Dropping several sessions of the table, one after the other.\<close>

lemma fold_drop_ok:
  assumes "\<And>sid s srv. srv_ok srv \<Longrightarrow> map_of (sv_sessions srv) sid = Some s \<Longrightarrow>
      srv_ok (f (sid, s) srv) \<and> larger (sv_heap srv) (sv_heap (f (sid, s) srv))
      \<and> (\<forall>sid'. sid' \<noteq> sid \<longrightarrow> map_of (sv_sessions (f (sid, s) srv)) sid' = map_of (sv_sessions srv) sid')"
    and "distinct (map fst xs)" and "\<And>sid s. (sid, s) \<in> set xs \<Longrightarrow> map_of (sv_sessions srv) sid = Some s"
    and "srv_ok srv"
  shows "srv_ok (fold f xs srv) \<and> larger (sv_heap srv) (sv_heap (fold f xs srv))"
  using assms(2-4)
proof (induction xs arbitrary: srv)
  case (Cons x xs)
  obtain sid s where x: "x = (sid, s)" by fastforce
  have "map_of (sv_sessions srv) sid = Some s" using Cons.prems(2) x by simp
  note st = assms(1) [OF Cons.prems(3) this]
  have "map_of (sv_sessions (f x srv)) sid' = Some s'" if "(sid', s') \<in> set xs" for sid' s'
  proof -
    have "sid' \<noteq> sid" using that Cons.prems(1) x by force
    then show ?thesis using st that Cons.prems(2) x by simp
  qed
  then have "srv_ok (fold f xs (f x srv)) \<and> larger (sv_heap (f x srv)) (sv_heap (fold f xs (f x srv)))"
    using Cons.IH [of "f x srv"] Cons.prems(1) st x by auto
  then show ?case using st x larger_trans by auto
qed simp

lemma reapStaleSessions_ok:
  assumes "srv_ok srv"
  shows "srv_ok (reapStaleSessions now srv) \<and> larger (sv_heap srv) (sv_heap (reapStaleSessions now srv))"
  unfolding reapStaleSessions_def
proof (rule fold_drop_ok)
  show "distinct (map fst (sv_sessions srv))" using assms by (simp add: srv_ok_def table_ok_def)
  then show "map_of (sv_sessions srv) sid = Some s" if "(sid, s) \<in> set (sv_sessions srv)" for sid s
    using that by simp
qed (use assms drop_session_ok in \<open>auto simp: reap_one_def drop_session_table delete_conv'\<close>)

lemma CloseAll_ok:
  assumes "srv_ok srv"
  shows "srv_ok (CloseAll srv) \<and> larger (sv_heap srv) (sv_heap (CloseAll srv))"
  unfolding CloseAll_def
proof (rule fold_drop_ok)
  show "distinct (map fst (sv_sessions srv))" using assms by (simp add: srv_ok_def table_ok_def)
  then show "map_of (sv_sessions srv) sid = Some s" if "(sid, s) \<in> set (sv_sessions srv)" for sid s
    using that by simp
qed (use assms drop_session_ok in \<open>auto simp: drop_session_table delete_conv'\<close>)

section \<open>Steps of tasks\<close>

text \<open>What a step may do: it keeps the server in order, loses no object, and its next tasks are in order.\<close>

definition step_ok :: "server \<Rightarrow> server \<times> task list \<Rightarrow> bool" where
  "step_ok srv r \<longleftrightarrow> srv_ok (fst r) \<and> larger (sv_heap srv) (sv_heap (fst r))
     \<and> list_all (task_ok (sv_heap (fst r))) (snd r)"

lemma receive_first_frame:
  "receive_first now got raddr c srv = (r, srv') \<Longrightarrow>
   sv_heap srv' = sv_heap srv \<and> sv_sessions srv' = sv_sessions srv \<and> sv_activeConns srv' = sv_activeConns srv
   \<and> mt_ActiveConnections (sv_metrics srv') = mt_ActiveConnections (sv_metrics srv)
   \<and> mt_ActiveSessions (sv_metrics srv') = mt_ActiveSessions (sv_metrics srv)"
proof -
  assume r: "receive_first now got raddr c srv = (r, srv')"
  obtain c1 ra e where p: "(if sv_trustProxy srv then ParseProxyHeaderV2 got raddr c else (c, raddr, None)) = (c1, ra, e)"
    by (metis prod_cases3)
  obtain banned rl where b: "IsBanned now ra (sv_rateLimiter srv) = (banned, rl)" by fastforce
  obtain d c2 where d: "DecodeWithMax c1 MaxHandshakePayload = (d, c2)" by fastforce
  show ?thesis
  proof (cases e)
    case (Some x)
    then show ?thesis using r by (simp add: receive_first_def p)
  next
    case None
    show ?thesis
    proof (cases d)
      case (Inl x)
      then show ?thesis using r None by (cases x; cases banned) (auto simp: receive_first_def p b d Let_def)
    next
      case (Inr x)
      then show ?thesis using r None by (cases banned) (auto simp: receive_first_def p b d Let_def)
    qed
  qed
qed

lemma step_ok_frame:
  "srv_ok srv \<Longrightarrow> sv_heap srv' = sv_heap srv \<Longrightarrow> sv_sessions srv' = sv_sessions srv \<Longrightarrow>
   list_all (task_ok (sv_heap srv)) new \<Longrightarrow> step_ok srv (srv', new)"
  by (simp add: step_ok_def srv_ok_def table_ok_def)

lemma step_ok_heap:
  "srv_ok srv \<Longrightarrow> heap_ok (sv_heap srv') \<Longrightarrow> keeps_table (sv_heap srv) (sv_heap srv') \<Longrightarrow>
   sv_sessions srv' = sv_sessions srv \<Longrightarrow> list_all (task_ok (sv_heap srv')) new \<Longrightarrow> step_ok srv (srv', new)"
  using srv_ok_heap keeps_table_larger by (simp add: step_ok_def)

lemma step_ok_shape:
  "srv_ok srv \<Longrightarrow> same_shape (sv_heap srv) (sv_heap srv') \<Longrightarrow> sv_sessions srv' = sv_sessions srv \<Longrightarrow>
   list_all (task_ok (sv_heap srv)) new \<Longrightarrow> step_ok srv (srv', new)"
proof -
  assume a: "srv_ok srv" "same_shape (sv_heap srv) (sv_heap srv')" "sv_sessions srv' = sv_sessions srv"
    "list_all (task_ok (sv_heap srv)) new"
  then have "list_all (task_ok (sv_heap srv')) new"
    using task_ok_larger [OF same_shape_larger] by (auto simp: list_all_iff)
  with a show ?thesis
    using heap_ok_same_shape same_shape_keeps_table by (intro step_ok_heap) (auto simp: srv_ok_def)
qed

lemma step_ok_sequence:
  assumes "srv_ok srv1 \<and> larger (sv_heap srv) (sv_heap srv1)" and "srv_ok srv1 \<Longrightarrow> step_ok srv1 (srv2, new)"
  shows "step_ok srv (srv2, new)"
  using assms larger_trans by (auto simp: step_ok_def)

lemma step_conn_ok:
  assumes ok: "srv_ok srv"
  shows "step_ok srv (step_conn sc key raddr c got srv)"
proof -
  obtain r srv1 where r: "receive_first (sc_now sc) got raddr c srv = (r, srv1)" by fastforce
  note f = receive_first_frame [OF r]
  have ok1: "srv_ok srv1" using ok f by (auto intro: srv_ok_frame)
  show ?thesis
  proof (cases r)
    case (Inl x)
    then show ?thesis
      using f ok by (simp add: step_conn_def r step_ok_frame)
  next
    case (Inr x)
    obtain env c' ra where x: "x = (env, c', ra)" by (metis prod_cases3)
    obtain s srv2 where g: "getOrCreateSession (sc_now sc) (env_SessionID env) srv1 = (s, srv2)" by fastforce
    note g' = getOrCreateSession_ok [OF ok1 g]
    have lk: "lookupSession (env_SessionID env) srv1 = Some t \<Longrightarrow> t < length (hp_sessions (sv_heap srv))" for t
      using table_entry [of srv1] ok1 f by (auto simp: lookupSession_def srv_ok_def)
    have new: "step_ok srv (srv2, [t])" if "task_ok (sv_heap srv2) t" for t
      using g' f that by (simp add: step_ok_def)
    show ?thesis
      using f ok Inr x r g g' lk new
      by (auto simp: step_conn_def intro!: step_ok_frame split: option.splits)
  qed
qed

lemma step_regpub_ok:
  assumes ok: "srv_ok srv" and s: "s < length (hp_sessions (sv_heap srv))"
  shows "step_ok srv (step_regpub s key c env srv)"
proof -
  obtain r h where r: "RegisterPublisher s key c env (sv_heap srv) = (r, h)" by fastforce
  have "heap_ok h \<and> keeps_table (sv_heap srv) h \<and> (\<forall>i. r = Inr i \<longrightarrow> i < length (hp_clients h))"
    using RegisterPublisher_ok [OF _ s r] ok by (simp add: srv_ok_def)
  then show ?thesis
    using ok s r by (cases r) (auto simp: step_regpub_def keeps_table_def intro!: step_ok_heap)
qed

lemma step_greet_ok:
  "srv_ok srv \<Longrightarrow> s < length (hp_sessions (sv_heap srv)) \<Longrightarrow> i < length (hp_clients (sv_heap srv)) \<Longrightarrow>
   step_ok srv (step_greet sc s i srv)"
  unfolding step_greet_def
  by (rule step_ok_shape) (simp_all add: fold_shape greet_one_shape)

lemma step_pub_ok:
  assumes ok: "srv_ok srv" and s: "s < length (hp_sessions (sv_heap srv))" and i: "i < length (hp_clients (sv_heap srv))"
  shows "step_ok srv (step_pub sc s i srv)"
proof -
  obtain r cn where d: "Decode (cl_netConn (clnt srv i)) = (r, cn)" by fastforce
  let ?h1 = "upd_client i (\<lambda>c. c\<lparr>cl_netConn := cn\<rparr>) (sv_heap srv)"
  have 1: "same_shape (sv_heap srv) ?h1" by (simp add: same_shape_upd_client)
  have tasks: "list_all (task_ok (sv_heap srv)) (map (TRemove s) failed)" for failed
    using s by (simp add: list_all_iff)
  show ?thesis
  proof (cases r)
    case (Inl e)
    then show ?thesis using ok 1 d s by (simp add: step_pub_def Let_def step_ok_shape)
  next
    case (Inr env)
    obtain failed hit h2 where f: "ForwardFromPublisher (sc_pick sc) s env ?h1 = (failed, hit, h2)"
      by (metis prod_cases3)
    then have "same_shape (sv_heap srv) h2"
      using same_shape_trans [OF 1] forward_loop_shape by (simp add: ForwardFromPublisher_def)
    then show ?thesis
      using ok 1 d Inr f s i tasks by (auto simp: step_pub_def Let_def intro!: step_ok_shape)
  qed
qed

lemma step_sub_ok:
  assumes ok: "srv_ok srv" and s: "s < length (hp_sessions (sv_heap srv))" and i: "i < length (hp_clients (sv_heap srv))"
  shows "step_ok srv (step_sub sc s i addr srv)"
proof -
  obtain r cn where d: "Decode (cl_netConn (clnt srv i)) = (r, cn)" by fastforce
  let ?h1 = "upd_client i (\<lambda>c. c\<lparr>cl_netConn := cn\<rparr>) (sv_heap srv)"
  have 1: "same_shape (sv_heap srv) ?h1" by (simp add: same_shape_upd_client)
  then have 2: "same_shape (sv_heap srv) (snd (ForwardToPublisher pick s env ?h1))" for pick env
    using same_shape_trans ForwardToPublisher_shape by blast
  show ?thesis
    using ok 1 2 d s i by (cases r) (auto simp: step_sub_def Let_def intro!: step_ok_shape)
qed

lemma step_ok_drop:
  "srv_ok srv \<Longrightarrow> step_ok srv (finish (removeSession sid srv), [])"
  using removeSession_ok by (simp add: step_ok_def)

lemma task_step_ok:
  assumes ok: "srv_ok srv" and t: "task_ok (sv_heap srv) t"
  shows "step_ok srv (task_step sc t srv)"
proof (cases t)
  case (TRegSub s key c raddr env)
  obtain i addr h where r: "RegisterSubscriber s key c raddr env (sv_heap srv) = ((i, addr), h)"
    by (metis prod.collapse)
  have "heap_ok h \<and> keeps_table (sv_heap srv) h \<and> i < length (hp_clients h)"
    using RegisterSubscriber_ok [OF _ _ r] ok t TRegSub by (simp add: srv_ok_def)
  then show ?thesis
    using ok t TRegSub r by (auto simp: keeps_table_def intro!: step_ok_heap)
next
  case (TSubExit s addr)
  then have "heap_ok (RemoveSubscriber s addr (sv_heap srv)) \<and> keeps_table (sv_heap srv) (RemoveSubscriber s addr (sv_heap srv))"
    using RemoveSubscriber_ok [of "sv_heap srv" s addr] ok t by (simp add: srv_ok_def)
  then show ?thesis using ok t TSubExit by (auto simp: keeps_table_def intro!: step_ok_heap)
next
  case (TRemove s addr)
  then have "heap_ok (RemoveSubscriber s addr (sv_heap srv)) \<and> keeps_table (sv_heap srv) (RemoveSubscriber s addr (sv_heap srv))"
    using RemoveSubscriber_ok [of "sv_heap srv" s addr] ok t by (simp add: srv_ok_def)
  then show ?thesis using ok t TRemove by (auto intro!: step_ok_heap)
qed (use ok t in \<open>auto simp: step_conn_ok step_regpub_ok step_greet_ok step_pub_ok step_sub_ok step_ok_drop
      ForwardToPublisher_shape split: option.splits intro!: step_ok_shape\<close>)

section \<open>The whole server\<close>

text \<open>The goroutines that serve a counted connection, as opposed to those that only remove a subscriber.\<close>

fun is_main :: "task \<Rightarrow> bool" where
  "is_main (TRemove s addr) = False"
| "is_main (TAdmit tcp key raddr c got) = False"
| "is_main _ = True"

text \<open>Connections that are let in and not counted yet.\<close>

fun waits :: "task \<Rightarrow> bool" where
  "waits (TAdmit tcp key raddr c got) = True"
| "waits _ = False"

definition conns :: "task list \<Rightarrow> int" where
  "conns ts = int (length (filter is_main ts))"

lemma conns_simps [simp]: "conns [] = 0" "conns (t # ts) = (if is_main t then 1 else 0) + conns ts"
  "conns (ts @ us) = conns ts + conns us" "conns (map (TRemove s) xs) = 0"
  by (simp_all add: conns_def comp_def)

text \<open>Every step of a task leaves the connection count right: it ends at most its own goroutine.\<close>

definition gauge_ok :: "server \<Rightarrow> task \<Rightarrow> server \<times> task list \<Rightarrow> bool" where
  "gauge_ok srv t r \<longleftrightarrow>
     sv_activeConns (fst r) = sv_activeConns srv + conns (snd r) - conns [t]
     \<and> mt_ActiveConnections (sv_metrics (fst r)) = mt_ActiveConnections (sv_metrics srv) + conns (snd r) - conns [t]
     \<and> conns (snd r) \<le> (if is_main t \<or> waits t then 1 else 0) \<and> list_all (\<lambda>t. \<not> waits t) (snd r)"

lemma finish_conns [simp]:
  "sv_activeConns (finish srv) = sv_activeConns srv - 1"
  "mt_ActiveConnections (sv_metrics (finish srv)) = mt_ActiveConnections (sv_metrics srv) - 1"
  by (simp_all add: finish_def)

lemma getOrCreateSession_conns:
  "getOrCreateSession now sid srv = (s, srv') \<Longrightarrow> sv_activeConns srv' = sv_activeConns srv
     \<and> mt_ActiveConnections (sv_metrics srv') = mt_ActiveConnections (sv_metrics srv)"
  by (auto simp: getOrCreateSession_def Let_def split: option.splits)

lemma removeSession_conns [simp]:
  "sv_activeConns (removeSession sid srv) = sv_activeConns srv"
  "mt_ActiveConnections (sv_metrics (removeSession sid srv)) = mt_ActiveConnections (sv_metrics srv)"
  by (simp_all add: removeSession_def drop_session_def split: option.splits)

lemma step_conn_gauge: "gauge_ok srv (TConn key raddr c got) (step_conn sc key raddr c got srv)"
proof -
  obtain r srv1 where r: "receive_first (sc_now sc) got raddr c srv = (r, srv1)" by fastforce
  note f = receive_first_frame [OF r]
  show ?thesis
  proof (cases r)
    case (Inl x)
    then show ?thesis using f by (simp add: step_conn_def r gauge_ok_def)
  next
    case (Inr x)
    obtain env c' ra where x: "x = (env, c', ra)" by (metis prod_cases3)
    obtain s srv2 where g: "getOrCreateSession (sc_now sc) (env_SessionID env) srv1 = (s, srv2)" by fastforce
    show ?thesis
      using f getOrCreateSession_conns [OF g] Inr x g
      by (auto simp: step_conn_def r gauge_ok_def split: option.splits)
  qed
qed

lemma step_pub_gauge: "gauge_ok srv (TPub s i) (step_pub sc s i srv)"
proof -
  obtain r cn where d: "Decode (cl_netConn (clnt srv i)) = (r, cn)" by fastforce
  show ?thesis
  proof (cases r)
    case (Inr env)
    obtain failed hit h2 where f: "ForwardFromPublisher (sc_pick sc) s env
        (upd_client i (\<lambda>c. c\<lparr>cl_netConn := cn\<rparr>) (sv_heap srv)) = (failed, hit, h2)"
      by (metis prod_cases3)
    show ?thesis using d Inr f by (auto simp: step_pub_def gauge_ok_def Let_def list_all_iff)
  qed (simp add: step_pub_def gauge_ok_def d Let_def)
qed

lemma task_step_gauge: "gauge_ok srv t (task_step sc t srv)"
proof (cases t)
  case (TRegPub s key c env)
  then show ?thesis by (auto simp: step_regpub_def gauge_ok_def split: prod.splits sum.splits)
next
  case (TRegSub s key c raddr env)
  then show ?thesis by (auto simp: gauge_ok_def split: prod.splits)
next
  case (TSub s i addr)
  then show ?thesis by (auto simp: step_sub_def gauge_ok_def Let_def split: prod.splits sum.splits)
qed (auto simp: step_conn_gauge step_pub_gauge step_greet_def gauge_ok_def [of _ "TGreet _ _"]
      gauge_ok_def [of _ "TDrop _"] gauge_ok_def [of _ "TNotify _ _ _ _"] gauge_ok_def [of _ "TSubExit _ _"]
      gauge_ok_def [of _ "TSubCheck _"] gauge_ok_def [of _ "TSync _ _ _"] gauge_ok_def [of _ "TRemove _ _"]
      gauge_ok_def [of _ "TAdmit _ _ _ _ _"]
      split: option.splits)

lemma tcp_pending_waits: "tcp_pending t \<Longrightarrow> waits t"
  by (cases t) auto

definition sys_ok :: "sys \<Rightarrow> bool" where
  "sys_ok st \<longleftrightarrow> srv_ok (fst st) \<and> list_all (task_ok (sv_heap (fst st))) (snd st)
     \<and> sv_activeConns (fst st) = conns (snd st)
     \<and> mt_ActiveConnections (sv_metrics (fst st)) = conns (snd st)
     \<and> length (filter tcp_pending (snd st)) \<le> 1"

lemma list_all_task_ok_larger:
  "larger h h' \<Longrightarrow> list_all (task_ok h) ts \<Longrightarrow> list_all (task_ok h') ts"
  using task_ok_larger by (auto simp: list_all_iff)

lemma sys_ok_task:
  assumes ok: "sys_ok (srv, ts)" and k: "k < length ts" and st: "task_step sc (ts ! k) srv = (srv', new)"
  shows "sys_ok (srv', take k ts @ new @ drop (Suc k) ts)"
proof -
  let ?t = "ts ! k"
  have srv: "srv_ok srv" and tasks: "list_all (task_ok (sv_heap srv)) ts"
    using ok by (auto simp: sys_ok_def)
  have split: "ts = take k ts @ ?t # drop (Suc k) ts" using k by (rule id_take_nth_drop)
  have "task_ok (sv_heap srv) ?t" using tasks k by (simp add: list_all_length)
  from task_step_ok [OF srv this, of sc] have s: "srv_ok srv'" "larger (sv_heap srv) (sv_heap srv')"
    "list_all (task_ok (sv_heap srv')) new"
    by (simp_all add: step_ok_def st)
  have "list_all (task_ok (sv_heap srv')) ts" using list_all_task_ok_larger [OF s(2) tasks] .
  then have "list_all (task_ok (sv_heap srv')) (take k ts @ ?t # drop (Suc k) ts)" using split by simp
  moreover have "conns ts = conns (take k ts) + conns [?t] + conns (drop (Suc k) ts)"
    using arg_cong [OF split, of conns] by simp
  moreover have "length (filter tcp_pending ts) = length (filter tcp_pending (take k ts))
      + length (filter tcp_pending [?t]) + length (filter tcp_pending (drop (Suc k) ts))"
    using arg_cong [OF split, of "\<lambda>ts. length (filter tcp_pending ts)"] by simp
  moreover have g: "gauge_ok srv ?t (srv', new)" using task_step_gauge [of srv ?t sc] st by simp
  moreover have "filter tcp_pending new = []"
    using g tcp_pending_waits by (auto simp: gauge_ok_def list_all_iff filter_empty_conv)
  ultimately show ?thesis
    using ok s unfolding sys_ok_def gauge_ok_def by simp
qed

lemma sys_ok_same_conns:
  "sys_ok (srv, ts) \<Longrightarrow> srv_ok srv' \<and> larger (sv_heap srv) (sv_heap srv') \<Longrightarrow>
   sv_activeConns srv' = sv_activeConns srv \<Longrightarrow>
   mt_ActiveConnections (sv_metrics srv') = mt_ActiveConnections (sv_metrics srv) \<Longrightarrow> sys_ok (srv', ts)"
  using list_all_task_ok_larger [of "sv_heap srv" "sv_heap srv'" ts] by (simp add: sys_ok_def)

lemma fold_drop_conns:
  assumes "\<And>x srv. sv_activeConns (f x srv) = sv_activeConns srv
      \<and> mt_ActiveConnections (sv_metrics (f x srv)) = mt_ActiveConnections (sv_metrics srv)"
  shows "sv_activeConns (fold f xs srv) = sv_activeConns srv
      \<and> mt_ActiveConnections (sv_metrics (fold f xs srv)) = mt_ActiveConnections (sv_metrics srv)"
  using assms by (induction xs arbitrary: srv) auto

lemma reapStaleSessions_conns:
  "sv_activeConns (reapStaleSessions now srv) = sv_activeConns srv
   \<and> mt_ActiveConnections (sv_metrics (reapStaleSessions now srv)) = mt_ActiveConnections (sv_metrics srv)"
  unfolding reapStaleSessions_def by (rule fold_drop_conns) (auto simp: reap_one_def drop_session_def)

lemma CloseAll_conns:
  "sv_activeConns (CloseAll srv) = sv_activeConns srv
   \<and> mt_ActiveConnections (sv_metrics (CloseAll srv)) = mt_ActiveConnections (sv_metrics srv)"
  unfolding CloseAll_def by (rule fold_drop_conns) (auto simp: drop_session_def)

lemma sys_step_ok:
  assumes ok: "sys_ok st"
  shows "sys_ok (sys_step e st)"
proof -
  obtain srv ts where st: "st = (srv, ts)" by fastforce
  have okp: "sys_ok (srv, ts)" using ok st by simp
  then have srv: "srv_ok srv" by (simp add: sys_ok_def)
  show ?thesis
  proof (cases e)
    case (EvAccept key raddr c got)
    have "sys_ok (srv, ts @ [TAdmit True key raddr c got])" if "\<not> list_ex tcp_pending ts"
    proof -
      have "filter tcp_pending ts = []" using that by (simp add: filter_empty_conv list_ex_iff)
      then show ?thesis using okp by (simp add: sys_ok_def)
    qed
    then show ?thesis using ok st EvAccept by simp
  next
    case (EvWebSocket key raddr c got)
    then show ?thesis using okp st by (simp add: sys_ok_def)
  next
    case (EvTask k sc)
    obtain srv' new where n: "task_step sc (ts ! k) srv = (srv', new)" by fastforce
    show ?thesis
    proof (cases "k < length ts")
      case True
      have "sys_ok (srv', take k ts @ new @ drop (Suc k) ts)"
        using ok unfolding st by (rule sys_ok_task [OF _ True n])
      then show ?thesis using st EvTask n True by simp
    qed (use ok st EvTask in simp)
  next
    case (EvWriter i pick)
    have "srv_ok (upd_heap (upd_client i (writeLoop_step pick)) srv)"
      using srv by (simp add: srv_ok_upd_shape same_shape_upd_client)
    then have "sys_ok (upd_heap (upd_client i (writeLoop_step pick)) srv, ts)"
      by (intro sys_ok_same_conns [OF okp]) (simp_all add: same_shape_larger same_shape_upd_client)
    then show ?thesis using st EvWriter by simp
  next
    case (EvCloseNet i)
    have "srv_ok (upd_heap (upd_client i close_netConn) srv)"
      using srv by (simp add: srv_ok_upd_shape same_shape_upd_client)
    then have "sys_ok (upd_heap (upd_client i close_netConn) srv, ts)"
      by (intro sys_ok_same_conns [OF okp]) (simp_all add: same_shape_larger same_shape_upd_client)
    then show ?thesis using st EvCloseNet by simp
  next
    case (EvTick now)
    let ?srv = "srv\<lparr>sv_rateLimiter := CleanupStale now (15 * 60 * 1000000000) (sv_rateLimiter srv)\<rparr>"
    have "srv_ok ?srv" using srv by (simp add: srv_ok_def table_ok_def)
    then have "sys_ok (reapStaleSessions now ?srv, ts)"
      using reapStaleSessions_ok [of ?srv now] reapStaleSessions_conns [of now ?srv]
      by (intro sys_ok_same_conns [OF okp]) simp_all
    then show ?thesis using st EvTick by simp
  next
    case EvCloseAll
    have "sys_ok (CloseAll srv, ts)"
      using CloseAll_ok [OF srv] CloseAll_conns [of srv] by (intro sys_ok_same_conns [OF okp]) simp_all
    then show ?thesis using st EvCloseAll by simp
  next
    case (EvTrustProxy trust)
    then show ?thesis using okp st by (simp add: sys_ok_def SetTrustProxy_def srv_ok_def table_ok_def)
  next
    case (EvRateLimiting enabled)
    then show ?thesis using okp st by (simp add: sys_ok_def SetRateLimiting_def srv_ok_def table_ok_def)
  qed
qed

lemma sys_init_ok: "sys_ok sys_init"
  by (simp add: sys_init_def sys_ok_def srv_ok_def heap_ok_def table_ok_def NewServer_def NewMetrics_def
      MaxActiveConnections_def)

interpretation relaym: safe_machine sys_step sys_ok
  by unfold_locales (rule sys_step_ok)

text \<open>
  The limit. A relay without a WebSocket listener (\<open>--ws-port 0\<close>) is the machine without those
  events. There the only comparison is that of the TCP loop, and the connections that are counted
  or about to be counted stay within the limit.
\<close>

definition tcp_step :: "event \<Rightarrow> sys \<Rightarrow> sys" where
  "tcp_step e st = (case e of EvWebSocket key raddr c got \<Rightarrow> st | _ \<Rightarrow> sys_step e st)"

definition load :: "task list \<Rightarrow> int" where
  "load ts = conns ts + int (length (filter waits ts))"

definition tcp_ok :: "sys \<Rightarrow> bool" where
  "tcp_ok st \<longleftrightarrow> sys_ok st \<and> list_all (\<lambda>t. waits t \<longrightarrow> tcp_pending t) (snd st) \<and> load (snd st) \<le> MaxActiveConnections"

lemma load_append [simp]: "load (xs @ ys) = load xs + load ys"
  by (simp add: load_def)

lemma tcp_ok_task:
  assumes ok: "tcp_ok (srv, ts)" and k: "k < length ts" and st: "task_step sc (ts ! k) srv = (srv', new)"
  shows "tcp_ok (srv', take k ts @ new @ drop (Suc k) ts)"
proof -
  let ?t = "ts ! k"
  have split: "ts = (take k ts @ [?t]) @ drop (Suc k) ts" using id_take_nth_drop [OF k] by simp
  have "gauge_ok srv ?t (srv', new)" using task_step_gauge [of srv ?t sc] st by simp
  then have new: "list_all (\<lambda>t. \<not> waits t) new" "conns new \<le> (if is_main ?t \<or> waits ?t then 1 else 0)"
    by (simp_all add: gauge_ok_def)
  have "filter waits new = []" using new(1) by (auto simp: list_all_iff filter_empty_conv)
  then have "load new \<le> load [?t]" using new(2) by (auto simp: load_def split: if_splits)
  moreover have "load ts = load (take k ts) + load [?t] + load (drop (Suc k) ts)"
    using arg_cong [OF split, of load] by (simp only: load_append)
  moreover have "list_all (\<lambda>t. waits t \<longrightarrow> tcp_pending t) (take k ts @ new @ drop (Suc k) ts)"
    using ok new(1) by (auto simp: tcp_ok_def list_all_iff dest: in_set_takeD in_set_dropD)
  ultimately show ?thesis
    using ok sys_ok_task [OF _ k st] by (simp add: tcp_ok_def)
qed

lemma tcp_step_ok:
  assumes ok: "tcp_ok st"
  shows "tcp_ok (tcp_step e st)"
proof -
  obtain srv ts where st: "st = (srv, ts)" by fastforce
  have sys: "sys_ok (sys_step e st)" using ok sys_step_ok by (simp add: tcp_ok_def)
  show ?thesis
  proof (cases e)
    case (EvAccept key raddr c got)
    have "load ts = sv_activeConns srv" if "\<not> list_ex tcp_pending ts"
    proof -
      have "filter waits ts = []"
        using that ok st by (auto simp: tcp_ok_def list_all_iff list_ex_iff filter_empty_conv)
      then show ?thesis using ok st by (simp add: tcp_ok_def sys_ok_def load_def)
    qed
    then show ?thesis
      using ok sys st EvAccept by (auto simp: tcp_step_def tcp_ok_def load_def)
  next
    case (EvTask k sc)
    then show ?thesis
      using ok st tcp_ok_task [of srv ts k sc] by (auto simp: tcp_step_def split: prod.split)
  qed (use ok sys st in \<open>auto simp: tcp_step_def tcp_ok_def\<close>)
qed

interpretation tcpm: safe_machine tcp_step tcp_ok
  by unfold_locales (rule tcp_step_ok)

lemma tcp_init_ok: "tcp_ok sys_init"
  using sys_init_ok by (simp add: tcp_ok_def sys_init_def load_def MaxActiveConnections_def)

text \<open>
  With a WebSocket listener the limit does not hold: any number of handlers can make the comparison
  before the first of them is counted.
\<close>

lemma EvWebSocket_burst:
  "sv_activeConns srv < MaxActiveConnections \<Longrightarrow>
   fold sys_step (replicate n (EvWebSocket key raddr c got)) (srv, ts) = (srv, ts @ replicate n (TAdmit False key raddr c got))"
  by (induction n arbitrary: ts) (auto simp: replicate_append_same)

lemma TAdmit_burst:
  "length us = m \<Longrightarrow> sv_activeConns (fst (fold sys_step (map (\<lambda>k. EvTask k sc) [m..<m + n])
     (srv, us @ replicate n (TAdmit False key raddr c got)))) = sv_activeConns srv + int n"
proof (induction n arbitrary: us m srv)
  case (Suc n)
  let ?srv = "upd_metrics (\<lambda>m. m\<lparr>mt_ActiveConnections := mt_ActiveConnections m + 1\<rparr>)
        (srv\<lparr>sv_activeConns := sv_activeConns srv + 1\<rparr>)"
  have "sys_step (EvTask m sc) (srv, us @ replicate (Suc n) (TAdmit False key raddr c got))
      = (?srv, (us @ [TConn key raddr c got]) @ replicate n (TAdmit False key raddr c got))"
    using Suc.prems by (auto simp: nth_append)
  then show ?case
    using Suc.IH [of "us @ [TConn key raddr c got]" "Suc m" ?srv] Suc.prems by (simp add: upt_rec)
qed simp

text \<open>C8: whatever connections arrive over TCP and WebSocket (the default build has no QUIC) and however the goroutines interleave, with or
  without proxy headers and rate limiting, the relay keeps its invariant: every client belongs to at most
  one session, publishers and subscribers in their roles; every queue holds at most 200 frames; the
  session table lists open sessions under their own identifier, once each; every goroutine refers
  to existing objects; and both connection gauges equal the number of goroutines that serve a
  connection. Without WebSocket clients that number is never above 10000. With them it is not
  bounded, as each handler compares and counts in two steps: every number is reached.\<close>

theorem relay_invariant:
  "sys_ok (fold sys_step evs sys_init)
   \<and> sv_activeConns (fst (fold tcp_step evs sys_init)) \<le> MaxActiveConnections
   \<and> (\<exists>burst. sv_activeConns (fst (fold sys_step burst sys_init)) = int n)"
proof (intro conjI exI)
  show "sys_ok (fold sys_step evs sys_init)" using sys_init_ok by (rule relaym.run_inv)
  have "tcp_ok (fold tcp_step evs sys_init)" using tcp_init_ok by (rule tcpm.run_inv)
  then show "sv_activeConns (fst (fold tcp_step evs sys_init)) \<le> MaxActiveConnections"
    by (simp add: tcp_ok_def sys_ok_def load_def)
  let ?c = "fresh_conn [] EOF" and ?sc = "\<lparr>sc_now = 0, sc_pick = \<lambda>_. True\<rparr>"
  show "sv_activeConns (fst (fold sys_step (replicate n (EvWebSocket 0 '''' ?c 0) @ map (\<lambda>k. EvTask k ?sc) [0..<0 + n])
      sys_init)) = int n"
    using TAdmit_burst [of "[]" 0 ?sc n NewServer 0 "''''" ?c 0]
      EvWebSocket_burst [of NewServer n 0 "''''" ?c 0 "[]"]
    by (simp add: sys_init_def NewServer_def MaxActiveConnections_def del: fold_replicate)
qed

end
