(* ===== verification/Relay_Props.thy ===== *)
theory Relay_Props
  imports Relay_Inv
begin

text \<open>
  What the relay does for its clients: frames reach the subscribers of their own session and no
  one else, only handshake frames create sessions, idle sessions are reaped exactly after the
  grace period, the session gauge counts the table; and where it goes wrong: a subscriber
  goroutine that ends late removes a newer session with the same identifier.
\<close>

section \<open>Isolation of sessions\<close>

text \<open>The frames a client has been given: queued, and written to its socket.\<close>

definition frames_of :: "client \<Rightarrow> envelope list \<times> bytes list" where
  "frames_of c = (cl_sendCh c, cn_out (cl_netConn c))"

definition frames_except :: "nat set \<Rightarrow> heap \<Rightarrow> heap \<Rightarrow> bool" where
  "frames_except S h h' \<longleftrightarrow> length (hp_clients h) \<le> length (hp_clients h')
     \<and> (\<forall>i < length (hp_clients h). i \<notin> S \<longrightarrow> frames_of (hp_clients h' ! i) = frames_of (hp_clients h ! i))"

lemma frames_except_refl [simp]: "frames_except S h h"
  by (simp add: frames_except_def)

lemma frames_except_trans: "frames_except S h h' \<Longrightarrow> frames_except S h' h'' \<Longrightarrow> frames_except S h h''"
  by (auto simp: frames_except_def)

lemma frames_except_same_clients: "hp_clients h' = hp_clients h \<Longrightarrow> frames_except S h h'"
  by (simp add: frames_except_def)

lemma frames_except_upd_session [simp]: "frames_except S h (upd_session s f h')  = frames_except S h h'"
  by (simp add: frames_except_def upd_session_def)

lemma nth_upd_client:
  "j < length (hp_clients h) \<Longrightarrow>
   hp_clients (upd_client i f h) ! j = (if i = j then f (hp_clients h ! j) else hp_clients h ! j)"
  by (simp add: upd_client_def)

lemma length_upd_client [simp]: "length (hp_clients (upd_client i f h)) = length (hp_clients h)"
  by (simp add: upd_client_def)

lemma frames_except_upd_in: "i \<in> S \<Longrightarrow> frames_except S h (upd_client i f h)"
  by (auto simp: frames_except_def nth_upd_client)

lemma frames_except_upd_same:
  "(\<And>c. frames_of (f c) = frames_of c) \<Longrightarrow> frames_except S h (upd_client i f h)"
  by (simp add: frames_except_def nth_upd_client)

lemma frames_of_Close [simp]: "frames_of (ClientConn_Close c) = frames_of c"
  by (simp add: frames_of_def ClientConn_Close_def Let_def conn_Close_def)

lemma frames_except_append: "frames_except S h (h\<lparr>hp_clients := hp_clients h @ [c]\<rparr>)"
  by (simp add: frames_except_def nth_append)

lemma fold_frames_except:
  assumes "\<And>x h. x \<in> set xs \<Longrightarrow> frames_except S h (f x h)"
  shows "frames_except S h (fold f xs h)"
  using assms by (induction xs arbitrary: h) (auto intro: frames_except_trans)

lemma forward_loop_frames:
  "forward_loop pick env subs h = (failed, hit, h') \<Longrightarrow> snd ` set subs \<subseteq> S \<Longrightarrow> frames_except S h h'"
proof (induction subs arbitrary: h failed hit)
  case (Cons a subs)
  obtain addr i where a: "a = (addr, i)" by fastforce
  obtain r c where r: "SendFrame (pick i) (hp_clients h ! i) env = (r, c)" by fastforce
  obtain f' hit' h'' where f: "forward_loop pick env subs (upd_client i (\<lambda>_. c) h) = (f', hit', h'')"
    by (metis prod_cases3)
  have "h'' = h'" using Cons.prems(1) a r f by (auto split: sum.splits)
  moreover have "i \<in> S" "snd ` set subs \<subseteq> S" using Cons.prems(2) a by auto
  ultimately show ?case
    using Cons.IH f frames_except_trans frames_except_upd_in by metis
qed simp

lemma ForwardToPublisher_frames:
  "set_option (se_publisher (hp_sessions h ! s)) \<subseteq> S \<Longrightarrow> frames_except S h (snd (ForwardToPublisher pick s env h))"
  by (auto simp: ForwardToPublisher_def frames_except_upd_in split: option.splits prod.splits)

lemma RelaySession_Close_frames: "frames_except S h (RelaySession_Close s h)"
proof -
  let ?x = "hp_sessions h ! s"
  let ?h0 = "case se_publisher ?x of None \<Rightarrow> h | Some p \<Rightarrow> upd_client p ClientConn_Close h"
  have 1: "frames_except S h ?h0" by (simp add: frames_except_upd_same split: option.splits)
  have 2: "frames_except S ?h0 (fold (\<lambda>(_, i). upd_client i ClientConn_Close) (se_subscribers ?x) ?h0)"
    by (rule fold_frames_except) (auto simp: frames_except_upd_same)
  show ?thesis
    using frames_except_trans [OF 1 2] by (simp add: RelaySession_Close_def Let_def)
qed

lemma removeSession_frames: "frames_except S (sv_heap srv) (sv_heap (removeSession sid srv))"
  by (simp add: removeSession_def drop_session_def RelaySession_Close_frames split: option.splits)

lemma getOrCreateSession_clients:
  "getOrCreateSession now sid srv = (s, srv') \<Longrightarrow> hp_clients (sv_heap srv') = hp_clients (sv_heap srv)"
  by (auto simp: getOrCreateSession_def Let_def split: option.splits)

lemma set_publisher_frames: "frames_except S h (snd (set_publisher s key c env h))"
  by (simp add: set_publisher_def alloc_client_def frames_except_append)

lemma RegisterPublisher_frames: "frames_except S h (snd (RegisterPublisher s key c env h))"
  using frames_except_trans [OF frames_except_upd_same [OF frames_of_Close] set_publisher_frames]
  by (auto simp: RegisterPublisher_def set_publisher_frames split: option.splits)

lemma RegisterSubscriber_frames: "frames_except S h (snd (RegisterSubscriber s key c raddr env h))"
  by (simp add: RegisterSubscriber_def alloc_client_def Let_def frames_except_def upd_session_def nth_append)

lemma RemoveSubscriber_frames: "frames_except S h (RemoveSubscriber s addr h)"
proof (cases "map_of (se_subscribers (hp_sessions h ! s)) addr")
  case (Some i)
  have "frames_except S h (upd_session s f h)" for f by simp
  then show ?thesis
    using Some frames_except_trans frames_except_upd_same [OF frames_of_Close]
    by (metis (no_types, lifting) RemoveSubscriber_def option.simps(5))
qed (simp add: RemoveSubscriber_def)

lemma greet_one_frames: "i \<in> S \<Longrightarrow> frames_except S h (greet_one pick i x h)"
  by (auto simp: greet_one_def frames_except_upd_in split: option.splits prod.splits)

lemma Decode_keeps_out: "Decode c = (r, c') \<Longrightarrow> cn_out c' = cn_out c"
  by (auto simp: Decode_def DecodeWithMax_def Let_def split: prod.splits sum.splits if_splits
      dest!: ReadFull_writes)

lemma netConn_frames:
  "Decode (cl_netConn (hp_clients h ! i)) = (r, cn) \<Longrightarrow>
   frames_except S h (upd_client i (\<lambda>c. c\<lparr>cl_netConn := cn\<rparr>) h)"
  using Decode_keeps_out by (auto simp: frames_except_def nth_upd_client frames_of_def)

text \<open>The clients a task may give frames to: the members of its session; the greeted publisher.\<close>

fun audience :: "server \<Rightarrow> task \<Rightarrow> nat set" where
  "audience srv (TAdmit tcp key raddr c got) = {}"
| "audience srv (TConn key raddr c got) = {}"
| "audience srv (TRegPub s key c env) = members (sess srv s)"
| "audience srv (TGreet s i) = insert i (members (sess srv s))"
| "audience srv (TPub s i) = members (sess srv s)"
| "audience srv (TDrop s) = members (sess srv s)"
| "audience srv (TRegSub s key c raddr env) = members (sess srv s)"
| "audience srv (TNotify s i addr env) = members (sess srv s)"
| "audience srv (TSub s i addr) = members (sess srv s)"
| "audience srv (TSubExit s addr) = members (sess srv s)"
| "audience srv (TSubCheck s) = members (sess srv s)"
| "audience srv (TSync s key env) = members (sess srv s)"
| "audience srv (TRemove s addr) = members (sess srv s)"

lemma upd_client_sessions [simp]: "hp_sessions (upd_client i f h) = hp_sessions h"
  by (simp add: upd_client_def)

lemma step_conn_frames: "frames_except S (sv_heap srv) (sv_heap (fst (step_conn sc key raddr c got srv)))"
proof -
  obtain r srv1 where r: "receive_first (sc_now sc) got raddr c srv = (r, srv1)" by fastforce
  note f = receive_first_frame [OF r]
  show ?thesis
  proof (cases r)
    case (Inl x)
    then show ?thesis using f by (simp add: step_conn_def r)
  next
    case (Inr x)
    obtain env c' ra where x: "x = (env, c', ra)" by (metis prod_cases3)
    obtain s srv2 where g: "getOrCreateSession (sc_now sc) (env_SessionID env) srv1 = (s, srv2)" by fastforce
    have "frames_except S (sv_heap srv) (sv_heap srv2)"
      using getOrCreateSession_clients [OF g] f by (simp add: frames_except_same_clients)
    then show ?thesis
      using f Inr x g by (auto simp: step_conn_def r split: option.splits)
  qed
qed

lemma step_pub_frames:
  "members (sess srv s) \<subseteq> S \<Longrightarrow> frames_except S (sv_heap srv) (sv_heap (fst (step_pub sc s i srv)))"
proof -
  assume S: "members (sess srv s) \<subseteq> S"
  obtain r cn where d: "Decode (cl_netConn (clnt srv i)) = (r, cn)" by fastforce
  let ?h1 = "upd_client i (\<lambda>c. c\<lparr>cl_netConn := cn\<rparr>) (sv_heap srv)"
  have 1: "frames_except S (sv_heap srv) ?h1" using netConn_frames [OF d] .
  show ?thesis
  proof (cases r)
    case (Inr env)
    obtain failed hit h2 where f: "ForwardFromPublisher (sc_pick sc) s env ?h1 = (failed, hit, h2)"
      by (metis prod_cases3)
    have "snd ` set (se_subscribers (hp_sessions ?h1 ! s)) \<subseteq> S"
      using S by (simp add: members_def)
    then have "frames_except S (sv_heap srv) h2"
      using f frames_except_trans [OF 1 forward_loop_frames] by (simp add: ForwardFromPublisher_def)
    then show ?thesis using d Inr f 1 by (auto simp: step_pub_def Let_def)
  qed (use d 1 in \<open>simp add: step_pub_def Let_def\<close>)
qed

lemma step_sub_frames:
  "members (sess srv s) \<subseteq> S \<Longrightarrow> frames_except S (sv_heap srv) (sv_heap (fst (step_sub sc s i addr srv)))"
proof -
  assume S: "members (sess srv s) \<subseteq> S"
  obtain r cn where d: "Decode (cl_netConn (clnt srv i)) = (r, cn)" by fastforce
  let ?h1 = "upd_client i (\<lambda>c. c\<lparr>cl_netConn := cn\<rparr>) (sv_heap srv)"
  have 1: "frames_except S (sv_heap srv) ?h1" using netConn_frames [OF d] .
  have "set_option (se_publisher (hp_sessions ?h1 ! s)) \<subseteq> S" using S by (simp add: members_def)
  then have "frames_except S (sv_heap srv) (snd (ForwardToPublisher pick s env ?h1))" for pick env
    using frames_except_trans [OF 1 ForwardToPublisher_frames] by blast
  then show ?thesis using d 1 by (cases r) (auto simp: step_sub_def Let_def)
qed

lemma task_step_frames:
  "frames_except (audience srv t) (sv_heap srv) (sv_heap (fst (task_step sc t srv)))"
proof (cases t)
  case (TRegPub s key c env)
  then show ?thesis
    using RegisterPublisher_frames [of "members (sess srv s)" "sv_heap srv" s key c env]
    by (auto simp: step_regpub_def split: prod.splits sum.splits)
next
  case (TRegSub s key c raddr env)
  then show ?thesis
    using RegisterSubscriber_frames [of "members (sess srv s)" "sv_heap srv" s key c raddr env]
    by (auto split: prod.splits)
next
  case (TGreet s i)
  have "frames_except (insert i (members (sess srv s))) h
      (fold (greet_one (sc_pick sc i) i) (se_subscribers (sess srv s)) h)" for h
    by (rule fold_frames_except) (simp add: greet_one_frames)
  with TGreet show ?thesis by (simp add: step_greet_def)
next
  case (TSync s key env)
  have "set_option (se_publisher (sess srv s)) \<subseteq> members (sess srv s)" by (simp add: members_def)
  from ForwardToPublisher_frames [OF this] TSync show ?thesis by (auto split: option.splits)
next
  case (TNotify s i addr env)
  have "set_option (se_publisher (sess srv s)) \<subseteq> members (sess srv s)" by (simp add: members_def)
  from ForwardToPublisher_frames [OF this] TNotify show ?thesis by simp
qed (auto simp: step_conn_frames step_pub_frames step_sub_frames removeSession_frames RemoveSubscriber_frames)

text \<open>Connections that send some frames without payload and then end, for examples.\<close>

definition hello :: "byte \<Rightarrow> byte \<Rightarrow> envelope" where
  "hello mt b = \<lparr>env_Version = Version, env_MsgType = mt, env_SessionID = replicate 16 b, env_Nonce = zero_nonce,
     env_Payload = []\<rparr>"

definition script_conn :: "envelope list \<Rightarrow> conn" where
  "script_conn fs = fresh_conn (concat (map frame_bytes fs)) EOF"

lemma hello_ok: "sendable (hello mt b)"
  by (simp add: sendable_def hello_def wf_env_def SessionIDSize_def NonceSize_def zero_nonce_def
      Version_def MinSupportedVersion_def)

lemma DecodeWithMax_script:
  "DecodeWithMax (script_conn (hello mt b # fs)) mx = (Inr (hello mt b), script_conn fs)"
proof -
  have "DecodeWithMax ((fresh_conn [] EOF)\<lparr>cn_in := frame_bytes (hello mt b) @ concat (map frame_bytes fs)\<rparr>) mx
      = (Inr (hello mt b), (fresh_conn [] EOF)\<lparr>cn_in := concat (map frame_bytes fs)\<rparr>)"
    by (rule DecodeWithMax_frame)
      (simp_all add: hello_def wf_env_def SessionIDSize_def NonceSize_def zero_nonce_def Version_def
        MinSupportedVersion_def fresh_conn_def)
  then show ?thesis by (simp add: script_conn_def fresh_conn_def)
qed

lemma Decode_script [simp]:
  "Decode (script_conn (hello mt b # fs)) = (Inr (hello mt b), script_conn fs)"
  "Decode (script_conn []) = (Inl (ErrHeader EOF), script_conn [])"
  by (simp_all add: Decode_def DecodeWithMax_script)
    (simp add: DecodeWithMax_def ReadFull_def script_conn_def fresh_conn_def)

lemma receive_hello:
  "\<not> sv_trustProxy srv \<Longrightarrow> sv_rateLimiter srv = NewRateLimiter \<Longrightarrow>
   receive_first now got raddr (script_conn (hello mt b # fs)) srv
     = (Inr (hello mt b, script_conn fs, raddr), srv)"
  by (cases srv) (simp add: receive_first_def IsBanned_def NewRateLimiter_def DecodeWithMax_script Let_def)

lemma hello_sel [simp]: "env_MsgType (hello mt b) = mt" "env_SessionID (hello mt b) = replicate 16 b"
  by (simp_all add: hello_def)

lemmas run_simps = step_conn_def receive_hello NewServer_def NewMetrics_def MaxActiveConnections_def
  getOrCreateSession_def msgtype_defs step_regpub_def RegisterPublisher_def set_publisher_def alloc_client_def
  upd_session_def upd_client_def NewRelaySession_def sys_init_def NewClientConn_def Let_def

definition sample_sched :: sched where
  "sample_sched = \<lparr>sc_now = 0, sc_pick = (\<lambda>_. True)\<rparr>"

text \<open>Two publishers of different sessions have connected.\<close>

definition two_pubs :: "event list" where
  "two_pubs = [EvAccept 1 ''a'' (script_conn [hello MsgTypePAKEInitPub 1]) 0,
     EvTask 0 sample_sched, EvTask 0 sample_sched, EvTask 0 sample_sched,
     EvAccept 2 ''b'' (script_conn [hello MsgTypePAKEInitPub 2]) 0,
     EvTask 1 sample_sched, EvTask 1 sample_sched, EvTask 1 sample_sched]"

lemma two_pubs_state:
  "\<exists>srv. fold sys_step two_pubs sys_init = (srv, [TGreet 0 0, TGreet 1 1]) \<and> length (hp_sessions (sv_heap srv)) = 2
     \<and> members (sess srv 0) = {0} \<and> members (sess srv 1) = {1}"
  by (simp add: two_pubs_def run_simps members_def)

text \<open>C4: sessions are isolated. In every reachable state, a step of a goroutine that serves session \<open>s\<close>
  gives frames to members of that session only: the queue and the written bytes of every client
  of any other session are the same before and after the step.\<close>

theorem session_isolation:
  assumes "fold sys_step evs sys_init = (srv, ts)" and "k < length ts"
    and "audience srv (ts ! k) \<subseteq> members (sess srv s)" and "s < length (hp_sessions (sv_heap srv))"
    and "t < length (hp_sessions (sv_heap srv))" and "t \<noteq> s" and "i \<in> members (sess srv t)"
  shows "frames_of (clnt (fst (sys_step (EvTask k sc) (srv, ts))) i) = frames_of (clnt srv i)"
proof -
  have "sys_ok (srv, ts)" using relaym.run_inv [OF sys_init_ok, of evs] assms(1) by simp
  then have h: "heap_ok (sv_heap srv)" by (simp add: sys_ok_def srv_ok_def)
  then have "i < length (hp_clients (sv_heap srv))" using members_bound assms(5,7) by blast
  moreover have "members (sess srv t) \<inter> members (sess srv s) = {}"
    using h assms(4-6) by (simp add: heap_ok_def)
  then have "i \<notin> audience srv (ts ! k)" using assms(3,7) by blast
  ultimately have "frames_of (clnt (fst (task_step sc (ts ! k) srv)) i) = frames_of (clnt srv i)"
    using task_step_frames [of srv "ts ! k" sc] by (simp add: frames_except_def)
  then show ?thesis using assms(2) by (cases "task_step sc (ts ! k) srv") simp
qed

theorem session_isolation_witness:
  "\<exists>srv. fold sys_step two_pubs sys_init = (srv, [TGreet 0 0, TGreet 1 1])
     \<and> frames_of (clnt (fst (sys_step (EvTask 0 sample_sched) (srv, [TGreet 0 0, TGreet 1 1]))) 1)
       = frames_of (clnt srv 1)"
proof -
  obtain srv where s: "fold sys_step two_pubs sys_init = (srv, [TGreet 0 0, TGreet 1 1])"
    "length (hp_sessions (sv_heap srv)) = 2" "members (sess srv 0) = {0}" "members (sess srv 1) = {1}"
    using two_pubs_state by blast
  then show ?thesis
    using session_isolation [OF s(1), of 0 0 1 1 sample_sched] by simp
qed

section \<open>Forwarding\<close>

lemma forward_loop_spec:
  "forward_loop pick env subs h = (failed, hit, h') \<Longrightarrow> distinct (map snd subs) \<Longrightarrow> i < length (hp_clients h) \<Longrightarrow>
   hp_clients h' ! i = (if i \<in> snd ` set subs then snd (SendFrame (pick i) (hp_clients h ! i) env) else hp_clients h ! i)"
proof (induction subs arbitrary: h failed hit)
  case (Cons a subs)
  obtain addr j where a: "a = (addr, j)" by fastforce
  obtain r c where r: "SendFrame (pick j) (hp_clients h ! j) env = (r, c)" by fastforce
  obtain f' hit' h'' where f: "forward_loop pick env subs (upd_client j (\<lambda>_. c) h) = (f', hit', h'')"
    by (metis prod_cases3)
  have "h'' = h'" using Cons.prems(1) a r f by (auto split: sum.splits)
  then have "hp_clients h' ! i = (if i \<in> snd ` set subs
      then snd (SendFrame (pick i) (hp_clients (upd_client j (\<lambda>_. c) h) ! i) env)
      else hp_clients (upd_client j (\<lambda>_. c) h) ! i)"
    using Cons.IH f Cons.prems(2,3) a by simp
  moreover have "j \<notin> snd ` set subs" using Cons.prems(2) a by simp
  ultimately show ?case
    using Cons.prems(3) a r by (auto simp: nth_upd_client)
qed simp

text \<open>C21: the relay forwards. In every reachable state, when the publisher's loop of a session reads a
  frame other than a heartbeat, that frame is appended to the queue of every subscriber of the
  session whose connection is open and whose queue has room, and a data frame is counted with
  its payload.\<close>

theorem publisher_frame_forwarded:
  assumes "fold sys_step evs sys_init = (srv, ts)" and "k < length ts" and "ts ! k = TPub s i"
    and "Decode (cl_netConn (clnt srv i)) = (Inr env, cn)" and "env_MsgType env \<noteq> MsgTypeHeartbeat"
    and "(addr, j) \<in> set (se_subscribers (sess srv s))"
    and "\<not> cl_done (clnt srv j)" and "length (cl_sendCh (clnt srv j)) < SubscriberQueueSize"
  shows "cl_sendCh (clnt (fst (sys_step (EvTask k sc) (srv, ts))) j) = cl_sendCh (clnt srv j) @ [env]
       \<and> (env_MsgType env = MsgTypeClose \<or>
          mt_MessagesRelayedTotal (sv_metrics (fst (sys_step (EvTask k sc) (srv, ts))))
            = mt_MessagesRelayedTotal (sv_metrics srv) + 1
          \<and> mt_BytesTransferredTotal (sv_metrics (fst (sys_step (EvTask k sc) (srv, ts))))
            = mt_BytesTransferredTotal (sv_metrics srv) + of_nat (length (env_Payload env)))"
proof -
  have ok: "sys_ok (srv, ts)" using relaym.run_inv [OF sys_init_ok, of evs] assms(1) by simp
  then have h: "heap_ok (sv_heap srv)" and t: "task_ok (sv_heap srv) (TPub s i)"
    using assms(2,3) by (auto simp: sys_ok_def srv_ok_def list_all_length)
  then have x: "sess_ok (hp_clients (sv_heap srv)) (sess srv s)" by (simp add: heap_ok_def list_all_length)
  have j: "j < length (hp_clients (sv_heap srv))" "cl_role (clnt srv j) = 2" "distinct (map snd (se_subscribers (sess srv s)))"
    using x assms(6) by (force simp: sess_ok_def)+
  let ?h1 = "upd_client i (\<lambda>c. c\<lparr>cl_netConn := cn\<rparr>) (sv_heap srv)"
  obtain failed hit h2 where f: "ForwardFromPublisher (sc_pick sc) s env ?h1 = (failed, hit, h2)"
    by (metis prod_cases3)
  have "hp_clients h2 ! j = snd (SendFrame (sc_pick sc j) (hp_clients ?h1 ! j) env)"
    using forward_loop_spec [of "sc_pick sc" env _ ?h1 failed hit h2 j] f j assms(6)
    by (force simp: ForwardFromPublisher_def)
  moreover have "cl_role (hp_clients ?h1 ! j) = 2" "cl_sendCh (hp_clients ?h1 ! j) = cl_sendCh (clnt srv j)"
    "cl_done (hp_clients ?h1 ! j) = cl_done (clnt srv j)"
    using j by (simp_all add: nth_upd_client)
  ultimately have "cl_sendCh (hp_clients h2 ! j) = cl_sendCh (clnt srv j) @ [env]"
    using assms(7,8) by (simp add: SendFrame_sub)
  then show ?thesis
    using assms(2-5) f by (auto simp: step_pub_def Let_def)
qed

text \<open>A publisher and a subscriber of one session; the publisher has sent a data frame.\<close>

definition pub_sub :: "event list" where
  "pub_sub = [EvAccept 1 ''a'' (script_conn [hello MsgTypePAKEInitPub 1, hello MsgTypeDataStream 1]) 0,
     EvTask 0 sample_sched, EvTask 0 sample_sched, EvTask 0 sample_sched, EvTask 0 sample_sched,
     EvAccept 2 ''b'' (script_conn [hello MsgTypePAKEInitSub 1]) 0,
     EvTask 1 sample_sched, EvTask 1 sample_sched, EvTask 1 sample_sched]"

lemma pub_sub_state:
  "\<exists>srv. fold sys_step pub_sub sys_init = (srv, [TPub 0 0, TNotify 0 1 (''b#'' @ print_nat 1) (hello MsgTypePAKEInitSub 1)])
     \<and> cl_netConn (clnt srv 0) = script_conn [hello MsgTypeDataStream 1]
     \<and> se_subscribers (sess srv 0) = [(''b#'' @ print_nat 1, 1)]
     \<and> cl_sendCh (clnt srv 1) = [] \<and> \<not> cl_done (clnt srv 1)"
  by (simp add: pub_sub_def run_simps step_greet_def upd_heap_def RegisterSubscriber_def)

theorem publisher_frame_forwarded_witness:
  "\<exists>srv t. fold sys_step pub_sub sys_init = (srv, [TPub 0 0, t])
     \<and> cl_sendCh (clnt (fst (sys_step (EvTask 0 sample_sched) (srv, [TPub 0 0, t]))) 1) = [hello MsgTypeDataStream 1]"
proof -
  obtain srv where s: "fold sys_step pub_sub sys_init
      = (srv, [TPub 0 0, TNotify 0 1 (''b#'' @ print_nat 1) (hello MsgTypePAKEInitSub 1)])"
    "cl_netConn (clnt srv 0) = script_conn [hello MsgTypeDataStream 1]"
    "se_subscribers (sess srv 0) = [(''b#'' @ print_nat 1, 1)]"
    "cl_sendCh (clnt srv 1) = []" "\<not> cl_done (clnt srv 1)"
    using pub_sub_state by blast
  then show ?thesis
    using publisher_frame_forwarded [OF s(1), of 0 0 0 "hello MsgTypeDataStream 1" "script_conn []" "''b#'' @ print_nat 1" 1 sample_sched]
    by (auto simp: msgtype_defs SubscriberQueueSize_def)
qed

section \<open>The session table\<close>

text \<open>Closing a session closes all its clients.\<close>

lemma ClientConn_Close_done [simp]: "cl_done (ClientConn_Close c)"
  by (simp add: ClientConn_Close_def Let_def)

lemma upd_close_done:
  "cl_done (hp_clients h ! i) \<or> i = j \<Longrightarrow> i < length (hp_clients h) \<Longrightarrow> cl_done (hp_clients (upd_client j ClientConn_Close h) ! i)"
  by (auto simp: nth_upd_client)

lemma fold_close_clients:
  "i < length (hp_clients h) \<Longrightarrow> cl_done (hp_clients h ! i) \<or> i \<in> snd ` set xs \<Longrightarrow>
   cl_done (hp_clients (fold (\<lambda>(_, j). upd_client j ClientConn_Close) xs h) ! i)"
proof (induction xs arbitrary: h)
  case (Cons x xs)
  obtain addr j where x: "x = (addr, j)" by fastforce
  show ?case
    using Cons.IH [of "upd_client j ClientConn_Close h"] Cons.prems upd_close_done [of h i j] x by auto
qed simp

lemma RelaySession_Close_done:
  assumes "\<not> se_closed (hp_sessions h ! s)" and "i \<in> members (hp_sessions h ! s)" and "i < length (hp_clients h)"
  shows "cl_done (hp_clients (RelaySession_Close s h) ! i)"
proof -
  let ?x = "hp_sessions h ! s"
  let ?h1 = "case se_publisher ?x of None \<Rightarrow> h | Some p \<Rightarrow> upd_client p ClientConn_Close h"
  have len: "i < length (hp_clients ?h1)" using assms(3) by (simp split: option.split)
  have "cl_done (hp_clients ?h1 ! i) \<or> i \<in> snd ` set (se_subscribers ?x)"
    using assms(2,3) by (auto simp: members_def nth_upd_client)
  then have "cl_done (hp_clients (fold (\<lambda>(_, j). upd_client j ClientConn_Close) (se_subscribers ?x) ?h1) ! i)"
    by (rule fold_close_clients [OF len])
  then show ?thesis using assms(1) by (simp add: RelaySession_Close_def Let_def upd_session_def)
qed

text \<open>
  A run in which a publisher ends, another one starts a new session under the same id, and the
  goroutine of a subscriber of the old session comes to its end.
\<close>

definition stale_run :: "event list" where
  "stale_run = [EvAccept 1 ''a'' (script_conn [hello MsgTypePAKEInitPub 1]) 0,
     EvTask 0 sample_sched, EvTask 0 sample_sched, EvTask 0 sample_sched, EvTask 0 sample_sched,
     EvAccept 2 ''b'' (script_conn [hello MsgTypePAKEInitSub 1]) 0,
     EvTask 1 sample_sched, EvTask 1 sample_sched, EvTask 1 sample_sched, EvTask 0 sample_sched, EvTask 0 sample_sched,
     EvAccept 3 ''c'' (script_conn [hello MsgTypePAKEInitPub 1]) 0,
     EvTask 1 sample_sched, EvTask 1 sample_sched, EvTask 1 sample_sched,
     EvTask 0 sample_sched, EvTask 0 sample_sched, EvTask 0 sample_sched, EvTask 0 sample_sched]"

lemma stale_run_state:
  "\<exists>srv. fold sys_step stale_run sys_init = (srv, [TDrop 0, TGreet 1 2]) \<and> se_sessionID (sess srv 0) = replicate 16 1
     \<and> lookupSession (replicate 16 1) srv = Some 1 \<and> members (sess srv 1) = {2} \<and> \<not> cl_done (clnt srv 2)"
  by (simp add: stale_run_def run_simps step_greet_def upd_heap_def RegisterSubscriber_def step_pub_def step_sub_def
      removeSession_def drop_session_def RelaySession_Close_def RemoveSubscriber_def ForwardToPublisher_def
      SendFrame_def SendFrameWithTimeout_def ClientConn_Close_def finish_def lookupSession_def members_def
      numeral_eq_Suc)

text \<open>C40: a stale goroutine removes a live session. In every reachable state, when a goroutine whose own
  session is \<open>s\<close> comes to \<open>removeSession\<close> and the table has another session \<open>s'\<close> under that id, then
  \<open>s'\<close> is open, and the step removes it from the table, closes it, and closes the connection of
  its publisher and of each of its subscribers; \<open>s\<close> itself is not touched. Sessions are removed by
  id, without checking which session the id stands for.\<close>

theorem stale_goroutine_removes_live_session:
  assumes "fold sys_step evs sys_init = (srv, ts)" and "k < length ts" and "ts ! k = TDrop s"
    and "lookupSession (se_sessionID (sess srv s)) srv = Some s'" and "s' \<noteq> s"
    and "sys_step (EvTask k sc) (srv, ts) = (srv', ts')"
  shows "\<not> se_closed (sess srv s') \<and> se_closed (sess srv' s') \<and> lookupSession (se_sessionID (sess srv s)) srv' = None
    \<and> list_all (\<lambda>i. cl_done (clnt srv' i)) (case se_publisher (sess srv s') of None \<Rightarrow> [] | Some p \<Rightarrow> [p])
    \<and> list_all (\<lambda>(_, i). cl_done (clnt srv' i)) (se_subscribers (sess srv s'))
    \<and> sess srv' s = sess srv s"
proof -
  let ?id = "se_sessionID (sess srv s)"
  have ok: "srv_ok srv" using relaym.run_inv [OF sys_init_ok, of evs] assms(1) by (simp add: sys_ok_def)
  have m: "map_of (sv_sessions srv) ?id = Some s'" using assms(4) by (simp add: lookupSession_def)
  have e: "s' < length (hp_sessions (sv_heap srv))" "\<not> se_closed (sess srv s')"
    using ok table_entry [OF _ m] by (simp_all add: srv_ok_def)
  have srv': "srv' = finish (removeSession ?id srv)" using assms(2,3,6) by simp
  then have h: "sv_heap srv' = RelaySession_Close s' (sv_heap srv)"
    "sv_sessions srv' = AList.delete ?id (sv_sessions srv)"
    using m by (simp_all add: removeSession_def drop_session_def finish_def)
  have d: "cl_done (clnt srv' i)" if "i \<in> members (sess srv s')" for i
  proof -
    have "i < length (hp_clients (sv_heap srv))" using ok members_bound [OF _ e(1) that] by (simp add: srv_ok_def)
    then show ?thesis using RelaySession_Close_done [OF e(2) that] h(1) by simp
  qed
  have "list_all (\<lambda>i. cl_done (clnt srv' i)) (case se_publisher (sess srv s') of None \<Rightarrow> [] | Some p \<Rightarrow> [p])"
    using d by (auto simp: members_def split: option.split)
  moreover have "list_all (\<lambda>(_, i). cl_done (clnt srv' i)) (se_subscribers (sess srv s'))"
    using d by (force simp: members_def list_all_iff)
  ultimately show ?thesis
    using e h assms(5) by (simp add: RelaySession_Close_sessions lookupSession_def delete_conv')
qed

theorem stale_goroutine_removes_live_session_witness:
  "\<exists>srv srv' ts'. fold sys_step stale_run sys_init = (srv, [TDrop 0, TGreet 1 2])
     \<and> sys_step (EvTask 0 sample_sched) (srv, [TDrop 0, TGreet 1 2]) = (srv', ts')
     \<and> \<not> se_closed (sess srv 1) \<and> se_closed (sess srv' 1) \<and> lookupSession (replicate 16 1) srv' = None"
proof -
  obtain srv where s: "fold sys_step stale_run sys_init = (srv, [TDrop 0, TGreet 1 2])"
    "se_sessionID (sess srv 0) = replicate 16 1" "lookupSession (replicate 16 1) srv = Some 1"
    using stale_run_state by blast
  obtain srv' ts' where n: "sys_step (EvTask 0 sample_sched) (srv, [TDrop 0, TGreet 1 2]) = (srv', ts')" by fastforce
  show ?thesis
    using stale_goroutine_removes_live_session [OF s(1) _ _ _ _ n, of 0 1] s(2,3)
    by (intro exI [of _ srv] exI [of _ srv'] exI [of _ ts'] conjI s(1) n) (simp_all del: sys_step.simps)
qed

text \<open>
  What a step of a task does to the table: nothing, or it adds the session named in a first
  handshake frame, or it removes a session.
\<close>

definition same_table :: "server \<Rightarrow> server \<Rightarrow> bool" where
  "same_table srv srv' \<longleftrightarrow> sv_sessions srv' = sv_sessions srv
     \<and> mt_ActiveSessions (sv_metrics srv') = mt_ActiveSessions (sv_metrics srv)"

definition added :: "bytes \<Rightarrow> server \<Rightarrow> server \<Rightarrow> bool" where
  "added sid srv srv' \<longleftrightarrow> map_of (sv_sessions srv) sid = None
     \<and> sv_sessions srv' = AList.update sid (length (hp_sessions (sv_heap srv))) (sv_sessions srv)
     \<and> mt_ActiveSessions (sv_metrics srv') = mt_ActiveSessions (sv_metrics srv) + 1"

definition removed :: "bytes \<Rightarrow> server \<Rightarrow> server \<Rightarrow> bool" where
  "removed sid srv srv' \<longleftrightarrow> map_of (sv_sessions srv) sid \<noteq> None
     \<and> sv_sessions srv' = AList.delete sid (sv_sessions srv)
     \<and> mt_ActiveSessions (sv_metrics srv') = mt_ActiveSessions (sv_metrics srv) - 1"

definition handshake :: "envelope \<Rightarrow> bool" where
  "handshake env \<longleftrightarrow> env_MsgType env = MsgTypePAKEInitPub \<or> env_MsgType env = MsgTypePAKEInitSub"

lemma same_table_simps [simp]:
  "same_table srv srv" "same_table srv (finish srv') = same_table srv srv'"
  "same_table srv (upd_heap f srv') = same_table srv srv'"
  "same_table srv (srv'\<lparr>sv_heap := h\<rparr>) = same_table srv srv'"
  "same_table srv (srv'\<lparr>sv_rateLimiter := rl\<rparr>) = same_table srv srv'"
  "same_table srv (count_malformed srv') = same_table srv srv'"
  "same_table srv (SetTrustProxy trust srv') = same_table srv srv'"
  "same_table srv (SetRateLimiting enabled srv') = same_table srv srv'"
  "same_table srv (upd_metrics (\<lambda>m. m\<lparr>mt_ActiveConnections := g m\<rparr>) (srv'\<lparr>sv_activeConns := n\<rparr>)) = same_table srv srv'"
  by (simp_all add: same_table_def finish_def upd_heap_def count_malformed_def SetTrustProxy_def SetRateLimiting_def)

lemma removed_finish [simp]: "removed sid srv (finish srv') = removed sid srv srv'"
  by (simp add: removed_def finish_def)

lemma getOrCreateSession_table:
  "getOrCreateSession now sid srv = (s, srv') \<Longrightarrow> same_table srv srv' \<or> added sid srv srv'"
  by (auto simp: getOrCreateSession_def same_table_def added_def Let_def split: option.splits)

lemma removeSession_table: "same_table srv (removeSession sid srv) \<or> removed sid srv (removeSession sid srv)"
  by (auto simp: removeSession_def same_table_def removed_def drop_session_def split: option.splits)

lemma step_conn_table:
  "same_table srv (fst (step_conn sc key raddr c got srv))
   \<or> (\<exists>env rest. fst (receive_first (sc_now sc) got raddr c srv) = Inr (env, rest) \<and> handshake env
        \<and> added (env_SessionID env) srv (fst (step_conn sc key raddr c got srv)))"
proof -
  obtain r srv1 where r: "receive_first (sc_now sc) got raddr c srv = (r, srv1)" by fastforce
  note fr = receive_first_frame [OF r]
  then have st: "same_table srv srv1" by (simp add: same_table_def)
  show ?thesis
  proof (cases r)
    case (Inl a)
    then show ?thesis using r st by (simp add: step_conn_def)
  next
    case (Inr x)
    obtain env c' ra where x: "x = (env, c', ra)" by (cases x) auto
    obtain s srv2 where g: "getOrCreateSession (sc_now sc) (env_SessionID env) srv1 = (s, srv2)" by fastforce
    have "same_table srv srv2 \<or> added (env_SessionID env) srv srv2"
      using getOrCreateSession_table [OF g] fr by (simp add: same_table_def added_def)
    then show ?thesis
      using r Inr x g st
      by (cases "handshake env") (auto simp: step_conn_def handshake_def split: option.splits)
  qed
qed

lemma task_step_table:
  "same_table srv (fst (task_step sc t srv))
   \<or> (\<exists>key raddr c got env rest. t = TConn key raddr c got
        \<and> fst (receive_first (sc_now sc) got raddr c srv) = Inr (env, rest) \<and> handshake env
        \<and> added (env_SessionID env) srv (fst (task_step sc t srv)))
   \<or> (\<exists>s. t = TDrop s \<and> removed (se_sessionID (sess srv s)) srv (fst (task_step sc t srv)))"
proof (cases t)
  case (TConn key raddr c got)
  then show ?thesis using step_conn_table [of srv sc key raddr c got] by auto
next
  case (TDrop s)
  then show ?thesis
    using removeSession_table [of srv "se_sessionID (sess srv s)"] by auto
next
  case (TPub s i)
  then show ?thesis
    by (auto simp: step_pub_def Let_def same_table_def upd_heap_def split: prod.splits sum.splits)
next
  case (TAdmit tcp key raddr c got)
  then show ?thesis by (simp add: same_table_def)
qed (auto simp: step_regpub_def step_greet_def step_sub_def Let_def split: prod.splits sum.splits option.splits)

text \<open>C23: only a handshake frame creates a session. In every reachable state, if an event puts an id into the
  table that was not there, then the event is the step of a fresh connection whose first frame
  is a publisher's or subscriber's handshake frame with exactly that id.\<close>

theorem session_created_only_by_handshake:
  assumes "fold sys_step evs sys_init = (srv, ts)" and "lookupSession sid srv = None"
    and "lookupSession sid (fst (sys_step ev (srv, ts))) \<noteq> None"
  shows "\<exists>k sc key raddr c got env rest. ev = EvTask k sc \<and> k < length ts \<and> ts ! k = TConn key raddr c got
     \<and> fst (receive_first (sc_now sc) got raddr c srv) = Inr (env, rest)
     \<and> (env_MsgType env = MsgTypePAKEInitPub \<or> env_MsgType env = MsgTypePAKEInitSub) \<and> env_SessionID env = sid"
proof (cases ev)
  case (EvTask k sc)
  have k: "k < length ts" using assms(2,3) EvTask by (auto split: if_splits)
  then have st: "fst (sys_step ev (srv, ts)) = fst (task_step sc (ts ! k) srv)"
    using EvTask by (cases "task_step sc (ts ! k) srv") simp
  from task_step_table [of srv sc "ts ! k"] show ?thesis
  proof (elim disjE exE conjE)
    fix key raddr c got env rest
    assume h: "ts ! k = TConn key raddr c got" "fst (receive_first (sc_now sc) got raddr c srv) = Inr (env, rest)"
      "handshake env" "added (env_SessionID env) srv (fst (task_step sc (ts ! k) srv))"
    then have "env_SessionID env = sid"
      using assms(2,3) st by (auto simp: lookupSession_def added_def update_conv' split: if_splits)
    then show ?thesis using h EvTask k by (auto simp: handshake_def)
  qed (use assms(2,3) st in \<open>auto simp: lookupSession_def same_table_def removed_def delete_conv' split: if_splits\<close>)
next
  case (EvTick now)
  have "map_of (sv_sessions (fold (reap_one now) xs x)) sid = None"
    if "map_of (sv_sessions x) sid = None" for xs x
    using that by (induction xs arbitrary: x) (auto simp: reap_one_def drop_session_def delete_conv')
  then show ?thesis using EvTick assms(2,3) by (simp add: lookupSession_def reapStaleSessions_def)
next
  case EvCloseAll
  have "map_of (sv_sessions (fold (\<lambda>(id, s). drop_session id s) xs x)) sid = None"
    if "map_of (sv_sessions x) sid = None" for xs x
    using that by (induction xs arbitrary: x) (auto simp: drop_session_def delete_conv')
  then show ?thesis using EvCloseAll assms(2,3) by (simp add: lookupSession_def CloseAll_def)
qed (use assms(2,3) in \<open>auto simp: lookupSession_def SetTrustProxy_def SetRateLimiting_def split: if_splits\<close>)

theorem session_created_only_by_handshake_witness:
  "\<exists>srv k sc key raddr c got env rest. fold sys_step [EvAccept 1 ''a'' (script_conn [hello MsgTypePAKEInitPub 1]) 0, EvTask 0 sample_sched] sys_init
      = (srv, [TConn 1 ''a'' (script_conn [hello MsgTypePAKEInitPub 1]) 0])
     \<and> EvTask 0 sample_sched = EvTask k sc \<and> [TConn 1 ''a'' (script_conn [hello MsgTypePAKEInitPub 1]) 0] ! k = TConn key raddr c got
     \<and> fst (receive_first (sc_now sc) got raddr c srv) = Inr (env, rest) \<and> env_SessionID env = replicate 16 1"
proof -
  let ?ts = "[TConn 1 ''a'' (script_conn [hello MsgTypePAKEInitPub 1]) 0]"
  obtain srv where r: "fold sys_step [EvAccept 1 ''a'' (script_conn [hello MsgTypePAKEInitPub 1]) 0, EvTask 0 sample_sched] sys_init = (srv, ?ts)"
    and l: "lookupSession (replicate 16 1) srv = None"
      "lookupSession (replicate 16 1) (fst (sys_step (EvTask 0 sample_sched) (srv, ?ts))) \<noteq> None"
    by (simp add: run_simps lookupSession_def)
  from session_created_only_by_handshake [OF r l] r show ?thesis by blast
qed

lemma length_delete: "distinct (map fst xs) \<Longrightarrow> map_of xs k \<noteq> None \<Longrightarrow> length (AList.delete k xs) = length xs - 1"
proof (induction xs)
  case (Cons x xs)
  show ?case
  proof (cases "fst x = k")
    case True
    then have "AList.delete k xs = xs" using Cons.prems(1) by (auto simp: delete_idem)
    then show ?thesis using True by (cases x) simp
  next
    case False
    then have "xs \<noteq> []" "map_of xs k \<noteq> None" using Cons.prems(2) by (auto split: if_splits)
    then show ?thesis using Cons False by (cases x) simp
  qed
qed simp

text \<open>The gauge of sessions shows the size of the table.\<close>

definition sessions_shown :: "server \<Rightarrow> bool" where
  "sessions_shown srv \<longleftrightarrow> distinct (map fst (sv_sessions srv))
     \<and> mt_ActiveSessions (sv_metrics srv) = int (SessionCount srv)"

lemma sessions_shown_removed: "removed sid srv srv' \<Longrightarrow> sessions_shown srv \<Longrightarrow> sessions_shown srv'"
proof -
  assume r: "removed sid srv srv'" and s: "sessions_shown srv"
  have d: "distinct (map fst (AList.delete sid (sv_sessions srv)))"
    using s by (intro distinct_delete) (simp add: sessions_shown_def)
  have "sv_sessions srv \<noteq> []" using r by (auto simp: removed_def)
  moreover have "length (AList.delete sid (sv_sessions srv)) = length (sv_sessions srv) - 1"
    using r s by (intro length_delete) (simp_all add: removed_def sessions_shown_def)
  ultimately have "int (length (AList.delete sid (sv_sessions srv))) = int (length (sv_sessions srv)) - 1"
    by (cases "length (sv_sessions srv)") simp_all
  then show ?thesis using r s d by (simp add: sessions_shown_def removed_def SessionCount_def)
qed

lemma length_update_new: "map_of xs k = None \<Longrightarrow> length (AList.update k v xs) = Suc (length xs)"
  by (induction xs) (auto split: if_splits)

lemma sessions_shown_added: "added sid srv srv' \<Longrightarrow> sessions_shown srv \<Longrightarrow> sessions_shown srv'"
  by (auto simp: sessions_shown_def added_def SessionCount_def distinct_update length_update_new)

lemma sessions_shown_same: "same_table srv srv' \<Longrightarrow> sessions_shown srv' = sessions_shown srv"
  by (simp add: sessions_shown_def same_table_def SessionCount_def)

lemma reap_one_table:
  "map_of (sv_sessions srv) (fst x) \<noteq> None \<Longrightarrow> same_table srv (reap_one now x srv) \<or> removed (fst x) srv (reap_one now x srv)"
  by (auto simp: reap_one_def same_table_def removed_def drop_session_def split: prod.splits)

lemma reap_one_other: "sid \<noteq> fst x \<Longrightarrow> map_of (sv_sessions (reap_one now x srv)) sid = map_of (sv_sessions srv) sid"
  by (auto simp: reap_one_def drop_session_def delete_conv' split: prod.splits)

lemma reap_fold_shown:
  "distinct (map fst xs) \<Longrightarrow> (\<And>sid. sid \<in> fst ` set xs \<Longrightarrow> map_of (sv_sessions srv) sid \<noteq> None) \<Longrightarrow> sessions_shown srv \<Longrightarrow>
   sessions_shown (fold (reap_one now) xs srv)"
proof (induction xs arbitrary: srv)
  case (Cons x xs)
  have "sessions_shown (reap_one now x srv)"
    using reap_one_table [of srv x now] Cons.prems sessions_shown_removed sessions_shown_same by force
  moreover have "map_of (sv_sessions (reap_one now x srv)) sid \<noteq> None" if "sid \<in> fst ` set xs" for sid
  proof -
    have "sid \<noteq> fst x" using that Cons.prems(1) by (metis distinct.simps(2) list.simps(9) set_map)
    then show ?thesis using reap_one_other Cons.prems(2) that by simp
  qed
  ultimately show ?case using Cons.IH Cons.prems(1) by simp
qed simp

lemma reap_shown: "sessions_shown srv \<Longrightarrow> sessions_shown (reapStaleSessions now srv)"
  unfolding reapStaleSessions_def
  by (rule reap_fold_shown) (auto simp: sessions_shown_def map_of_eq_None_iff)

lemma sys_step_shown:
  "ev \<noteq> EvCloseAll \<Longrightarrow> sessions_shown (fst st) \<Longrightarrow> sessions_shown (fst (sys_step ev st))"
proof (cases st)
  case (Pair srv ts)
  assume ev: "ev \<noteq> EvCloseAll" and sh: "sessions_shown (fst st)"
  show ?thesis
  proof (cases ev)
    case (EvTask k sc)
    then show ?thesis
      using Pair sh task_step_table [of srv sc "ts ! k"] sessions_shown_same sessions_shown_added sessions_shown_removed
      by (cases "task_step sc (ts ! k) srv") auto
  next
    case (EvTick now)
    have "same_table srv (srv\<lparr>sv_rateLimiter := CleanupStale now (15 * 60 * 1000000000) (sv_rateLimiter srv)\<rparr>)" by simp
    from sessions_shown_same [OF this] show ?thesis using EvTick Pair sh reap_shown by simp
  qed (use ev Pair sh in \<open>auto simp: sessions_shown_def SessionCount_def SetTrustProxy_def SetRateLimiting_def\<close>)
qed

text \<open>The gauge \<open>ActiveSessions\<close> of the metrics page is exactly the number of sessions in the table,
  in every run in which the server is not shut down. (\<open>CloseAll\<close> empties the table and leaves the
  gauge as it is.)\<close>

lemma active_sessions_exact:
  "mt_ActiveSessions (sv_metrics (fst (fold sys_step (filter (\<lambda>ev. ev \<noteq> EvCloseAll) evs) sys_init)))
   = int (SessionCount (fst (fold sys_step (filter (\<lambda>ev. ev \<noteq> EvCloseAll) evs) sys_init)))"
proof -
  have "sessions_shown (fst (fold sys_step (filter (\<lambda>ev. ev \<noteq> EvCloseAll) evs) st))" if "sessions_shown (fst st)" for st
    using that by (induction evs arbitrary: st) (simp_all add: sys_step_shown)
  moreover have "sessions_shown (fst sys_init)"
    by (simp add: sys_init_def sessions_shown_def NewServer_def NewMetrics_def SessionCount_def)
  ultimately show ?thesis by (simp add: sessions_shown_def)
qed

section \<open>Housekeeping\<close>

lemma reap_one_sess: "s \<noteq> snd x \<Longrightarrow> sess (reap_one now x srv) s = sess srv s"
  by (auto simp: reap_one_def drop_session_def RelaySession_Close_sessions split: prod.splits)

lemma reap_fold_spec:
  "distinct (map fst xs) \<Longrightarrow> distinct (map snd xs) \<Longrightarrow>
   map_of (sv_sessions (fold (reap_one now) xs srv)) sid =
     (case map_of xs sid of Some s \<Rightarrow> (if IsReapable now (sess srv s) then None else map_of (sv_sessions srv) sid)
      | None \<Rightarrow> map_of (sv_sessions srv) sid)"
  and reap_fold_sess:
  "distinct (map snd xs) \<Longrightarrow> t \<notin> snd ` set xs \<or> \<not> IsReapable now (sess srv t) \<Longrightarrow>
   sess (fold (reap_one now) xs srv) t = sess srv t"
proof (induction xs arbitrary: srv)
  case (Cons x xs)
  obtain id s where x: "x = (id, s)" by fastforce
  {
    case 1
    have sess: "sess (reap_one now x srv) s' = sess srv s'" if "map_of xs sid = Some s'" for s'
      using that 1 x map_of_SomeD [OF that] by (intro reap_one_sess) force
    have ne: "map_of xs id = None" using 1 x by (simp add: map_of_eq_None_iff)
    have other: "sid \<noteq> id \<Longrightarrow> map_of (sv_sessions (reap_one now x srv)) sid = map_of (sv_sessions srv) sid"
      using reap_one_other [of sid x] x by simp
    have "map_of (sv_sessions (reap_one now x srv)) id = (if IsReapable now (sess srv s) then None else map_of (sv_sessions srv) id)"
      using x by (simp add: reap_one_def drop_session_def delete_conv')
    with ne other sess show ?case
      using Cons.IH(1) [of "reap_one now x srv"] 1 x by (cases "sid = id") (auto split: option.splits)
  next
    case 2
    have "sess (reap_one now x srv) t = sess srv t"
    proof (cases "t = s")
      case True
      then have "\<not> IsReapable now (sess srv s)" using 2 x by auto
      then show ?thesis using True x by (simp add: reap_one_def)
    qed (use reap_one_sess [of t x] x in simp)
    then show ?case using Cons.IH(2) [of "reap_one now x srv"] 2 x by auto
  }
qed simp_all

lemma table_ok_distinct_snd: "table_ok srv \<Longrightarrow> distinct (map snd (sv_sessions srv))"
proof -
  assume t: "table_ok srv"
  then have d: "distinct (map fst (sv_sessions srv))" by (simp add: table_ok_def)
  have "fst x = se_sessionID (sess srv (snd x))" if "x \<in> set (sv_sessions srv)" for x
    using table_entry [OF t map_of_is_SomeI [OF d, of "fst x" "snd x"]] that by simp
  then have "inj_on snd (set (sv_sessions srv))" by (intro inj_onI) (simp add: prod_eq_iff)
  then show ?thesis using d by (simp add: distinct_map)
qed

text \<open>C32: housekeeping is exact. In every reachable state, a tick of the ticker removes from the table precisely
  the sessions that have no publisher, no subscriber, and are at least thirty seconds old; every
  other session stays in the table as it was.\<close>

theorem housekeeping_exact:
  assumes "fold sys_step evs sys_init = (srv, ts)" and "lookupSession sid srv = Some s"
  shows "lookupSession sid (fst (sys_step (EvTick now) (srv, ts))) =
      (if se_publisher (sess srv s) = None \<and> se_subscribers (sess srv s) = []
          \<and> 30 * 1000000000 \<le> now - se_createdAt (sess srv s)
       then None else Some s)
    \<and> (lookupSession sid (fst (sys_step (EvTick now) (srv, ts))) = None
       \<or> sess (fst (sys_step (EvTick now) (srv, ts))) s = sess srv s)"
proof -
  have "sys_ok (srv, ts)" using relaym.run_inv [OF sys_init_ok, of evs] assms(1) by simp
  then have t: "table_ok srv" by (simp add: sys_ok_def srv_ok_def)
  then have d: "distinct (map fst (sv_sessions srv))" "distinct (map snd (sv_sessions srv))" "\<not> se_closed (sess srv s)"
    using table_ok_distinct_snd table_entry [OF t, of sid s] assms(2) by (simp_all add: table_ok_def lookupSession_def)
  let ?srv = "srv\<lparr>sv_rateLimiter := CleanupStale now (15 * 60 * 1000000000) (sv_rateLimiter srv)\<rparr>"
  have m: "map_of (sv_sessions (reapStaleSessions now ?srv)) sid = (if IsReapable now (sess srv s) then None else Some s)"
    using reap_fold_spec [of "sv_sessions srv" now ?srv sid] d assms(2)
    by (simp add: reapStaleSessions_def lookupSession_def)
  moreover have "sess (reapStaleSessions now ?srv) s = sess srv s" if "\<not> IsReapable now (sess srv s)"
    using reap_fold_sess [of "sv_sessions srv" s now ?srv] d that by (simp add: reapStaleSessions_def)
  moreover have "IsReapable now (sess srv s) \<longleftrightarrow> se_publisher (sess srv s) = None \<and> se_subscribers (sess srv s) = []
          \<and> 30 * 1000000000 \<le> now - se_createdAt (sess srv s)"
    using d(3) by (auto simp: IsReapable_def IsEmpty_def sessionGracePeriod_def Let_def)
  ultimately show ?thesis by (simp add: lookupSession_def)
qed

theorem housekeeping_exact_witness:
  "\<exists>srv ts. fold sys_step [EvAccept 1 ''a'' (script_conn [hello MsgTypePAKEInitPub 1]) 0, EvTask 0 sample_sched, EvTask 0 sample_sched] sys_init = (srv, ts)
     \<and> lookupSession (replicate 16 1) (fst (sys_step (EvTick 29000000000) (srv, ts))) = Some 0
     \<and> lookupSession (replicate 16 1) (fst (sys_step (EvTick 30000000000) (srv, ts))) = None"
proof -
  let ?evs = "[EvAccept 1 ''a'' (script_conn [hello MsgTypePAKEInitPub 1]) 0, EvTask 0 sample_sched, EvTask 0 sample_sched]"
  obtain srv ts where r: "fold sys_step ?evs sys_init = (srv, ts)"
    and s: "lookupSession (replicate 16 1) srv = Some 0" "sess srv 0 = NewRelaySession 0 (replicate 16 1)"
    by (simp add: run_simps lookupSession_def sample_sched_def)
  show ?thesis
    using housekeeping_exact [OF r s(1), of 29000000000] housekeeping_exact [OF r s(1), of 30000000000] r s(2)
    by (intro exI [of _ srv] exI [of _ ts]) (simp add: NewRelaySession_def)
qed

end
