(* ===== verification/WebSocket.thy ===== *)
theory WebSocket
  imports Go_IO Go_Strings
begin

text \<open>
  \<open>pkg/relay/websocket.go\<close>: the origin check, the upgrade of an HTTP request, and the connection
  \<open>wsConn\<close> that unwraps and wraps RFC 6455 frames. A \<open>bufio.Reader\<close> over the connection reads
  the same bytes in the same order as the connection, so the reader is the connection's
  input. SHA-1 and base64 are those of the standard library.
\<close>

section \<open>SHA-1 and base64\<close>

type_synonym sha1_state = "u32 \<times> u32 \<times> u32 \<times> u32 \<times> u32"

definition sha1_f :: "nat \<Rightarrow> u32 \<Rightarrow> u32 \<Rightarrow> u32 \<Rightarrow> u32" where
  "sha1_f t b c d =
     (if t < 20 then (b AND c) OR (NOT b AND d)
      else if 40 \<le> t \<and> t < 60 then (b AND c) OR (b AND d) OR (c AND d)
      else b XOR c XOR d)"

definition sha1_k :: "nat \<Rightarrow> u32" where
  "sha1_k t = (if t < 20 then 0x5a827999 else if t < 40 then 0x6ed9eba1
               else if t < 60 then 0x8f1bbcdc else 0xca62c1d6)"

fun sha1_round :: "nat \<times> u32 \<Rightarrow> sha1_state \<Rightarrow> sha1_state" where
  "sha1_round (t, w) (a, b, c, d, e) =
     (word_rotl 5 a + sha1_f t b c d + e + sha1_k t + w, a, word_rotl 30 b, c, d)"

primrec sha1_schedule :: "nat \<Rightarrow> u32 list \<Rightarrow> u32 list" where
  "sha1_schedule 0 w = w"
| "sha1_schedule (Suc n) w =
     (let t = length w in
      sha1_schedule n (w @ [word_rotl 1 (w ! (t - 3) XOR w ! (t - 8) XOR w ! (t - 14) XOR w ! (t - 16))]))"

fun sha1_add :: "sha1_state \<Rightarrow> sha1_state \<Rightarrow> sha1_state" where
  "sha1_add (a, b, c, d, e) (a', b', c', d', e') = (a + a', b + b', c + c', d + d', e + e')"

definition sha1_block :: "bytes \<Rightarrow> sha1_state \<Rightarrow> sha1_state" where
  "sha1_block blk st =
     (let w = sha1_schedule 64 (map (\<lambda>i. Uint32 (go_slice blk (4 * i) (4 * i + 4))) [0..<16])
      in sha1_add st (fold sha1_round (zip [0..<80] w) st))"

fun sha1_digest :: "sha1_state \<Rightarrow> bytes" where
  "sha1_digest (a, b, c, d, e) = concat (map PutUint32 [a, b, c, d, e])"

definition sha1 :: "bytes \<Rightarrow> bytes" where
  "sha1 m =
     (let p = m @ [0x80] @ replicate ((119 - length m mod 64) mod 64) 0 @ PutUint64 (of_nat (8 * length m))
      in sha1_digest (fold sha1_block (map (\<lambda>i. go_slice p (64 * i) (64 * i + 64)) [0..<length p div 64])
           (0x67452301, 0xefcdab89, 0x98badcfe, 0x10325476, 0xc3d2e1f0)))"

definition b64_char :: "nat \<Rightarrow> char" where
  "b64_char n = ''ABCDEFGHIJKLMNOPQRSTUVWXYZabcdefghijklmnopqrstuvwxyz0123456789+/'' ! n"

fun base64 :: "nat list \<Rightarrow> string" where
  "base64 [] = []"
| "base64 [a] = [b64_char (a div 4), b64_char (a mod 4 * 16), CHR ''='', CHR ''='']"
| "base64 [a, b] = [b64_char (a div 4), b64_char (a mod 4 * 16 + b div 16), b64_char (b mod 16 * 4), CHR ''='']"
| "base64 (a # b # c # r) =
     b64_char (a div 4) # b64_char (a mod 4 * 16 + b div 16) # b64_char (b mod 16 * 4 + c div 64)
     # b64_char (c mod 64) # base64 r"

section \<open>Origins and the upgrade\<close>

definition wsMagicGUID :: string where
  "wsMagicGUID = ''258EAFA5-E914-47DA-95CA-C5AB0DC85B11''"

text \<open>\<open>envAllowed\<close> is the value of the environment variable \<open>ZEROFEED_ALLOWED_ORIGINS\<close>.\<close>

definition isAllowedOrigin :: "string \<Rightarrow> string \<Rightarrow> string \<Rightarrow> bool" where
  "isAllowedOrigin envAllowed origin host =
     (if envAllowed \<noteq> '''' \<and> envAllowed = ''*'' then True
      else if envAllowed \<noteq> ''''
           \<and> list_ex (\<lambda>allowed. EqualFold (TrimSpace allowed) origin) (Split envAllowed (CHR '','')) then True
      else
        let lowerOrigin = ToLower origin in
        if HasPrefix lowerOrigin ''http://localhost'' \<or> HasPrefix lowerOrigin ''https://localhost''
           \<or> HasPrefix lowerOrigin ''http://127.0.0.1'' \<or> HasPrefix lowerOrigin ''https://127.0.0.1''
        then True
        else if lowerOrigin = ''https://nicolainzerillo.github.io'' \<or> HasSuffix lowerOrigin ''.github.io''
        then True
        else if host \<noteq> '''' \<and>
                (lowerOrigin = ''http://'' @ ToLower host \<or> lowerOrigin = ''https://'' @ ToLower host)
        then True
        else False)"

definition computeAcceptKey :: "string \<Rightarrow> string" where
  "computeAcceptKey clientKey = base64 (map unat (sha1 (bytes_of (clientKey @ wsMagicGUID))))"

record wsconn =
  ws_conn :: conn
  ws_readBuf :: bytes

text \<open>The parts of the request the upgrade reads: three header values and the host.\<close>

record ws_request =
  rq_Upgrade :: string
  rq_Key :: string
  rq_Origin :: string
  rq_Host :: string

datatype ws_err = ErrNotWebsocket | ErrMissingKey | ErrOriginNotAllowed | ErrNoHijack | ErrHijack
  | ErrWsIO io_err | ErrFrameTooLarge

definition upgrade_response :: "string \<Rightarrow> string" where
  "upgrade_response acceptKey =
     ''HTTP/1.1 101 Switching Protocols'' @ [CHR 0x0D, CHR 0x0A] @
     ''Upgrade: websocket'' @ [CHR 0x0D, CHR 0x0A] @
     ''Connection: Upgrade'' @ [CHR 0x0D, CHR 0x0A] @
     ''Sec-WebSocket-Accept: '' @ acceptKey @ [CHR 0x0D, CHR 0x0A, CHR 0x0D, CHR 0x0A]"

text \<open>
  \<open>hj\<close> is the response writer as a hijacker: \<open>None\<close> when it is none, \<open>Some None\<close> when \<open>Hijack\<close>
  fails. The response fits the writer's buffer, so that \<open>WriteString\<close> succeeds, and the error of
  \<open>Flush\<close> is dropped.
\<close>

definition UpgradeWebSocket :: "string \<Rightarrow> ws_request \<Rightarrow> conn option option \<Rightarrow> ws_err + wsconn" where
  "UpgradeWebSocket envAllowed r hj =
     (if \<not> EqualFold (rq_Upgrade r) ''websocket'' then Inl ErrNotWebsocket
      else let clientKey = TrimSpace (rq_Key r) in
      if clientKey = '''' then Inl ErrMissingKey
      else let origin = TrimSpace (rq_Origin r) in
      if origin \<noteq> '''' \<and> \<not> isAllowedOrigin envAllowed origin (rq_Host r) then Inl ErrOriginNotAllowed
      else case hj of None \<Rightarrow> Inl ErrNoHijack
      | Some None \<Rightarrow> Inl ErrHijack
      | Some (Some c) \<Rightarrow>
          let c = snd (conn_Write (bytes_of (upgrade_response (computeAcceptKey clientKey))) c)
          in Inr \<lparr>ws_conn = c, ws_readBuf = []\<rparr>)"

section \<open>Reading frames\<close>

text \<open>The frame length behind the second header byte.\<close>

definition ws_length :: "u64 \<Rightarrow> conn \<Rightarrow> (ws_err + u64) \<times> conn" where
  "ws_length payloadLen c =
     (if payloadLen = 126 then
        (case ReadFull 2 c of (Inl e, c) \<Rightarrow> (Inl (ErrWsIO e), c)
         | (Inr l, c) \<Rightarrow> (Inr (ucast (Uint16 l)), c))
      else if payloadLen = 127 then
        (case ReadFull 8 c of (Inl e, c) \<Rightarrow> (Inl (ErrWsIO e), c)
         | (Inr l, c) \<Rightarrow> if 64 * 1024 * 1024 < Uint64 l then (Inl ErrFrameTooLarge, c)
                         else (Inr (Uint64 l), c))
      else (Inr payloadLen, c))"

definition unmask :: "bytes \<Rightarrow> bytes \<Rightarrow> bytes" where
  "unmask maskKey payload = map (\<lambda>i. payload ! i XOR maskKey ! (i mod 4)) [0..<length payload]"

text \<open>One frame: the part of the loop body of \<open>Read\<close> up to the unmasked payload, with its opcode.\<close>

definition ws_readFrame :: "conn \<Rightarrow> (ws_err + byte \<times> bytes) \<times> conn" where
  "ws_readFrame c =
     (case ReadFull 1 c of (Inl e, c) \<Rightarrow> (Inl (ErrWsIO e), c)
      | (Inr h, c) \<Rightarrow>
          let opcode = hd h AND 0x0F in
          if opcode = 0x08 then (Inl (ErrWsIO EOF), c)
          else (case ReadFull 1 c of (Inl e, c) \<Rightarrow> (Inl (ErrWsIO e), c)
          | (Inr l, c) \<Rightarrow>
              let lenByte = hd l; masked = (lenByte AND 0x80 \<noteq> 0) in
              (case ws_length (ucast (lenByte AND 0x7F)) c of (Inl e, c) \<Rightarrow> (Inl e, c)
               | (Inr payloadLen, c) \<Rightarrow>
                   (case (if masked then ReadFull 4 c else (Inr [0, 0, 0, 0], c)) of
                      (Inl e, c) \<Rightarrow> (Inl (ErrWsIO e), c)
                    | (Inr maskKey, c) \<Rightarrow>
                        (case ReadFull (unat payloadLen) c of
                           (Inl e, c) \<Rightarrow> (Inl (ErrWsIO e), c)
                         | (Inr payload, c) \<Rightarrow>
                             (Inr (opcode, if masked then unmask maskKey payload else payload), c))))))"

definition ws_pong :: "bytes \<Rightarrow> bytes" where
  "ws_pong payload =
     (let pLen = length payload;
          pongHeader = [0x8A];
          pongHeader = (if pLen \<le> 125 then pongHeader @ [of_nat pLen]
                        else pongHeader @ [126, of_nat (pLen div 256), of_nat pLen])
      in pongHeader @ payload)"

lemma ReadFull_shrinks:
  "ReadFull n c = (Inr bs, c') \<Longrightarrow> length (cn_in c') + n = length (cn_in c)"
  by (auto simp: ReadFull_Inr_iff)

lemma ws_length_shrinks: "ws_length l c = (Inr n, c') \<Longrightarrow> length (cn_in c') \<le> length (cn_in c)"
  by (auto simp: ws_length_def split: if_splits prod.splits sum.splits dest!: ReadFull_shrinks)

lemma ws_readFrame_shrinks:
  "ws_readFrame c = (Inr f, c') \<Longrightarrow> length (cn_in c') < length (cn_in c)"
  by (auto simp: ws_readFrame_def Let_def split: if_splits prod.splits sum.splits
      dest!: ReadFull_shrinks ws_length_shrinks)

text \<open>The loop of \<open>Read\<close>: it ends with data in the buffer, after a data frame, or with an error.\<close>

function ws_fill :: "wsconn \<Rightarrow> (ws_err + unit) \<times> wsconn" where
  "ws_fill c =
     (if ws_readBuf c \<noteq> [] then (Inr (), c)
      else case ws_readFrame (ws_conn c) of
        (Inl e, cn) \<Rightarrow> (Inl e, c\<lparr>ws_conn := cn\<rparr>)
      | (Inr (opcode, payload), cn) \<Rightarrow>
          if opcode = 0x09 then ws_fill (c\<lparr>ws_conn := snd (conn_Write (ws_pong payload) cn)\<rparr>)
          else if opcode = 0x01 \<or> opcode = 0x02 \<or> opcode = 0x00 then
            (Inr (), c\<lparr>ws_conn := cn, ws_readBuf := payload\<rparr>)
          else ws_fill (c\<lparr>ws_conn := cn\<rparr>))"
  by pat_completeness auto
termination
  by (relation "measure (\<lambda>c. length (cn_in (ws_conn c)))")
     (auto dest!: sym [of _ "ws_readFrame _"] ws_readFrame_shrinks simp: conn_Write_def)

declare ws_fill.simps [simp del]

text \<open>\<open>Read\<close> into a buffer of \<open>n\<close> bytes.\<close>

definition wsConn_Read :: "nat \<Rightarrow> wsconn \<Rightarrow> (ws_err + bytes) \<times> wsconn" where
  "wsConn_Read n c =
     (case ws_fill c of (Inl e, c) \<Rightarrow> (Inl e, c)
      | (Inr _, c) \<Rightarrow> (Inr (take n (ws_readBuf c)), c\<lparr>ws_readBuf := drop n (ws_readBuf c)\<rparr>))"

definition wsConn_Write :: "bytes \<Rightarrow> wsconn \<Rightarrow> bool \<times> wsconn" where
  "wsConn_Write p c =
     (let len = length p;
          frame = [0x82];
          frame = (if len \<le> 125 then frame @ [of_nat len]
                   else if len \<le> 65535 then frame @ [126] @ PutUint16 (of_nat len)
                   else frame @ [127] @ PutUint64 (of_nat len));
          frame = frame @ p;
          (ok, cn) = conn_Write frame (ws_conn c)
      in (ok, c\<lparr>ws_conn := cn\<rparr>))"

lemma ws_fill_shrinks:
  "ws_fill c = (Inr u, c') \<Longrightarrow> ws_readBuf c = [] \<Longrightarrow> length (cn_in (ws_conn c')) < length (cn_in (ws_conn c))"
proof (induction c rule: ws_fill.induct)
  case (1 c)
  show ?case
  proof (cases "ws_readFrame (ws_conn c)")
    case (Pair r cn)
    show ?thesis
    proof (cases r)
      case (Inl e)
      then show ?thesis using "1.prems" Pair by (simp add: ws_fill.simps [of c])
    next
      case (Inr f)
      obtain op pl where f: "f = (op, pl)" by fastforce
      have "length (cn_in cn) < length (cn_in (ws_conn c))"
        using ws_readFrame_shrinks Pair Inr by blast
      then show ?thesis
        using "1.prems" "1.IH" Pair Inr f by (fastforce simp: ws_fill.simps [of c] conn_Write_def split: if_splits)
    qed
  qed
qed

lemma ws_fill_nonempty: "ws_readBuf c \<noteq> [] \<Longrightarrow> ws_fill c = (Inr (), c)"
  by (simp add: ws_fill.simps)

lemma wsConn_Read_progress:
  assumes "wsConn_Read n c = (Inr bs, c')" and "0 < n"
  shows "n - length bs + length (cn_in (ws_conn c')) < n + length (cn_in (ws_conn c))"
proof (cases "ws_readBuf c = []")
  case True
  then show ?thesis
    using assms ws_fill_shrinks by (fastforce simp: wsConn_Read_def split: prod.splits sum.splits)
next
  case False
  then show ?thesis
    using assms by (cases "ws_readBuf c") (auto simp: wsConn_Read_def ws_fill_nonempty)
qed

text \<open>
  \<open>io.ReadFull\<close> on the connection, as \<open>protocol.Decode\<close> calls it: \<open>Read\<close> until \<open>n\<close> bytes are
  there; \<open>got\<close> is what earlier reads returned.
\<close>

function ws_ReadFull :: "nat \<Rightarrow> bytes \<Rightarrow> wsconn \<Rightarrow> (ws_err + bytes) \<times> wsconn" where
  "ws_ReadFull n got c =
     (if n = 0 then (Inr got, c)
      else case wsConn_Read n c of
        (Inl e, c) \<Rightarrow> (Inl (if got \<noteq> [] \<and> e = ErrWsIO EOF then ErrWsIO ErrUnexpectedEOF else e), c)
      | (Inr bs, c) \<Rightarrow> ws_ReadFull (n - length bs) (got @ bs) c)"
  by pat_completeness auto
termination
  by (relation "measure (\<lambda>(n, got, c). n + length (cn_in (ws_conn c)))")
     (auto dest!: sym [of _ "wsConn_Read _ _"] wsConn_Read_progress)

declare ws_ReadFull.simps [simp del]

section \<open>What a frame is\<close>

text \<open>RFC 6455 frames as a peer may send them: the upper half of the first byte (FIN, \<open>0x80\<close>, and the
  reserved bits), opcode, optional 4-byte mask, payload.\<close>

record wsframe =
  wf_flags :: byte
  wf_op :: byte
  wf_mask :: "bytes option"
  wf_data :: bytes

definition ws_len_field :: "byte \<Rightarrow> nat \<Rightarrow> bytes" where
  "ws_len_field maskbit n =
     (if n \<le> 125 then [maskbit OR of_nat n]
      else if n \<le> 65535 then (maskbit OR 126) # PutUint16 (of_nat n)
      else (maskbit OR 127) # PutUint64 (of_nat n))"

definition ws_encode :: "wsframe \<Rightarrow> bytes" where
  "ws_encode f =
     (wf_flags f OR wf_op f) #
     (case wf_mask f of
        None \<Rightarrow> ws_len_field 0 (length (wf_data f)) @ wf_data f
      | Some k \<Rightarrow> ws_len_field 0x80 (length (wf_data f)) @ k @ unmask k (wf_data f))"

text \<open>A frame other than a close frame, final or a fragment, with a 4-byte mask if any, within the 64 MiB
  limit.\<close>

definition wf_frame :: "wsframe \<Rightarrow> bool" where
  "wf_frame f \<longleftrightarrow> wf_flags f AND 0x0F = 0 \<and> wf_op f AND 0x0F = wf_op f \<and> wf_op f \<noteq> 8 \<and> length (wf_data f) \<le> 64 * 1024 * 1024
     \<and> (case wf_mask f of None \<Rightarrow> True | Some k \<Rightarrow> length k = 4)"

definition ws_decode :: "bytes \<Rightarrow> (wsframe \<times> bytes) option" where
  "ws_decode bs =
     (case ws_readFrame (fresh_conn bs EOF) of
        (Inr (opcode, payload), c) \<Rightarrow> Some (\<lparr>wf_flags = 0x80, wf_op = opcode, wf_mask = None, wf_data = payload\<rparr>, cn_in c)
      | _ \<Rightarrow> None)"

lemma unmask_unmask: "unmask k (unmask k p) = p"
  by (rule nth_equalityI) (auto simp: unmask_def xor.assoc)

lemma length_unmask [simp]: "length (unmask k p) = length p"
  by (simp add: unmask_def)

text \<open>The second header byte: mask bit and seven length bits.\<close>

lemma len_byte:
  fixes n :: byte
  assumes "n AND 0x7F = n" and "m = 0 \<or> m = 0x80"
  shows "(m OR n) AND 0x7F = n" and "(m OR n) AND 0x80 = m"
proof -
  have "n AND 0x80 = (n AND 0x7F) AND 0x80" using assms(1) by simp
  also have "\<dots> = n AND (0x7F AND 0x80)" by (rule and.assoc)
  finally have n: "n AND 0x80 = 0" by simp
  show "(m OR n) AND 0x7F = n" "(m OR n) AND 0x80 = m"
    using assms n by (auto simp: bit.conj_disj_distrib2)
qed

lemma op_byte: "fl AND 0x0F = 0 \<Longrightarrow> op AND 0x0F = op \<Longrightarrow> (fl OR op) AND 0x0F = (op :: byte)"
  by (simp add: bit.conj_disj_distrib2)

lemma small_and: "k \<le> 127 \<Longrightarrow> (of_nat k :: byte) AND 0x7F = of_nat k"
proof -
  assume "k \<le> 127"
  then have "take_bit 7 (of_nat k :: byte) = of_nat k"
    by (simp add: take_bit_of_nat take_bit_nat_eq_self)
  then show ?thesis by (simp add: take_bit_eq_mask mask_eq_exp_minus_1)
qed

lemma unat_len16: "n \<le> 65535 \<Longrightarrow> unat (ucast (of_nat n :: u16) :: u64) = n"
  by (simp add: unsigned_ucast_eq unat_of_nat_small take_bit_nat_eq_self)

lemma unat_len7: "n \<le> 127 \<Longrightarrow> unat (ucast (of_nat n :: byte) :: u64) = n"
  by (simp add: unsigned_ucast_eq unat_of_nat_small take_bit_nat_eq_self)

lemma ucast_byte_num: "n \<le> 125 \<Longrightarrow> (ucast (of_nat n :: byte) :: u64) \<noteq> 126 \<and> (ucast (of_nat n :: byte) :: u64) \<noteq> 127"
  using unat_len7 [of n] by auto

text \<open>Reading the length field of a frame leaves the rest.\<close>

lemma ws_len_field_read:
  assumes "n \<le> 64 * 1024 * 1024" and m: "m = 0 \<or> m = 0x80" and "\<not> cn_closed c"
  shows "\<exists>b l. ws_len_field m n = b # l \<and> b AND 0x80 = m \<and>
     (\<exists>w. ws_length (ucast (b AND 0x7F)) (c\<lparr>cn_in := l @ r\<rparr>) = (Inr w, c\<lparr>cn_in := r\<rparr>) \<and> unat w = n)"
proof -
  consider "n \<le> 125" | "125 < n" "n \<le> 65535" | "65535 < n" by linarith
  then show ?thesis
  proof cases
    case 1
    then show ?thesis
      using len_byte [OF small_and m, of n] ucast_byte_num [of n]
      by (auto simp: ws_len_field_def ws_length_def unat_len7)
  next
    case 2
    then show ?thesis
      using len_byte [OF _ m, of 126] ReadFull_append [OF assms(3), of "PutUint16 (of_nat n)" 2 r]
      by (auto simp: ws_len_field_def ws_length_def unat_len16)
  next
    case 3
    have u: "unat (of_nat n :: u64) = n" using assms(1) by (simp add: unat_of_nat_small)
    then have "\<not> 64 * 1024 * 1024 < (of_nat n :: u64)"
      using assms(1) by (simp add: word_less_nat_alt)
    then show ?thesis
      using 3 u len_byte [OF _ m, of 127] ReadFull_append [OF assms(3), of "PutUint64 (of_nat n)" 8 r]
      by (auto simp: ws_len_field_def ws_length_def)
  qed
qed

lemma ReadFull_byte: "\<not> cn_closed c \<Longrightarrow> ReadFull (Suc 0) (c\<lparr>cn_in := b # r\<rparr>) = (Inr [b], c\<lparr>cn_in := r\<rparr>)"
  using ReadFull_append [of c "[b]" "Suc 0" r] by simp

lemma ws_readFrame_encode:
  assumes f: "wf_frame f" and "\<not> cn_closed c"
  shows "ws_readFrame (c\<lparr>cn_in := ws_encode f @ r\<rparr>) = (Inr (wf_op f, wf_data f), c\<lparr>cn_in := r\<rparr>)"
proof -
  note rf = ReadFull_byte [OF assms(2)] ReadFull_append [OF assms(2)]
  have op: "(wf_flags f OR wf_op f) AND 0x0F = wf_op f" "wf_op f \<noteq> 8" "length (wf_data f) \<le> 64 * 1024 * 1024"
    using f op_byte by (auto simp: wf_frame_def)
  show ?thesis
  proof (cases "wf_mask f")
    case None
    obtain b l w where "ws_len_field 0 (length (wf_data f)) = b # l" "b AND 0x80 = 0"
      "ws_length (ucast (b AND 0x7F)) (c\<lparr>cn_in := l @ wf_data f @ r\<rparr>) = (Inr w, c\<lparr>cn_in := wf_data f @ r\<rparr>)"
      "unat w = length (wf_data f)"
      using ws_len_field_read [OF op(3) _ assms(2), of 0] by blast
    then show ?thesis
      using None op by (simp add: ws_readFrame_def ws_encode_def rf)
  next
    case (Some k)
    then have k: "length k = 4" using f by (simp add: wf_frame_def)
    obtain b l w where "ws_len_field 0x80 (length (wf_data f)) = b # l" "b AND 0x80 = 0x80"
      "ws_length (ucast (b AND 0x7F)) (c\<lparr>cn_in := l @ (k @ unmask k (wf_data f) @ r)\<rparr>)
         = (Inr w, c\<lparr>cn_in := k @ unmask k (wf_data f) @ r\<rparr>)"
      "unat w = length (wf_data f)"
      using ws_len_field_read [OF op(3) _ assms(2), of "0x80"] by blast
    then show ?thesis
      using Some op k by (simp add: ws_readFrame_def ws_encode_def rf unmask_unmask)
  qed
qed

section \<open>Transparency\<close>

text \<open>
  The server's own frames are unmasked binary frames, and reading them back is an instance of
  the stream codec.
\<close>

definition server_frame :: "bytes \<Rightarrow> wsframe" where
  "server_frame p = \<lparr>wf_flags = 0x80, wf_op = 2, wf_mask = None, wf_data = p\<rparr>"

lemma wsConn_Write_encode:
  "wsConn_Write p c = (let (ok, cn) = conn_Write (ws_encode (server_frame p)) (ws_conn c) in (ok, c\<lparr>ws_conn := cn\<rparr>))"
  by (simp add: wsConn_Write_def ws_encode_def server_frame_def ws_len_field_def Let_def)

definition ws_ok :: "wsframe \<Rightarrow> bool" where
  "ws_ok f \<longleftrightarrow> wf_frame f \<and> wf_flags f = 0x80 \<and> wf_mask f = None"

lemma ws_decode_encode: "ws_ok f \<Longrightarrow> ws_decode (ws_encode f @ r) = Some (f, r)"
  using ws_readFrame_encode [of f "fresh_conn [] EOF" r]
  by (cases f) (auto simp: ws_ok_def ws_decode_def fresh_conn_def)

interpretation wsc: stream_codec ws_encode ws_decode ws_ok
  by unfold_locales (rule ws_decode_encode)

text \<open>What a sequence of frames carries: the data, and the pings to be answered.\<close>

definition is_data :: "wsframe \<Rightarrow> bool" where
  "is_data f \<longleftrightarrow> wf_op f = 0x01 \<or> wf_op f = 0x02 \<or> wf_op f = 0x00"

definition ws_data :: "wsframe list \<Rightarrow> bytes" where
  "ws_data fs = concat (map wf_data (filter is_data fs))"

definition ws_pongs :: "wsframe list \<Rightarrow> bytes list" where
  "ws_pongs fs = map (\<lambda>f. ws_pong (wf_data f)) (filter (\<lambda>f. wf_op f = 9) fs)"

text \<open>A connection on which the frames \<open>fs\<close> are still to come.\<close>

definition ws_pending :: "wsconn \<Rightarrow> wsframe list \<Rightarrow> bool" where
  "ws_pending c fs \<longleftrightarrow> list_all wf_frame fs \<and> cn_in (ws_conn c) = concat (map ws_encode fs)
     \<and> \<not> cn_closed (ws_conn c) \<and> \<not> cn_wfail (ws_conn c)"

text \<open>All data not yet delivered, and all writes once every pending ping is answered.\<close>

definition ws_view :: "wsconn \<Rightarrow> wsframe list \<Rightarrow> bytes \<times> bytes list" where
  "ws_view c fs = (ws_readBuf c @ ws_data fs, cn_out (ws_conn c) @ ws_pongs fs)"

lemma ws_fill_step:
  assumes "ws_pending c (f # fs)" and "ws_readBuf c = []"
  shows "ws_fill c =
     (let c' = c\<lparr>ws_conn := (ws_conn c)\<lparr>cn_in := concat (map ws_encode fs)\<rparr>\<rparr> in
      if wf_op f = 9 then ws_fill (c'\<lparr>ws_conn := snd (conn_Write (ws_pong (wf_data f)) (ws_conn c'))\<rparr>)
      else if is_data f then (Inr (), c'\<lparr>ws_readBuf := wf_data f\<rparr>)
      else ws_fill c')"
proof -
  have "ws_conn c = (ws_conn c)\<lparr>cn_in := ws_encode f @ concat (map ws_encode fs)\<rparr>"
    using assms(1) by (simp add: ws_pending_def)
  moreover have "wf_frame f" "\<not> cn_closed (ws_conn c)" using assms(1) by (auto simp: ws_pending_def)
  ultimately have "ws_readFrame (ws_conn c) =
     (Inr (wf_op f, wf_data f), (ws_conn c)\<lparr>cn_in := concat (map ws_encode fs)\<rparr>)"
    using ws_readFrame_encode [of f "ws_conn c" "concat (map ws_encode fs)"] by metis
  then show ?thesis
    using assms(2) by (simp add: ws_fill.simps [of c] is_data_def Let_def)
qed

lemma ws_fill_data:
  "ws_pending c fs \<Longrightarrow> ws_readBuf c = [] \<Longrightarrow> ws_data fs \<noteq> [] \<Longrightarrow>
   \<exists>c' fs'. ws_fill c = (Inr (), c') \<and> ws_pending c' fs' \<and> ws_view c' fs' = ws_view c fs"
proof (induction fs arbitrary: c)
  case Nil
  then show ?case by (simp add: ws_data_def)
next
  case (Cons f fs)
  let ?c = "c\<lparr>ws_conn := (ws_conn c)\<lparr>cn_in := concat (map ws_encode fs)\<rparr>\<rparr>"
  let ?p = "?c\<lparr>ws_conn := snd (conn_Write (ws_pong (wf_data f)) (ws_conn ?c))\<rparr>"
  have pend: "ws_pending ?c fs" and pend': "ws_pending ?p fs" and out: "\<not> cn_wfail (ws_conn c)" "\<not> cn_closed (ws_conn c)"
    using Cons.prems(1) by (auto simp: ws_pending_def conn_Write_def)
  consider (ping) "wf_op f = 9" | (data) "wf_op f \<noteq> 9" "is_data f" | (other) "wf_op f \<noteq> 9" "\<not> is_data f"
    by blast
  then show ?case
  proof cases
    case ping
    then have nd: "\<not> is_data f" by (simp add: is_data_def)
    have "ws_view ?p fs = ws_view c (f # fs)"
      using ping nd out Cons.prems(2) by (simp add: ws_view_def ws_data_def ws_pongs_def conn_Write_def)
    moreover have "\<exists>c' fs'. ws_fill ?p = (Inr (), c') \<and> ws_pending c' fs' \<and> ws_view c' fs' = ws_view ?p fs"
      using Cons.IH [OF pend'] Cons.prems nd by (simp add: ws_data_def)
    ultimately show ?thesis
      using ws_fill_step [OF Cons.prems(1,2)] ping by (simp add: Let_def)
  next
    case data
    have "ws_view (?c\<lparr>ws_readBuf := wf_data f\<rparr>) fs = ws_view c (f # fs)"
      using data Cons.prems(2) by (simp add: ws_view_def ws_data_def ws_pongs_def)
    moreover have "ws_pending (?c\<lparr>ws_readBuf := wf_data f\<rparr>) fs" using pend by (simp add: ws_pending_def)
    ultimately show ?thesis
      using ws_fill_step [OF Cons.prems(1,2)] data by (auto simp: Let_def)
  next
    case other
    have "ws_view ?c fs = ws_view c (f # fs)"
      using other Cons.prems(2) by (simp add: ws_view_def ws_data_def ws_pongs_def)
    moreover have "\<exists>c' fs'. ws_fill ?c = (Inr (), c') \<and> ws_pending c' fs' \<and> ws_view c' fs' = ws_view ?c fs"
      using Cons.IH [OF pend] Cons.prems other by (simp add: ws_data_def)
    ultimately show ?thesis
      using ws_fill_step [OF Cons.prems(1,2)] other by (simp add: Let_def)
  qed
qed

lemma wsConn_Read_view:
  assumes "ws_pending c fs" and "fst (ws_view c fs) \<noteq> []"
  shows "\<exists>bs c' fs'. wsConn_Read n c = (Inr bs, c') \<and> length bs \<le> n \<and> ws_pending c' fs'
     \<and> fst (ws_view c fs) = bs @ fst (ws_view c' fs') \<and> snd (ws_view c' fs') = snd (ws_view c fs)"
proof -
  obtain c1 fs1 where f: "ws_fill c = (Inr (), c1)" "ws_pending c1 fs1" "ws_view c1 fs1 = ws_view c fs"
    using ws_fill_data [OF assms(1)] ws_fill_nonempty [of c] assms by (cases "ws_readBuf c = []") (auto simp: ws_view_def)
  let ?c = "c1\<lparr>ws_readBuf := drop n (ws_readBuf c1)\<rparr>"
  have "ws_pending ?c fs1" using f(2) by (simp add: ws_pending_def)
  moreover have "fst (ws_view c1 fs1) = take n (ws_readBuf c1) @ fst (ws_view ?c fs1)"
    by (simp add: ws_view_def)
  moreover have "snd (ws_view ?c fs1) = snd (ws_view c1 fs1)" by (simp add: ws_view_def)
  ultimately show ?thesis using f by (auto simp: wsConn_Read_def)
qed

lemma ws_ReadFull_view:
  "ws_pending c fs \<Longrightarrow> n \<le> length (fst (ws_view c fs)) \<Longrightarrow>
   \<exists>c' fs'. ws_ReadFull n got c = (Inr (got @ take n (fst (ws_view c fs))), c') \<and> ws_pending c' fs'
     \<and> fst (ws_view c' fs') = drop n (fst (ws_view c fs)) \<and> snd (ws_view c' fs') = snd (ws_view c fs)"
proof (induction n got c arbitrary: fs rule: ws_ReadFull.induct)
  case (1 n got c)
  show ?case
  proof (cases "n = 0")
    case True
    then show ?thesis using "1.prems"(1) by (auto simp: ws_ReadFull.simps)
  next
    case False
    with "1.prems" have "fst (ws_view c fs) \<noteq> []" by auto
    from wsConn_Read_view [OF "1.prems"(1) this, of n]
    obtain bs c1 fs1 where r: "wsConn_Read n c = (Inr bs, c1)" "length bs \<le> n" "ws_pending c1 fs1"
      "fst (ws_view c fs) = bs @ fst (ws_view c1 fs1)" "snd (ws_view c1 fs1) = snd (ws_view c fs)"
      by blast
    have "n - length bs \<le> length (fst (ws_view c1 fs1))" using "1.prems"(2) r(4) by auto
    from "1.IH" [OF False r(1) [symmetric] refl r(3) this]
    obtain c' fs' where "ws_ReadFull (n - length bs) (got @ bs) c1 =
        (Inr ((got @ bs) @ take (n - length bs) (fst (ws_view c1 fs1))), c')" "ws_pending c' fs'"
      "fst (ws_view c' fs') = drop (n - length bs) (fst (ws_view c1 fs1))"
      "snd (ws_view c' fs') = snd (ws_view c1 fs1)" by blast
    then show ?thesis using False r by (auto simp: ws_ReadFull.simps [of n])
  qed
qed

text \<open>C26: on a connection where a peer sends any mix of data frames (masked or not, final or
  fragments, of all three length encodings, empty ones included), pings and other control frames, \<open>io.ReadFull\<close> of \<open>n\<close> bytes
  returns exactly the next \<open>n\<close> bytes of the concatenated data payloads, leaves the following
  bytes to the next read, and the pings passed on the way are answered in order, each by
  \<open>ws_pong\<close> of its payload. So a
  WebSocket client and a TCP client present the same byte stream to the relay.\<close>

theorem wsConn_transparent:
  assumes "ws_pending c fs" and "n \<le> length (ws_readBuf c @ ws_data fs)"
  shows "\<exists>c' fs'. ws_ReadFull n [] c = (Inr (take n (ws_readBuf c @ ws_data fs)), c') \<and> ws_pending c' fs'
     \<and> ws_readBuf c' @ ws_data fs' = drop n (ws_readBuf c @ ws_data fs)
     \<and> cn_out (ws_conn c') @ ws_pongs fs' = cn_out (ws_conn c) @ ws_pongs fs"
  using ws_ReadFull_view [OF assms(1), of n "[]"] assms(2) by (simp add: ws_view_def)

definition sample_frames :: "wsframe list" where
  "sample_frames =
     [\<lparr>wf_flags = 0, wf_op = 2, wf_mask = Some [1, 2, 3, 4], wf_data = [10, 20, 30]\<rparr>,
      \<lparr>wf_flags = 0x80, wf_op = 9, wf_mask = Some [5, 6, 7, 8], wf_data = [1]\<rparr>,
      \<lparr>wf_flags = 0x80, wf_op = 0, wf_mask = None, wf_data = [40, 50]\<rparr>]"

definition sample_ws :: wsconn where
  "sample_ws = \<lparr>ws_conn = fresh_conn (concat (map ws_encode sample_frames)) EOF, ws_readBuf = []\<rparr>"

theorem wsConn_transparent_witness:
  "\<exists>c' fs'. ws_ReadFull 4 [] sample_ws = (Inr (take 4 (ws_readBuf sample_ws @ ws_data sample_frames)), c')
     \<and> ws_pending c' fs'
     \<and> ws_readBuf c' @ ws_data fs' = drop 4 (ws_readBuf sample_ws @ ws_data sample_frames)
     \<and> cn_out (ws_conn c') @ ws_pongs fs' = cn_out (ws_conn sample_ws) @ ws_pongs sample_frames"
proof (rule wsConn_transparent)
  show "ws_pending sample_ws sample_frames"
    by (simp add: ws_pending_def sample_ws_def sample_frames_def fresh_conn_def wf_frame_def)
qed (simp add: sample_ws_def sample_frames_def ws_data_def is_data_def)

text \<open>What the server writes on a WebSocket connection is one binary frame, and a sequence of
  writes is read back as the same sequence of payloads, in order.\<close>

lemma wsConn_Write_roundtrip:
  assumes "list_all (\<lambda>p. length p \<le> 64 * 1024 * 1024) ps"
    and "\<not> cn_closed (ws_conn c)" "\<not> cn_wfail (ws_conn c)"
  shows "decode_seq ws_decode (length ps)
       (concat (drop (length (cn_out (ws_conn c)))
         (cn_out (ws_conn (fold (\<lambda>p c. snd (wsConn_Write p c)) ps c))))) = Some (map server_frame ps, [])"
proof -
  have "cn_out (ws_conn (fold (\<lambda>p c. snd (wsConn_Write p c)) ps c))
      = cn_out (ws_conn c) @ map (\<lambda>p. ws_encode (server_frame p)) ps"
    using assms(2,3) by (induction ps arbitrary: c) (auto simp: wsConn_Write_encode conn_Write_def)
  moreover have "list_all ws_ok (map server_frame ps)"
    using assms(1) by (induction ps) (auto simp: ws_ok_def wf_frame_def server_frame_def)
  ultimately show ?thesis
    using wsc.decode_seq_enc [of "map server_frame ps" "[]"] by (simp add: comp_def)
qed

text \<open>
  Where the code departs from its intent: an origin check by prefix, and the length field of
  a long pong.
\<close>

lemma isAllowedOrigin_prefix:
  "isAllowedOrigin '''' ''http://localhost.evil.example'' ''relay.example''"
  by (simp add: isAllowedOrigin_def ToLower_def lower_char_def HasPrefix_def)

lemma ws_pong_truncates: "take 4 (ws_pong (replicate 65536 0)) = [0x8A, 126, 0, 0]"
  by (simp add: ws_pong_def Let_def)

end
