(* ===== verification/Relay_Http.thy ===== *)
theory Relay_Http
  imports Relay_Props WebSocket
begin

text \<open>
  The relay's HTTP side: the metrics page of \<open>metrics.go\<close>, the handler of the WebSocket server, and
  the life of the TCP listener, all from \<open>server.go\<close>. Routing and the HTTP server itself belong
  to the standard library; the handlers are what it calls. The text of the uptime is an
  argument.
\<close>

section \<open>The metrics page\<close>

definition print_u64 :: "u64 \<Rightarrow> string" where
  "print_u64 n = print_nat (unat n)"

definition metric :: "string \<Rightarrow> string \<Rightarrow> string \<Rightarrow> string \<Rightarrow> string" where
  "metric name help kind v =
     ''# HELP zerofeed_relay_'' @ name @ '' '' @ help @ [CHR 0x0A] @ ''# TYPE zerofeed_relay_'' @ name @ '' '' @ kind @ [CHR 0x0A]
     @ ''zerofeed_relay_'' @ name @ '' '' @ v @ [CHR 0x0A]"

definition Metrics_Handler :: "string \<Rightarrow> metrics \<Rightarrow> string" where
  "Metrics_Handler uptime m =
     metric ''uptime_seconds'' ''Total relay server uptime in seconds.'' ''gauge'' uptime @ [CHR 0x0A]
     @ metric ''active_sessions'' ''Gauge of current active E2EE sessions.'' ''gauge'' (print_int (mt_ActiveSessions m)) @ [CHR 0x0A]
     @ metric ''sessions_created_total'' ''Cumulative count of created sessions.'' ''counter'' (print_u64 (mt_SessionsCreatedTotal m)) @ [CHR 0x0A]
     @ metric ''active_connections'' ''Gauge of active socket connections.'' ''gauge'' (print_int (mt_ActiveConnections m)) @ [CHR 0x0A]
     @ metric ''bytes_transferred_total'' ''Cumulative bytes relayed through server.'' ''counter'' (print_u64 (mt_BytesTransferredTotal m)) @ [CHR 0x0A]
     @ metric ''messages_relayed_total'' ''Cumulative frames forwarded.'' ''counter'' (print_u64 (mt_MessagesRelayedTotal m)) @ [CHR 0x0A]
     @ metric ''ratelimit_bans_total'' ''Cumulative IP rate-limit bans.'' ''counter'' (print_u64 (mt_RateLimitBansTotal m)) @ [CHR 0x0A]
     @ metric ''malformed_packets_dropped_total'' ''Cumulative invalid frames dropped.'' ''counter'' (print_u64 (mt_MalformedPacketsDroppedTotal m)) @ [CHR 0x0A]
     @ metric ''backpressure_pauses_total'' ''Cumulative watermark backpressure pauses.'' ''counter'' (print_u64 (mt_BackpressurePausesTotal m)) @ [CHR 0x0A]
     @ metric ''slow_consumers_pruned_total'' ''Cumulative stalled subscribers pruned.'' ''counter'' (print_u64 (mt_SlowConsumersPrunedTotal m))"

section \<open>The WebSocket handler\<close>

text \<open>What a request comes to: an HTTP error, a connection closed at the limit, or a connection that goes
  on to \<open>handleConnection\<close>.\<close>

datatype ws_outcome = HttpError nat string | WsRefused wsconn | WsServed wsconn

definition ws_close :: "wsconn \<Rightarrow> wsconn" where
  "ws_close w = w\<lparr>ws_conn := conn_Close (ws_conn w)\<rparr>"

text \<open>
  The handler up to its comparison with the limit, in the relay as it then is. It goes on as a task of
  its own: it is counted (\<open>TAdmit\<close>), and then the connection is handled. \<open>c\<close> is the byte stream its
  frames carry.
\<close>

definition ws_handler :: "string \<Rightarrow> ws_request \<Rightarrow> conn option option \<Rightarrow> nat \<Rightarrow> string \<Rightarrow> conn \<Rightarrow> nat \<Rightarrow> sys \<Rightarrow> ws_outcome \<times> sys" where
  "ws_handler envAllowed r hj key raddr c got = (\<lambda>(srv, ts).
     case UpgradeWebSocket envAllowed r hj of
        Inl ErrOriginNotAllowed \<Rightarrow> (HttpError 403 ''Forbidden: Invalid Origin'', srv, ts)
      | Inl _ \<Rightarrow> (HttpError 400 ''WebSocket Upgrade Failed'', srv, ts)
      | Inr wsConn \<Rightarrow>
          if MaxActiveConnections \<le> sv_activeConns srv then (WsRefused (ws_close wsConn), srv, ts)
          else (WsServed wsConn, srv, ts @ [TAdmit False key raddr c got]))"

section \<open>The listener\<close>

text \<open>The server with its configured address and the TCP listener it may have.\<close>

record listener =
  ls_addr :: string
  ls_closed :: bool

record relay_node =
  rn_listenAddr :: string
  rn_listener :: "listener option"
  rn_ready :: bool
  rn_sys :: sys

definition Addr :: "relay_node \<Rightarrow> string" where
  "Addr n = (case rn_listener n of Some l \<Rightarrow> ls_addr l | None \<Rightarrow> rn_listenAddr n)"

text \<open>\<open>Start\<close> up to its loops: \<open>None\<close> is a failure to bind, otherwise the bound address.\<close>

definition Start_bind :: "string option \<Rightarrow> relay_node \<Rightarrow> bool \<times> relay_node" where
  "Start_bind bound n =
     (case bound of
        None \<Rightarrow> (False, n)
      | Some a \<Rightarrow> (True, n\<lparr>rn_listener := Some \<lparr>ls_addr = a, ls_closed = False\<rparr>, rn_ready := True\<rparr>))"

text \<open>What \<open>Accept\<close> gives the loop of \<open>Start\<close>; the loop ends when the context is done or the
  listener is closed, and goes on after any other error. It comes back to \<open>Accept\<close> once the previous
  connection is counted.\<close>

datatype accept = Accepted nat string conn nat | AcceptErr bool bool

definition accept_step :: "accept \<Rightarrow> relay_node \<Rightarrow> bool \<times> relay_node" where
  "accept_step a n =
     (case a of
        AcceptErr ctxDone errClosed \<Rightarrow> (\<not> (ctxDone \<or> errClosed), n)
      | Accepted key raddr c got \<Rightarrow> (True, n\<lparr>rn_sys := sys_step (EvAccept key raddr c got) (rn_sys n)\<rparr>))"

definition Server_Close :: "relay_node \<Rightarrow> relay_node" where
  "Server_Close n =
     n\<lparr>rn_listener := map_option (\<lambda>l. l\<lparr>ls_closed := True\<rparr>) (rn_listener n), rn_sys := sys_step EvCloseAll (rn_sys n)\<rparr>"

section \<open>Lemmas\<close>

text \<open>A request that passes the upgrade is the event \<open>EvWebSocket\<close> of the machine; every other leaves the relay
  as it is. A browser is served only below the limit and from an allowed origin.\<close>

lemma ws_handler_event:
  "snd (ws_handler allowed r hj key raddr c got st) =
     (case UpgradeWebSocket allowed r hj of Inl _ \<Rightarrow> st | Inr _ \<Rightarrow> sys_step (EvWebSocket key raddr c got) st)"
  by (cases st) (auto simp: ws_handler_def split: sum.splits ws_err.splits)

lemma ws_handler_served:
  assumes "ws_handler allowed r hj key raddr c got st = (WsServed w, st')"
  shows "sv_activeConns (fst st) < MaxActiveConnections
     \<and> (TrimSpace (rq_Origin r) = '''' \<or> isAllowedOrigin allowed (TrimSpace (rq_Origin r)) (rq_Host r))"
  using assms
  by (cases st) (auto simp: ws_handler_def UpgradeWebSocket_def Let_def split: sum.splits ws_err.splits if_splits option.splits)

text \<open>The gauge of the page is the size of the session table, as long as the server runs.\<close>

lemma page_shows_sessions:
  assumes "EvCloseAll \<notin> set es"
  shows "\<exists>pre post. Metrics_Handler up (sv_metrics (fst (fold sys_step es sys_init)))
     = pre @ ''zerofeed_relay_active_sessions '' @ print_nat (SessionCount (fst (fold sys_step es sys_init))) @ [CHR 0x0A] @ post"
proof -
  let ?srv = "fst (fold sys_step es sys_init)"
  have "filter (\<lambda>ev. ev \<noteq> EvCloseAll) es = es" using assms by (auto simp: filter_id_conv)
  then have "mt_ActiveSessions (sv_metrics ?srv) = int (SessionCount ?srv)" using active_sessions_exact [of es] by simp
  then have "print_int (mt_ActiveSessions (sv_metrics ?srv)) = print_nat (SessionCount ?srv)" by (simp add: print_int_def)
  then show ?thesis
    unfolding Metrics_Handler_def metric_def
    by (intro exI [of _ "metric ''uptime_seconds'' ''Total relay server uptime in seconds.'' ''gauge'' up @ [CHR 0x0A]
        @ ''# HELP zerofeed_relay_active_sessions Gauge of current active E2EE sessions.'' @ [CHR 0x0A]
        @ ''# TYPE zerofeed_relay_active_sessions gauge'' @ [CHR 0x0A]"] exI) (simp add: metric_def)
qed

end
