(* ===== verification/Go_Net.thy ===== *)
theory Go_Net
  imports Go_Strings
begin

text \<open>
  IP address literals as \<open>net.ParseIP\<close> accepts them (through \<open>netip.ParseAddr\<close>, without a zone).
  Only whether a string is accepted matters to the sources.
\<close>

definition valid_octet :: "string \<Rightarrow> bool" where
  "valid_octet p \<longleftrightarrow>
     (case parse_digits 0 p of None \<Rightarrow> False
      | Some v \<Rightarrow> p \<noteq> [] \<and> v \<le> 255 \<and> (length p = 1 \<or> hd p \<noteq> CHR ''0''))"

definition parseIPv4 :: "string \<Rightarrow> bool" where
  "parseIPv4 s \<longleftrightarrow> (let ps = Split s (CHR ''.'') in length ps = 4 \<and> list_all valid_octet ps)"

definition is_hex :: "char \<Rightarrow> bool" where
  "is_hex c \<longleftrightarrow> c \<in> set ''0123456789abcdefABCDEF''"

text \<open>
  The loop of \<open>parseIPv6\<close>: \<open>i\<close> bytes are filled, \<open>e\<close> says that an ellipsis was seen. The result has
  the number of bytes and whether there was an ellipsis; all of the string has been used.
\<close>

function v6_loop :: "nat \<Rightarrow> bool \<Rightarrow> string \<Rightarrow> (nat \<times> bool) option" where
  "v6_loop i e s =
     (if 16 \<le> i then (if s = [] then Some (i, e) else None)
      else
        let off = length (takeWhile is_hex s); rest = dropWhile is_hex s in
        if off = 0 \<or> 4 < off then None
        else if rest \<noteq> [] \<and> hd rest = CHR ''.'' then
          (if \<not> e \<and> i \<noteq> 12 \<or> 16 < i + 4 \<or> \<not> parseIPv4 s then None else Some (i + 4, e))
        else if rest = [] then Some (i + 2, e)
        else if hd rest \<noteq> CHR '':'' \<or> length rest = 1 then None
        else if hd (tl rest) = CHR '':'' then
          (if e then None
           else if tl (tl rest) = [] then Some (i + 2, True)
           else v6_loop (i + 2) True (tl (tl rest)))
        else v6_loop (i + 2) e (tl rest))"
  by pat_completeness auto
termination
  by (relation "measure (\<lambda>(i, _, _). 16 - i)") auto

declare v6_loop.simps [simp del]

definition parseIPv6 :: "string \<Rightarrow> bool" where
  "parseIPv6 s \<longleftrightarrow>
     (let lead = HasPrefix s ''::''; s' = (if lead then drop 2 s else s) in
      if lead \<and> s' = [] then True
      else (case v6_loop 0 lead s' of None \<Rightarrow> False | Some (i, e) \<Rightarrow> (if i < 16 then e else \<not> e)))"

definition ParseIP :: "string \<Rightarrow> bool" where
  "ParseIP s \<longleftrightarrow>
     (case dropWhile (\<lambda>c. c \<notin> set ''.:%'') s of
        [] \<Rightarrow> False
      | c # _ \<Rightarrow> if c = CHR ''.'' then parseIPv4 s
                else if c = CHR '':'' then CHR ''%'' \<notin> set s \<and> parseIPv6 s
                else False)"

end
