(* ===== verification/Session_ID.thy ===== *)
theory Session_ID
  imports Go_Net Pake Protocol
begin

text \<open>
  \<open>pkg/feed/session_id.go\<close>: the identifiers derived from a passphrase, and dialling a relay with
  an optional certificate pin. The network is the record \<open>net_env\<close>: what the environment answers
  to a TLS or TCP dial.
\<close>

section \<open>Identifiers\<close>

definition feed_DeriveBlindMatchTag :: "prims \<Rightarrow> bytes \<Rightarrow> bytes" where
  "feed_DeriveBlindMatchTag P passphrase = DeriveBlindMatchTag (DeriveMasterKeyArgon2 P passphrase)"

definition DeriveSessionID :: "prims \<Rightarrow> bytes \<Rightarrow> bytes" where
  "DeriveSessionID P passphrase =
     (let argon2Key = DeriveMasterKeyArgon2 P passphrase;
          tag = hmac argon2Key (bytes_of ''zerofeed-relay-channel-rendezvous-v3'')
      in go_copy (replicate SessionIDSize 0) 0 SessionIDSize (take SessionIDSize tag))"

text \<open>\<open>rnd\<close> is what the random source delivers; its error is ignored.\<close>

definition GenerateEphemeralSessionID :: "bytes option \<Rightarrow> bytes" where
  "GenerateEphemeralSessionID rnd =
     (let sessionID = replicate SessionIDSize 0 in
      case rnd of None \<Rightarrow> sessionID | Some r \<Rightarrow> go_copy sessionID 0 SessionIDSize r)"

lemma length_DeriveSessionID [simp]: "length (DeriveSessionID P pw) = SessionIDSize"
  by (simp add: DeriveSessionID_def Let_def)

section \<open>Dialling\<close>

text \<open>
  \<^item> \<open>ne_tls network addr\<close>: the peer of a TLS dial, if it can be reached and the handshake itself
    succeeds: the certificates it presents, the server names for which the system's authorities
    vouch for them, and the connection;
  \<^item> \<open>ne_tcp network addr\<close>: the connection of a plain dial;
  \<^item> \<open>ne_quic addr\<close>: the connection of \<open>transport.DialQUIC\<close> (none in a build without QUIC);
  \<^item> \<open>ne_getenv\<close>: the environment variables; \<open>ne_spki\<close>: as in \<open>CalculateSPKIFingerprint\<close>.
\<close>

record net_env =
  ne_tls :: "string \<Rightarrow> string \<Rightarrow> (bytes list \<times> (string \<Rightarrow> bool) \<times> conn) option"
  ne_tcp :: "string \<Rightarrow> string \<Rightarrow> conn option"
  ne_quic :: "string \<Rightarrow> conn option"
  ne_getenv :: "string \<Rightarrow> string"
  ne_spki :: "bytes \<Rightarrow> bytes option"

text \<open>The callback of the TLS configuration: accepted or not.\<close>

definition VerifyPeerCertificate :: "(bytes \<Rightarrow> bytes option) \<Rightarrow> string \<Rightarrow> bytes list \<Rightarrow> bool" where
  "VerifyPeerCertificate spki expectedFingerprint rawCerts =
     (let isPinningRequested = (expectedFingerprint \<noteq> '''') in
      if \<not> isPinningRequested then True
      else case rawCerts of
             [] \<Rightarrow> False
           | c # _ \<Rightarrow> CalculateSPKIFingerprint spki c = expectedFingerprint)"

text \<open>\<open>tls.DialWithDialer\<close> with the configuration the source builds.\<close>

definition tls_dial :: "net_env \<Rightarrow> string \<Rightarrow> string \<Rightarrow> string \<Rightarrow> string \<Rightarrow> conn option" where
  "tls_dial N network addr serverName expectedFingerprint =
     (case ne_tls N network addr of
        None \<Rightarrow> None
      | Some (certs, vouched, c) \<Rightarrow>
          let insecureSkipVerify = (expectedFingerprint \<noteq> '''') in
          if (insecureSkipVerify \<or> vouched serverName)
             \<and> VerifyPeerCertificate (ne_spki N) expectedFingerprint certs
          then Some c else None)"

definition DialRelayWithPin :: "net_env \<Rightarrow> string \<Rightarrow> string \<Rightarrow> conn option" where
  "DialRelayWithPin N relayAddr fingerprint =
     (let (host, port) = (case SplitHostPort relayAddr of None \<Rightarrow> (relayAddr, '''') | Some hp \<Rightarrow> hp);
          isRawIP = ParseIP host;
          serverName = (if isRawIP then
                          let envSNI = ne_getenv N ''ZEROFEED_TLS_SNI'' in
                          if envSNI \<noteq> '''' then envSNI else ''zerofeed.duckdns.org''
                        else host);
          expectedFingerprint = TrimSpace (ToLower fingerprint);
          isIPv6 = (isRawIP \<and> Contains host '':'');
          tcpNetwork = (if isRawIP then (if isIPv6 then ''tcp6'' else ''tcp4'') else ''tcp'');
          useTLSFirst = (\<not> isRawIP \<and> (port = ''443'' \<or> port = ''8443'') \<or> expectedFingerprint \<noteq> '''');
          tlsConn = (if useTLSFirst then tls_dial N tcpNetwork relayAddr serverName expectedFingerprint else None)
      in case tlsConn of
           Some c \<Rightarrow> Some c
         | None \<Rightarrow> if useTLSFirst \<and> expectedFingerprint \<noteq> '''' then None else ne_tcp N tcpNetwork relayAddr)"

definition DialRelay :: "net_env \<Rightarrow> string \<Rightarrow> conn option" where
  "DialRelay N relayAddr = DialRelayWithPin N relayAddr ''''"

definition sample_net :: net_env where
  "sample_net = \<lparr>ne_tls = (\<lambda>_ _. Some ([[1, 2, 3]], (\<lambda>_. False), fresh_conn [] EOF)),
     ne_tcp = (\<lambda>_ _. Some (fresh_conn [0] EOF)), ne_quic = (\<lambda>_. None), ne_getenv = (\<lambda>_. ''''),
     ne_spki = (\<lambda>c. Some c)\<rparr>"

text \<open>C24: a certificate pin is enforced. When a fingerprint is configured, \<open>DialRelayWithPin\<close> returns a
  connection only if it is a TLS connection whose first certificate has exactly that
  fingerprint, for every address and whatever the network answers; there is no fall-back to
  plain TCP.\<close>

theorem pin_enforced:
  assumes "DialRelayWithPin N relayAddr fingerprint = Some c" and "TrimSpace (ToLower fingerprint) \<noteq> ''''"
  shows "\<exists>network cert certs vouched. ne_tls N network relayAddr = Some (cert # certs, vouched, c)
     \<and> CalculateSPKIFingerprint (ne_spki N) cert = TrimSpace (ToLower fingerprint)"
  using assms
  by (auto simp: DialRelayWithPin_def tls_dial_def VerifyPeerCertificate_def Let_def
      split: option.splits prod.splits if_splits list.splits)

definition hex_alphabet :: "char set" where
  "hex_alphabet = set ''0123456789abcdef''"

lemma hex_digit_set: "n < 16 \<Longrightarrow> hex_digit n \<in> hex_alphabet"
  unfolding hex_digit_def hex_alphabet_def by (rule nth_mem) simp

lemma hex_encode_set: "set (hex_encode bs) \<subseteq> hex_alphabet"
proof -
  have "unat b div 16 < 16" "unat b mod 16 < 16" for b :: byte
    using unsigned_less [of b, where ?'a = nat] by auto
  then show ?thesis unfolding hex_encode_def using hex_digit_set by auto
qed

lemma hex_visible:
  assumes "set s \<subseteq> hex_alphabet"
  shows "TrimSpace (ToLower s) = s"
proof -
  have low: "lower_char c = c" and vis: "visible c" if "c \<in> hex_alphabet" for c
    using that by (auto simp: hex_alphabet_def lower_char_def visible_def)
  then have "ToLower s = s" using assms by (simp add: ToLower_def map_idI subset_iff)
  moreover have "TrimSpace s = s"
    using assms vis by (intro TrimSpace_visible) (simp add: subset_iff)
  ultimately show ?thesis by simp
qed

theorem pin_enforced_witness:
  "\<exists>network cert certs vouched. ne_tls sample_net network ''relay:443'' = Some (cert # certs, vouched, fresh_conn [] EOF)
     \<and> CalculateSPKIFingerprint (ne_spki sample_net) cert = hex_encode (sha256 [1, 2, 3])"
proof -
  let ?fp = "hex_encode (sha256 [1, 2, 3])"
  have fp: "TrimSpace (ToLower ?fp) = ?fp" by (rule hex_visible [OF hex_encode_set])
  have "length (sha256 [1, 2, 3]) = 32" by simp
  then have ne: "?fp \<noteq> ''''" by (cases "sha256 [1, 2, 3]") (auto simp: hex_encode_def)
  have "DialRelayWithPin sample_net ''relay:443'' ?fp = Some (fresh_conn [] EOF)"
    using ne by (simp add: DialRelayWithPin_def Let_def fp tls_dial_def sample_net_def VerifyPeerCertificate_def
        CalculateSPKIFingerprint_def split: prod.splits)
  from pin_enforced [OF this] show ?thesis using fp ne by simp
qed

end
