(* ===== verification/Go_Json.thy ===== *)
theory Go_Json
  imports Go_Strings Protocol
begin

text \<open>
  \<open>unicode/utf8\<close> and \<open>encoding/json\<close> as the sources use them: the length of the encoded rune at the
  start of a byte sequence, and \<open>json.Marshal\<close> and \<open>json.Unmarshal\<close> of a \<open>protocol.FileHeader\<close>.
  JSON texts and the strings in them are byte sequences.
\<close>

section \<open>UTF-8\<close>

definition cont :: "byte \<Rightarrow> bool" where
  "cont b \<longleftrightarrow> 0x80 \<le> b \<and> b \<le> 0xBF"

text \<open>The number of bytes of the rune that starts here; \<open>None\<close>: the encoding is not valid.\<close>

fun rune_len :: "bytes \<Rightarrow> nat option" where
  "rune_len [] = None"
| "rune_len (a # bs) =
     (if a < 0x80 then Some 1
      else if 0xC2 \<le> a \<and> a \<le> 0xDF then
        (case bs of b # _ \<Rightarrow> if cont b then Some 2 else None | [] \<Rightarrow> None)
      else if 0xE0 \<le> a \<and> a \<le> 0xEF then
        (case bs of b # c # _ \<Rightarrow>
             if (if a = 0xE0 then 0xA0 else 0x80) \<le> b \<and> b \<le> (if a = 0xED then 0x9F else 0xBF) \<and> cont c
             then Some 3 else None
         | _ \<Rightarrow> None)
      else if 0xF0 \<le> a \<and> a \<le> 0xF4 then
        (case bs of b # c # d # _ \<Rightarrow>
             if (if a = 0xF0 then 0x90 else 0x80) \<le> b \<and> b \<le> (if a = 0xF4 then 0x8F else 0xBF) \<and> cont c \<and> cont d
             then Some 4 else None
         | _ \<Rightarrow> None)
      else None)"

text \<open>The width \<open>utf8.DecodeRune\<close> reports: an invalid byte counts as one.\<close>

definition rune_size :: "bytes \<Rightarrow> nat" where
  "rune_size s = (case rune_len s of None \<Rightarrow> 1 | Some n \<Rightarrow> n)"

lemma rune_len_bounds: "rune_len s = Some n \<Longrightarrow> 1 \<le> n \<and> n \<le> length s"
  by (cases s) (auto split: if_splits list.splits)

lemma rune_size_pos: "0 < rune_size s"
  using rune_len_bounds [of s] by (cases "rune_len s") (simp_all add: rune_size_def)

lemma rune_size_le: "s \<noteq> [] \<Longrightarrow> rune_size s \<le> length s"
  using rune_len_bounds [of s] by (cases "rune_len s"; cases s) (simp_all add: rune_size_def)

lemma rune_size_ascii [simp]: "a < 0x80 \<Longrightarrow> rune_size (a # s) = 1"
  by (simp add: rune_size_def)

text \<open>The bytes of a rune after the first are no ASCII bytes.\<close>

lemma byte_ge_80: "0xA0 \<le> b \<Longrightarrow> 0x80 \<le> (b :: byte)" "0x90 \<le> b \<Longrightarrow> 0x80 \<le> (b :: byte)"
  by (erule order.trans [rotated], simp)+

lemma rune_len_tail:
  "rune_len (a # s) = Some n \<Longrightarrow> a < 0x80 \<and> n = 1 \<or> \<not> a < 0x80 \<and> list_all (\<lambda>b. 0x80 \<le> b) (take (n - 1) s)"
  by (auto simp: cont_def dest: byte_ge_80 split: if_splits list.splits)

lemma rune_tail_high: "b \<in> set (take (rune_size (a # s) - 1) s) \<Longrightarrow> 0x80 \<le> b"
  using rune_len_tail [of a s]
  by (cases "rune_len (a # s)") (auto simp: rune_size_def list_all_iff simp del: rune_len.simps)

text \<open>A rune is not longer for what follows.\<close>

lemma rune_len_append: "rune_len s = Some n \<Longrightarrow> rune_len (s @ r) = Some n"
proof (cases s)
  case (Cons a bs)
  assume n: "rune_len s = Some n"
  consider "bs = []" | b where "bs = [b]" | b c where "bs = [b, c]" | b c d e where "bs = b # c # d # e"
    by (cases bs rule: remdups_adj.cases; force intro: list.exhaust)
  then show ?thesis
  proof cases
    case 4
    have "rune_len (s @ r) = rune_len s" unfolding Cons 4 by (simp only: append_Cons rune_len.simps list.case)
    then show ?thesis using n by simp
  qed (use n Cons in \<open>auto split: if_split_asm\<close>)
qed simp

declare rune_len.simps(2) [simp del]

function valid_utf8 :: "bytes \<Rightarrow> bool" where
  "valid_utf8 s = (s = [] \<or> (case rune_len s of None \<Rightarrow> False | Some n \<Rightarrow> valid_utf8 (drop n s)))"
  by pat_completeness auto
termination
  by (relation "measure length") (auto dest: rune_len_bounds)

declare valid_utf8.simps [simp del]

lemma valid_utf8_induct [consumes 1, case_names Nil Rune]:
  assumes "valid_utf8 s" "P []"
    and "\<And>r s n. rune_len (r @ s) = Some n \<Longrightarrow> length r = n \<Longrightarrow> valid_utf8 s \<Longrightarrow> P s \<Longrightarrow> P (r @ s)"
  shows "P s"
  using assms(1)
proof (induction "length s" arbitrary: s rule: less_induct)
  case less
  show ?case
  proof (cases "s = []")
    case False
    then obtain n where n: "rune_len s = Some n" "valid_utf8 (drop n s)"
      using less.prems by (auto simp: valid_utf8.simps [of s] split: option.splits)
    note b = rune_len_bounds [OF n(1)]
    have "P (drop n s)" using less.hyps [of "drop n s"] n(2) b False by auto
    then show ?thesis using assms(3) [of "take n s" "drop n s" n] n b by simp
  qed (simp add: assms(2))
qed

section \<open>Marshal\<close>

definition hex4 :: "nat \<Rightarrow> bytes" where
  "hex4 v = map (\<lambda>k. of_char (''0123456789abcdef'' ! (v div 16 ^ k mod 16))) [3, 2, 1, 0]"

definition u_escape :: "nat \<Rightarrow> bytes" where
  "u_escape v = [0x5C, 0x75] @ hex4 v"

text \<open>What \<open>appendString\<close> writes for an ASCII byte, with HTML escaping on.\<close>

definition quote_ascii :: "byte \<Rightarrow> bytes" where
  "quote_ascii b =
     (if b = 0x22 \<or> b = 0x5C then [0x5C, b]
      else if b = 0x08 then [0x5C, 0x62]
      else if b = 0x0C then [0x5C, 0x66]
      else if b = 0x0A then [0x5C, 0x6E]
      else if b = 0x0D then [0x5C, 0x72]
      else if b = 0x09 then [0x5C, 0x74]
      else if b < 0x20 \<or> b = 0x3C \<or> b = 0x3E \<or> b = 0x26 then u_escape (unat b)
      else [b])"

function quote_body :: "bytes \<Rightarrow> bytes" where
  "quote_body s =
     (if s = [] then []
      else
        (let r = take (rune_size s) s in
         (if hd s < 0x80 then quote_ascii (hd s)
          else if rune_len s = None then u_escape 0xFFFD
          else if r = [0xE2, 0x80, 0xA8] then u_escape 0x2028
          else if r = [0xE2, 0x80, 0xA9] then u_escape 0x2029
          else r)) @ quote_body (drop (rune_size s) s))"
  by pat_completeness auto
termination
  by (relation "measure length") (auto simp: rune_size_pos)

declare quote_body.simps [simp del]

definition quote :: "bytes \<Rightarrow> bytes" where
  "quote s = [0x22] @ quote_body s @ [0x22]"

definition Marshal_FileHeader :: "file_header \<Rightarrow> bytes" where
  "Marshal_FileHeader h =
     bytes_of ''{'' @ quote (bytes_of ''transfer_id'') @ bytes_of '':'' @ quote (bytes_of (fh_TransferID h))
     @ bytes_of '','' @ quote (bytes_of ''filename'') @ bytes_of '':'' @ quote (bytes_of (fh_Filename h))
     @ bytes_of '','' @ quote (bytes_of ''file_size'') @ bytes_of '':'' @ bytes_of (print_int (fh_FileSize h))
     @ (if fh_SHA256 h = '''' then []
        else bytes_of '','' @ quote (bytes_of ''sha256'') @ bytes_of '':'' @ quote (bytes_of (fh_SHA256 h)))
     @ bytes_of ''}''"

section \<open>Unmarshal\<close>

datatype json = JNull | JBool bool | JNum bytes | JStr bytes | JArr "json list" | JObj "(bytes \<times> json) list"

definition is_ws :: "byte \<Rightarrow> bool" where
  "is_ws b \<longleftrightarrow> b = 0x20 \<or> b = 0x09 \<or> b = 0x0A \<or> b = 0x0D"

abbreviation skip_ws :: "bytes \<Rightarrow> bytes" where
  "skip_ws s \<equiv> dropWhile is_ws s"

definition hex_val :: "byte \<Rightarrow> nat option" where
  "hex_val b =
     (if 0x30 \<le> b \<and> b \<le> 0x39 then Some (unat b - 48)
      else if 0x61 \<le> b \<and> b \<le> 0x66 then Some (unat b - 87)
      else if 0x41 \<le> b \<and> b \<le> 0x46 then Some (unat b - 55)
      else None)"

text \<open>Four hexadecimal digits.\<close>

fun get_u4 :: "bytes \<Rightarrow> (nat \<times> bytes) option" where
  "get_u4 (a # b # c # d # r) =
     (case (hex_val a, hex_val b, hex_val c, hex_val d) of
        (Some a, Some b, Some c, Some d) \<Rightarrow> Some (4096 * a + 256 * b + 16 * c + d, r)
      | _ \<Rightarrow> None)"
| "get_u4 _ = None"

text \<open>\<open>utf8.EncodeRune\<close> for a code point that is not a surrogate.\<close>

definition encode_rune :: "nat \<Rightarrow> bytes" where
  "encode_rune v = map of_nat
     (if v < 0x80 then [v]
      else if v < 0x800 then [0xC0 + v div 64, 0x80 + v mod 64]
      else if v < 0x10000 then [0xE0 + v div 4096, 0x80 + v div 64 mod 64, 0x80 + v mod 64]
      else [0xF0 + v div 262144, 0x80 + v div 4096 mod 64, 0x80 + v div 64 mod 64, 0x80 + v mod 64])"

text \<open>The replacement of an invalid encoding, U+FFFD.\<close>

definition replacement :: bytes where
  "replacement = [0xEF, 0xBF, 0xBD]"

definition simple_escape :: "byte \<Rightarrow> byte option" where
  "simple_escape b =
     (if b = 0x22 \<or> b = 0x5C \<or> b = 0x2F then Some b
      else if b = 0x62 then Some 0x08 else if b = 0x66 then Some 0x0C
      else if b = 0x6E then Some 0x0A else if b = 0x72 then Some 0x0D
      else if b = 0x74 then Some 0x09 else None)"

text \<open>
  A \<open>\u\<close> escape after its four digits gave \<open>v\<close>: a high surrogate takes a following low one along, a
  lone surrogate is replaced.
\<close>

definition finish_u :: "nat \<Rightarrow> bytes \<Rightarrow> bytes \<times> bytes" where
  "finish_u v r =
     (if v < 0xD800 \<or> 0xE000 \<le> v then (encode_rune v, r)
      else case r of
             b # u # r' \<Rightarrow>
               (case (if b = 0x5C \<and> u = 0x75 \<and> v < 0xDC00 then get_u4 r' else None) of
                  Some (w, r'') \<Rightarrow>
                    if 0xDC00 \<le> w \<and> w < 0xE000
                    then (encode_rune (0x10000 + (v - 0xD800) * 1024 + (w - 0xDC00)), r'')
                    else (replacement, r)
                | None \<Rightarrow> (replacement, r))
           | _ \<Rightarrow> (replacement, r))"

text \<open>The body of a string literal up to its closing quote.\<close>

fun string_body :: "nat \<Rightarrow> bytes \<Rightarrow> (bytes \<times> bytes) option" where
  "string_body 0 s = None"
| "string_body (Suc n) [] = None"
| "string_body (Suc n) (b # s) =
     (if b = 0x22 then Some ([], s)
      else if b < 0x20 then None
      else
        case (if b = 0x5C then
                (case s of [] \<Rightarrow> None
                 | e # s' \<Rightarrow>
                     if e = 0x75 then map_option (\<lambda>(v, r). finish_u v r) (get_u4 s')
                     else map_option (\<lambda>c. ([c], s')) (simple_escape e))
              else if rune_len (b # s) = None then Some (replacement, s)
              else Some (take (rune_size (b # s)) (b # s), drop (rune_size (b # s)) (b # s))) of
          None \<Rightarrow> None
        | Some (c, r) \<Rightarrow> map_option (\<lambda>(t, r). (c @ t, r)) (string_body n r))"

definition is_digit :: "byte \<Rightarrow> bool" where
  "is_digit b \<longleftrightarrow> 0x30 \<le> b \<and> b \<le> 0x39"

text \<open>The length of the number literal at the start: sign, integer part, fraction, exponent.\<close>

definition number_lit :: "bytes \<Rightarrow> (bytes \<times> bytes) option" where
  "number_lit s =
     (let (sg, s1) = (case s of b # r \<Rightarrow> if b = 0x2D then ([b], r) else ([], s) | [] \<Rightarrow> ([], s));
          ds = takeWhile is_digit s1;
          ip = (case ds of d # _ \<Rightarrow> if d = 0x30 then [d] else ds | [] \<Rightarrow> []);
          s2 = drop (length ip) s1;
          (fr, s3, ok1) = (case s2 of b # r \<Rightarrow> if b = 0x2E
                             then (b # takeWhile is_digit r, dropWhile is_digit r, takeWhile is_digit r \<noteq> [])
                             else ([], s2, True) | [] \<Rightarrow> ([], s2, True));
          (ex, s4, ok2) = (case s3 of b # r \<Rightarrow> if b = 0x65 \<or> b = 0x45
                             then (let sgn = (case r of c # _ \<Rightarrow> if c = 0x2B \<or> c = 0x2D then [c] else [] | [] \<Rightarrow> []);
                                       r' = drop (length sgn) r
                                   in (b # sgn @ takeWhile is_digit r', dropWhile is_digit r', takeWhile is_digit r' \<noteq> []))
                             else ([], s3, True) | [] \<Rightarrow> ([], s3, True))
      in if ip \<noteq> [] \<and> ok1 \<and> ok2 then Some (sg @ ip @ fr @ ex, s4) else None)"

text \<open>\<open>fuel\<close> bounds the steps and \<open>d\<close> the nesting, which the package limits to 10000.\<close>

function (sequential) parse_value :: "nat \<Rightarrow> nat \<Rightarrow> bytes \<Rightarrow> (json \<times> bytes) option"
  and parse_elems :: "nat \<Rightarrow> nat \<Rightarrow> bytes \<Rightarrow> (json list \<times> bytes) option"
  and parse_members :: "nat \<Rightarrow> nat \<Rightarrow> bytes \<Rightarrow> ((bytes \<times> json) list \<times> bytes) option" where
  "parse_value 0 d s = None"
| "parse_value (Suc n) d s =
     (case skip_ws s of
        [] \<Rightarrow> None
      | b # r \<Rightarrow>
          if b = 0x22 then map_option (\<lambda>(t, r). (JStr t, r)) (string_body (Suc (length r)) r)
          else if b = 0x7B then
            (if d = 0 then None
             else case skip_ws r of
                    [] \<Rightarrow> None
                  | c # r' \<Rightarrow> if c = 0x7D then Some (JObj [], r')
                             else map_option (\<lambda>(ms, r). (JObj ms, r)) (parse_members n (d - 1) (c # r')))
          else if b = 0x5B then
            (if d = 0 then None
             else case skip_ws r of
                    [] \<Rightarrow> None
                  | c # r' \<Rightarrow> if c = 0x5D then Some (JArr [], r')
                             else map_option (\<lambda>(es, r). (JArr es, r)) (parse_elems n (d - 1) (c # r')))
          else if take 4 (b # r) = bytes_of ''true'' then Some (JBool True, drop 3 r)
          else if take 5 (b # r) = bytes_of ''false'' then Some (JBool False, drop 4 r)
          else if take 4 (b # r) = bytes_of ''null'' then Some (JNull, drop 3 r)
          else map_option (\<lambda>(l, r). (JNum l, r)) (number_lit (b # r)))"
| "parse_elems 0 d s = None"
| "parse_elems (Suc n) d s =
     (case parse_value n d s of
        None \<Rightarrow> None
      | Some (v, r) \<Rightarrow>
          (case skip_ws r of
             [] \<Rightarrow> None
           | c # r' \<Rightarrow> if c = 0x5D then Some ([v], r')
                      else if c = 0x2C then map_option (\<lambda>(vs, r). (v # vs, r)) (parse_elems n d r')
                      else None))"
| "parse_members 0 d s = None"
| "parse_members (Suc n) d s =
     (case skip_ws s of
        [] \<Rightarrow> None
      | q # r \<Rightarrow>
          if q \<noteq> 0x22 then None
          else case string_body (Suc (length r)) r of
                 None \<Rightarrow> None
               | Some (k, r) \<Rightarrow>
                   (case skip_ws r of
                      [] \<Rightarrow> None
                    | c # r \<Rightarrow>
                        if c \<noteq> 0x3A then None
                        else case parse_value n d r of
                               None \<Rightarrow> None
                             | Some (v, r) \<Rightarrow>
                                 (case skip_ws r of
                                    [] \<Rightarrow> None
                                  | c # r' \<Rightarrow> if c = 0x7D then Some ([(k, v)], r')
                                             else if c = 0x2C then map_option (\<lambda>(ms, r). ((k, v) # ms, r)) (parse_members n d r')
                                             else None)))"
  by pat_completeness auto
termination
  by (relation "measure (\<lambda>x. case x of Inl (n, _, _) \<Rightarrow> n | Inr (Inl (n, _, _)) \<Rightarrow> n | Inr (Inr (n, _, _)) \<Rightarrow> n)") auto

definition parse_json :: "bytes \<Rightarrow> json option" where
  "parse_json s =
     (case parse_value (Suc (length s)) 10000 s of
        None \<Rightarrow> None
      | Some (v, r) \<Rightarrow> if skip_ws r = [] then Some v else None)"

text \<open>
  Field names match exactly or up to case: ASCII case, the Kelvin sign and the long s, as
  \<open>foldName\<close> does it.
\<close>

function fold_name :: "bytes \<Rightarrow> bytes" where
  "fold_name s =
     (if s = [] then []
      else if take 3 s = [0xE2, 0x84, 0xAA] then 0x4B # fold_name (drop 3 s)
      else if take 2 s = [0xC5, 0xBF] then 0x53 # fold_name (drop 2 s)
      else (if 0x61 \<le> hd s \<and> hd s \<le> 0x7A then hd s - 0x20 else hd s) # fold_name (tl s))"
  by pat_completeness auto
termination
  by (relation "measure length") auto

declare fold_name.simps [simp del]

definition string_of :: "bytes \<Rightarrow> string" where
  "string_of bs = map (\<lambda>b. char_of (unat b)) bs"

text \<open>\<open>strconv.ParseInt\<close> on a number literal, for \<open>int64\<close>.\<close>

definition literal_int64 :: "bytes \<Rightarrow> int option" where
  "literal_int64 l =
     (let neg = (l \<noteq> [] \<and> hd l = 0x2D); ds = (if neg then tl l else l) in
      case (if ds = [] then None else parse_digits 0 (string_of ds)) of
        None \<Rightarrow> None
      | Some v \<Rightarrow>
          let i = (if neg then - int v else int v)
          in if - (2 ^ 63) \<le> i \<and> i < 2 ^ 63 then Some i else None)"

text \<open>
  One member of the object: \<open>None\<close> if the type does not fit (the call then returns an error);
  \<open>null\<close> and unknown names leave the header as it is.
\<close>

definition set_field :: "bytes \<times> json \<Rightarrow> file_header \<Rightarrow> file_header option" where
  "set_field = (\<lambda>(k, v) h.
     let is_field = (\<lambda>f. fold_name k = fold_name (bytes_of f));
         str = (case v of JStr t \<Rightarrow> Some (Some (string_of t)) | JNull \<Rightarrow> Some None | _ \<Rightarrow> None)
     in if is_field ''transfer_id'' then
          map_option (\<lambda>t. case t of None \<Rightarrow> h | Some t \<Rightarrow> h\<lparr>fh_TransferID := t\<rparr>) str
        else if is_field ''filename'' then
          map_option (\<lambda>t. case t of None \<Rightarrow> h | Some t \<Rightarrow> h\<lparr>fh_Filename := t\<rparr>) str
        else if is_field ''sha256'' then
          map_option (\<lambda>t. case t of None \<Rightarrow> h | Some t \<Rightarrow> h\<lparr>fh_SHA256 := t\<rparr>) str
        else if is_field ''file_size'' then
          (case v of JNull \<Rightarrow> Some h
           | JNum l \<Rightarrow> map_option (\<lambda>i. h\<lparr>fh_FileSize := i\<rparr>) (literal_int64 l)
           | _ \<Rightarrow> None)
        else Some h)"

definition empty_header :: file_header where
  "empty_header = \<lparr>fh_TransferID = '''', fh_Filename = '''', fh_FileSize = 0, fh_SHA256 = ''''\<rparr>"

text \<open>\<open>json.Unmarshal\<close> into a fresh \<open>FileHeader\<close>; \<open>None\<close>: it returns an error.\<close>

definition Unmarshal_FileHeader :: "bytes \<Rightarrow> file_header option" where
  "Unmarshal_FileHeader data =
     (case parse_json data of
        Some (JObj ms) \<Rightarrow> fold (\<lambda>m h. Option.bind h (set_field m)) ms (Some empty_header)
      | Some JNull \<Rightarrow> Some empty_header
      | _ \<Rightarrow> None)"

section \<open>Round trip\<close>

lemma rune_len_take: "rune_len (r @ s) = Some (length r) \<Longrightarrow> rune_len r = Some (length r)"
proof -
  assume n: "rune_len (r @ s) = Some (length r)"
  then have "r \<noteq> []" using rune_len_bounds by fastforce
  then obtain a bs where r: "r = a # bs" by (cases r) auto
  consider "bs = []" | b where "bs = [b]" | b c where "bs = [b, c]" | b c d where "bs = [b, c, d]"
    | b c d e f where "bs = b # c # d # e # f"
    by (cases bs rule: remdups_adj.cases; force intro: list.exhaust)
  then show ?thesis
  proof cases
    case 5
    then show ?thesis using n r by (auto simp: rune_len.simps split: if_split_asm)
  qed (use n r in \<open>auto simp: rune_len.simps split: if_split_asm list.splits\<close>)
qed

definition quote_rune :: "bytes \<Rightarrow> bytes" where
  "quote_rune r =
     (if hd r < 0x80 then quote_ascii (hd r)
      else if r = [0xE2, 0x80, 0xA8] then u_escape 0x2028
      else if r = [0xE2, 0x80, 0xA9] then u_escape 0x2029
      else r)"

lemma quote_body_rune:
  assumes "rune_len (r @ s) = Some (length r)"
  shows "quote_body (r @ s) = quote_rune r @ quote_body s"
proof -
  have "r \<noteq> []" using rune_len_bounds [OF assms] by auto
  then show ?thesis
    using assms by (subst quote_body.simps) (simp add: rune_size_def quote_rune_def Let_def)
qed

lemma hex_val_digit: "k < 16 \<Longrightarrow> hex_val (of_char (''0123456789abcdef'' ! k)) = Some k"
proof -
  have "list_all (\<lambda>k. hex_val (of_char (''0123456789abcdef'' ! k)) = Some k) [0..<16]" by code_simp
  then show "k < 16 \<Longrightarrow> ?thesis" by (simp only: list_all_iff set_upt atLeastLessThan_iff) simp
qed

lemma get_u4_hex4: "v < 65536 \<Longrightarrow> get_u4 (hex4 v @ t) = Some (v, t)"
proof -
  assume v: "v < 65536"
  have d: "v div 16 = 16 * (v div 256) + v div 16 mod 16" "v div 256 = 16 * (v div 4096) + v div 256 mod 16"
    using mult_div_mod_eq [of 16 "v div 16"] mult_div_mod_eq [of 16 "v div 256"] by (simp_all add: div_mult2_eq [symmetric])
  have m: "v div 4096 mod 16 = v div 4096" using v by simp
  with d mult_div_mod_eq [of 16 v]
  have "4096 * (v div 4096) + 256 * (v div 256 mod 16) + 16 * (v div 16 mod 16) + v mod 16 = v" by linarith
  moreover have "v div 4096 < 16" using v by simp
  ultimately show ?thesis using m by (simp add: hex4_def hex_val_digit power3_eq_cube)
qed

lemma encode_rune_ascii: "b < 0x80 \<Longrightarrow> encode_rune (unat (b :: byte)) = [b]"
  by (simp add: encode_rune_def word_less_nat_alt)

lemma string_body_u:
  "v < 0xD800 \<Longrightarrow> string_body (Suc n) (u_escape v @ t) = map_option (\<lambda>(w, r). (encode_rune v @ w, r)) (string_body n t)"
  by (simp add: u_escape_def get_u4_hex4 finish_u_def)

lemma string_body_ascii:
  assumes "b < 0x80"
  shows "string_body (Suc n) (quote_ascii b @ t) = map_option (\<lambda>(w, r). (b # w, r)) (string_body n t)"
proof -
  have u: "unat b < 0xD800" using assms by (simp add: word_less_nat_alt)
  have p: "rune_len (b # t) = Some 1" using assms by (simp add: rune_len.simps)
  show ?thesis
    using assms p
    by (auto simp: quote_ascii_def string_body_u [OF u] encode_rune_ascii simple_escape_def rune_size_def)
qed

lemma string_body_rune:
  assumes "rune_len (r @ s) = Some (length r)"
  shows "string_body (Suc n) (quote_rune r @ t) = map_option (\<lambda>(w, x). (r @ w, x)) (string_body n t)"
proof -
  have rl: "rune_len (r @ t) = Some (length r)" by (rule rune_len_append [OF rune_len_take [OF assms]])
  obtain a bs where r: "r = a # bs" using rune_len_bounds [OF assms] by (cases r) auto
  show ?thesis
  proof (cases "a < 0x80")
    case True
    then have "length r = 1" using rl r by (simp add: rune_len.simps)
    then show ?thesis using r True string_body_ascii [OF True, of n t] by (simp add: quote_rune_def)
  next
    case False
    have ne: "a \<noteq> 0x22" "\<not> a < 0x20" "a \<noteq> 0x5C" using False by (auto simp: word_less_nat_alt)
    have plain: "string_body (Suc n) (r @ t) = map_option (\<lambda>(w, x). (r @ w, x)) (string_body n t)"
      using rl r ne by (simp add: rune_size_def)
    have e: "encode_rune 0x2028 = [0xE2, 0x80, 0xA8]" "encode_rune 0x2029 = [0xE2, 0x80, 0xA9]"
      by (simp_all add: encode_rune_def)
    show ?thesis
      using False plain string_body_u [of "0x2028" n t] string_body_u [of "0x2029" n t] e
      by (simp add: quote_rune_def r)
  qed
qed

lemma quote_rune_ne: "r \<noteq> [] \<Longrightarrow> quote_rune r \<noteq> []"
  by (simp add: quote_rune_def quote_ascii_def u_escape_def)

lemma string_body_quote:
  "valid_utf8 s \<Longrightarrow> length (quote_body s) < n \<Longrightarrow> string_body n (quote_body s @ 0x22 # t) = Some (s, t)"
proof (induction s arbitrary: n rule: valid_utf8_induct)
  case Nil
  then show ?case by (cases n) (simp_all add: quote_body.simps)
next
  case (Rune r s k)
  have rl: "rune_len (r @ s) = Some (length r)" using Rune.hyps by simp
  then have "r \<noteq> []" using rune_len_bounds by fastforce
  then have "0 < length (quote_rune r)" using quote_rune_ne by blast
  then obtain m where m: "n = Suc m" "length (quote_body s) < m"
    using Rune.prems quote_body_rune [OF rl] by (cases n) (auto simp del: length_greater_0_conv)
  then show ?case
    using Rune.IH [of m] string_body_rune [OF rl, of m "quote_body s @ 0x22 # t"] quote_body_rune [OF rl] by simp
qed

lemma print_nat_ne [simp]: "print_nat n \<noteq> []"
  by (subst print_nat.simps) simp

lemma print_nat_hd: "0 < n \<Longrightarrow> hd (print_nat n) \<noteq> CHR ''0''"
proof (induction n rule: print_nat.induct)
  case (1 n)
  show ?case
  proof (cases "n < 10")
    case True
    then have "(of_char (char_of (48 + n) :: char) :: nat) = 48 + n" by (simp add: of_char_of)
    moreover have "(of_char CHR ''0'' :: nat) = 48" by simp
    ultimately have "char_of (48 + n) \<noteq> CHR ''0''" using 1(2) by (metis add_cancel_left_right less_irrefl)
    then show ?thesis using True by (simp add: print_nat.simps)
  next
    case False
    then show ?thesis using 1 by (simp add: print_nat.simps [of n])
  qed
qed

lemma unat_of_char [simp]: "unat (of_char c :: byte) = of_char c"
  by (cases c) (simp add: unat_of_nat)

lemma of_char_inj: "(of_char c :: byte) = of_char d \<longleftrightarrow> c = d"
  by (metis of_char_eq_iff unat_of_char)

lemma string_of_bytes_of [simp]: "string_of (bytes_of s) = s"
  by (simp add: string_of_def bytes_of_def comp_def)

end
