(* ===== verification/Json_Roundtrip.thy ===== *)
theory Json_Roundtrip
  imports Go_Json
begin

text \<open>
  What \<open>json.Marshal\<close> writes for a \<open>FileHeader\<close>, \<open>json.Unmarshal\<close> reads back, for strings that are
  valid UTF-8.
\<close>

section \<open>Numbers\<close>

lemma print_nat_is_digit: "b \<in> set (bytes_of (print_nat n)) \<Longrightarrow> is_digit b"
proof -
  assume "b \<in> set (bytes_of (print_nat n))"
  then obtain c where c: "c \<in> set (print_nat n)" "b = of_char c" by (auto simp: bytes_of_def)
  from print_nat_digits [OF c(1)] obtain d :: nat where d: "d < 10" "c = char_of (48 + d)" by auto
  then have "unat b = 48 + d" using c(2) by (simp add: of_char_of)
  then show ?thesis using d(1) by (simp add: is_digit_def word_le_nat_alt)
qed

lemma takeWhile_digits:
  "\<not> is_digit c \<Longrightarrow> takeWhile is_digit (bytes_of (print_nat n) @ c # r) = bytes_of (print_nat n)"
  using print_nat_is_digit by (simp add: takeWhile_append2)

lemma bytes_of_print_nat_hd: "hd (bytes_of (print_nat n)) = 0x30 \<Longrightarrow> n = 0"
proof (rule ccontr)
  assume h: "hd (bytes_of (print_nat n)) = 0x30" and "n \<noteq> 0"
  then have "hd (print_nat n) \<noteq> CHR ''0''" using print_nat_hd by simp
  moreover have "(of_char (hd (print_nat n)) :: byte) = of_char CHR ''0''"
    using h by (simp add: bytes_of_def hd_map)
  then have "hd (print_nat n) = CHR ''0''" by (simp only: of_char_inj)
  ultimately show False by simp
qed

definition after_number :: "byte \<Rightarrow> bool" where
  "after_number c \<longleftrightarrow> \<not> is_digit c \<and> c \<noteq> 0x2E \<and> c \<noteq> 0x65 \<and> c \<noteq> 0x45"

lemma number_lit_nat:
  assumes "after_number c"
  shows "number_lit (bytes_of (print_nat n) @ c # r) = Some (bytes_of (print_nat n), c # r)"
proof -
  let ?ds = "bytes_of (print_nat n)"
  obtain d ds where ds: "?ds = d # ds" by (cases "print_nat n") (auto simp: bytes_of_def)
  have d: "is_digit d" using print_nat_is_digit [of d n] ds by simp
  then have "d \<noteq> 0x2D" by (auto simp: is_digit_def word_le_nat_alt)
  moreover have "takeWhile is_digit (d # ds @ c # r) = d # ds"
    using takeWhile_digits [of c n r] assms ds by (simp add: after_number_def)
  moreover have "d = 0x30 \<Longrightarrow> ds = []"
    using bytes_of_print_nat_hd [of n] ds by (auto simp: print_nat.simps bytes_of_def)
  ultimately show ?thesis
    using assms by (auto simp: number_lit_def ds after_number_def Let_def)
qed

lemma number_lit_int:
  assumes "after_number c"
  shows "number_lit (bytes_of (print_int i) @ c # r) = Some (bytes_of (print_int i), c # r)"
proof (cases "i < 0")
  case True
  let ?ds = "bytes_of (print_nat (nat (- i)))"
  obtain d ds where ds: "?ds = d # ds" by (cases "print_nat (nat (- i))") (auto simp: bytes_of_def)
  have "takeWhile is_digit (d # ds @ c # r) = d # ds"
    using takeWhile_digits [of c "nat (- i)" r] assms ds by (simp add: after_number_def)
  moreover have "d = 0x30 \<Longrightarrow> ds = []"
    using bytes_of_print_nat_hd [of "nat (- i)"] ds True by (auto simp: print_nat.simps bytes_of_def)
  moreover have "bytes_of (print_int i) = 0x2D # d # ds" using True ds by (simp add: print_int_def bytes_of_def)
  ultimately show ?thesis
    using assms by (auto simp: number_lit_def after_number_def Let_def)
qed (use number_lit_nat [OF assms] in \<open>simp add: print_int_def\<close>)

lemma literal_int64_print: "- (2 ^ 63) \<le> i \<Longrightarrow> i < 2 ^ 63 \<Longrightarrow> literal_int64 (bytes_of (print_int i)) = Some i"
proof (cases "i < 0")
  case True
  assume "- (2 ^ 63) \<le> i" "i < 2 ^ 63"
  then show ?thesis
    using True parse_print_nat [of "nat (- i)"]
    by (simp add: literal_int64_def print_int_def bytes_of_def Let_def string_of_bytes_of [unfolded bytes_of_def])
next
  case False
  assume b: "- (2 ^ 63) \<le> i" "i < 2 ^ 63"
  have "hd (bytes_of (print_nat (nat i))) \<noteq> 0x2D"
    using print_nat_is_digit [of "0x2D" "nat i"] hd_in_set [of "bytes_of (print_nat (nat i))"]
    by (auto simp: is_digit_def word_le_nat_alt bytes_of_def)
  moreover have "bytes_of (print_nat (nat i)) \<noteq> []" by (simp add: bytes_of_def)
  ultimately show ?thesis
    using False b parse_print_nat [of "nat i"] by (simp add: literal_int64_def print_int_def Let_def)
qed

section \<open>Objects\<close>

lemma not_ws [simp]: "\<not> is_ws 0x22" "\<not> is_ws 0x3A" "\<not> is_ws 0x7D" "\<not> is_ws 0x2C" "\<not> is_ws 0x7B"
  by (simp_all add: is_ws_def)

lemma parse_string: "valid_utf8 s \<Longrightarrow> parse_value (Suc n) d (quote s @ r) = Some (JStr s, r)"
  by (simp add: quote_def string_body_quote)

lemma parse_int:
  assumes "after_number c"
  shows "parse_value (Suc n) d (bytes_of (print_int i) @ c # r) = Some (JNum (bytes_of (print_int i)), c # r)"
proof -
  obtain b bs where b: "bytes_of (print_int i) = b # bs" "b = 0x2D \<or> is_digit b"
  proof (cases "i < 0")
    case True
    then show ?thesis using that [of "0x2D"] by (simp add: print_int_def bytes_of_def)
  next
    case False
    obtain d ds where "bytes_of (print_nat (nat i)) = d # ds" by (cases "print_nat (nat i)") (auto simp: bytes_of_def)
    then show ?thesis using that [of d ds] print_nat_is_digit [of d "nat i"] False by (simp add: print_int_def)
  qed
  then have "\<not> is_ws b" "b \<noteq> 0x22" "b \<noteq> 0x7B" "b \<noteq> 0x5B" "b \<noteq> 0x74" "b \<noteq> 0x66" "b \<noteq> 0x6E"
    by (auto simp: is_ws_def is_digit_def word_le_nat_alt)
  moreover have "take 4 (b # x) \<noteq> bytes_of ''true''" "take 5 (b # x) \<noteq> bytes_of ''false''"
    "take 4 (b # x) \<noteq> bytes_of ''null''" if "b \<noteq> 0x74" "b \<noteq> 0x66" "b \<noteq> 0x6E" for x
    using that by (simp_all add: bytes_of_def take_Cons')
  ultimately show ?thesis
    using number_lit_int [OF assms, of i r] b(1) by simp
qed

lemma parse_member_last:
  assumes "valid_utf8 k" "parse_value n d (v @ 0x7D # r) = Some (j, 0x7D # r)"
  shows "parse_members (Suc n) d (quote k @ 0x3A # v @ 0x7D # r) = Some ([(k, j)], r)"
  using assms by (simp add: quote_def string_body_quote)

lemma parse_member_more:
  assumes "valid_utf8 k" "parse_value n d (v @ 0x2C # r) = Some (j, 0x2C # r)" "parse_members n d r = Some (ms, t)"
  shows "parse_members (Suc n) d (quote k @ 0x3A # v @ 0x2C # r) = Some ((k, j) # ms, t)"
  using assms by (simp add: quote_def string_body_quote)

declare parse_value.simps [simp del] parse_members.simps [simp del]

lemma after_number_sep: "after_number 0x7D" "after_number 0x2C"
  by (simp_all add: after_number_def is_digit_def)

definition header_ok :: "file_header \<Rightarrow> bool" where
  "header_ok h \<longleftrightarrow> valid_utf8 (bytes_of (fh_TransferID h)) \<and> valid_utf8 (bytes_of (fh_Filename h))
     \<and> valid_utf8 (bytes_of (fh_SHA256 h)) \<and> - (2 ^ 63) \<le> fh_FileSize h \<and> fh_FileSize h < 2 ^ 63"

definition header_members :: "file_header \<Rightarrow> (bytes \<times> json) list" where
  "header_members h =
     [(bytes_of ''transfer_id'', JStr (bytes_of (fh_TransferID h))),
      (bytes_of ''filename'', JStr (bytes_of (fh_Filename h))),
      (bytes_of ''file_size'', JNum (bytes_of (print_int (fh_FileSize h))))]
     @ (if fh_SHA256 h = '''' then [] else [(bytes_of ''sha256'', JStr (bytes_of (fh_SHA256 h)))])"

lemma field_names_valid:
  "valid_utf8 (bytes_of ''transfer_id'')" "valid_utf8 (bytes_of ''filename'')"
  "valid_utf8 (bytes_of ''file_size'')" "valid_utf8 (bytes_of ''sha256'')"
  by (simp_all add: valid_utf8.simps bytes_of_def rune_len.simps)

lemma punctuation:
  "bytes_of ''{'' = [0x7B]" "bytes_of ''}'' = [0x7D]" "bytes_of '':'' = [0x3A]" "bytes_of '','' = [0x2C]"
  by (simp_all add: bytes_of_def)

lemma parse_members_header:
  assumes "header_ok h"
  shows "parse_members (Suc (Suc (Suc (Suc (Suc n))))) d (tl (Marshal_FileHeader h)) = Some (header_members h, [])"
proof -
  note v = assms [unfolded header_ok_def] field_names_valid
  note ps = parse_string and pi = parse_int [OF after_number_sep(1)] parse_int [OF after_number_sep(2)]
  let ?sz = "bytes_of (print_int (fh_FileSize h))"
  let ?tail = "if fh_SHA256 h = '''' then [0x7D]
     else 0x2C # quote (bytes_of ''sha256'') @ 0x3A # quote (bytes_of (fh_SHA256 h)) @ 0x7D # []"
  have "parse_members (Suc (Suc (Suc n))) d (quote (bytes_of ''file_size'') @ 0x3A # ?sz @ ?tail)
      = Some (drop 2 (header_members h), [])"
  proof (cases "fh_SHA256 h = ''''")
    case True
    then show ?thesis using parse_member_last [OF v(4) pi(1)] v by (simp add: header_members_def)
  next
    case False
    have "parse_members (Suc (Suc n)) d (quote (bytes_of ''sha256'') @ 0x3A # quote (bytes_of (fh_SHA256 h)) @ 0x7D # [])
        = Some ([(bytes_of ''sha256'', JStr (bytes_of (fh_SHA256 h)))], [])"
      by (rule parse_member_last) (use v ps in auto)
    then show ?thesis using parse_member_more [OF v(4) pi(2)] False by (simp add: header_members_def)
  qed
  then have "parse_members (Suc (Suc (Suc (Suc n)))) d (quote (bytes_of ''filename'') @ 0x3A # quote (bytes_of (fh_Filename h))
        @ 0x2C # quote (bytes_of ''file_size'') @ 0x3A # ?sz @ ?tail) = Some (drop 1 (header_members h), [])"
    using parse_member_more [OF v(3) ps] v by (simp add: header_members_def)
  then have "parse_members (Suc (Suc (Suc (Suc (Suc n))))) d (quote (bytes_of ''transfer_id'') @ 0x3A # quote (bytes_of (fh_TransferID h))
        @ 0x2C # quote (bytes_of ''filename'') @ 0x3A # quote (bytes_of (fh_Filename h))
        @ 0x2C # quote (bytes_of ''file_size'') @ 0x3A # ?sz @ ?tail) = Some (header_members h, [])"
    using parse_member_more [OF v(2) ps] v by (simp add: header_members_def)
  then show ?thesis by (cases "fh_SHA256 h = ''''") (simp_all add: Marshal_FileHeader_def punctuation)
qed

lemma field_names_fold:
  "fold_name (bytes_of ''transfer_id'') = bytes_of ''TRANSFER_ID''" "fold_name (bytes_of ''filename'') = bytes_of ''FILENAME''"
  "fold_name (bytes_of ''file_size'') = bytes_of ''FILE_SIZE''" "fold_name (bytes_of ''sha256'') = bytes_of ''SHA256''"
  by (simp_all add: fold_name.simps bytes_of_def)

lemma field_names_distinct:
  "bytes_of ''TRANSFER_ID'' \<noteq> bytes_of ''FILENAME''" "bytes_of ''TRANSFER_ID'' \<noteq> bytes_of ''FILE_SIZE''"
  "bytes_of ''TRANSFER_ID'' \<noteq> bytes_of ''SHA256''" "bytes_of ''FILENAME'' \<noteq> bytes_of ''FILE_SIZE''"
  "bytes_of ''FILENAME'' \<noteq> bytes_of ''SHA256''" "bytes_of ''FILE_SIZE'' \<noteq> bytes_of ''SHA256''"
  by (simp_all add: bytes_of_def)

lemma set_fields_header:
  assumes "header_ok h"
  shows "fold (\<lambda>m h. Option.bind h (set_field m)) (header_members h) (Some empty_header) = Some h"
  using assms literal_int64_print [of "fh_FileSize h"] field_names_distinct
  by (cases h) (auto simp: header_members_def set_field_def field_names_fold empty_header_def header_ok_def Let_def)

lemma Marshal_cons: "Marshal_FileHeader h = 0x7B # tl (Marshal_FileHeader h)"
  by (simp add: Marshal_FileHeader_def punctuation)

lemma Marshal_length: "10 < length (Marshal_FileHeader h)"
  by (simp add: Marshal_FileHeader_def quote_def)

lemma Unmarshal_Marshal:
  assumes "header_ok h"
  shows "Unmarshal_FileHeader (Marshal_FileHeader h) = Some h"
proof -
  obtain n where n: "length (Marshal_FileHeader h) = Suc (Suc (Suc (Suc (Suc n))))"
  proof -
    have "length (Marshal_FileHeader h) = Suc (Suc (Suc (Suc (Suc (length (Marshal_FileHeader h) - 5)))))"
      using Marshal_length [of h] by linarith
    then show thesis by (rule that)
  qed
  have q: "tl (Marshal_FileHeader h) = 0x22 # tl (tl (Marshal_FileHeader h))"
    by (simp add: Marshal_FileHeader_def punctuation quote_def)
  have "parse_value (Suc (length (Marshal_FileHeader h))) 10000 (0x7B # tl (Marshal_FileHeader h)) = Some (JObj (header_members h), [])"
    using parse_members_header [OF assms, of n 9999]
    unfolding n parse_value.simps by (subst (asm) q, subst q) simp
  then have "parse_json (Marshal_FileHeader h) = Some (JObj (header_members h))"
    using Marshal_cons [of h] by (simp add: parse_json_def)
  then show ?thesis using set_fields_header [OF assms] by (simp add: Unmarshal_FileHeader_def)
qed

end
