(* ===== verification/Memzero.thy ===== *)
theory Memzero
  imports Go_IO "HOL-Library.Multiset"
begin

text \<open>
  \<open>pkg/crypto/memzero.go\<close>: overwriting of sensitive memory and the registry of what is to be
  overwritten when the process ends. Memory is a list of arrays; a slice refers to a part of one
  array, so that two slices may share memory. Callbacks are numbered, what they do is the
  parameter \<open>run\<close>.
\<close>

section \<open>State\<close>

record mslice =
  ms_arr :: nat
  ms_off :: nat
  ms_len :: nat
  ms_cap :: nat

text \<open>\<open>unsafe.SliceData\<close>\<close>

definition SliceData :: "mslice \<Rightarrow> nat \<times> nat" where
  "SliceData b = (ms_arr b, ms_off b)"

record mstate =
  mz_mem :: "bytes list"
  registeredWipers :: "nat list"
  registeredBuffers :: "mslice list"
  pinnedBuffers :: "(nat \<times> nat) list"

text \<open>The cells of a slice up to its capacity.\<close>

definition cells :: "bytes list \<Rightarrow> mslice \<Rightarrow> bytes" where
  "cells mem b = take (ms_cap b) (drop (ms_off b) (mem ! ms_arr b))"

definition zero_cells :: "mslice \<Rightarrow> bytes list \<Rightarrow> bytes list" where
  "zero_cells b mem =
     mem[ms_arr b := go_copy (mem ! ms_arr b) (ms_off b) (ms_off b + ms_cap b) (replicate (ms_cap b) 0)]"

section \<open>Operations\<close>

definition mem_ZeroBytes :: "mslice \<Rightarrow> mstate \<Rightarrow> mstate" where
  "mem_ZeroBytes b st =
     (if ms_len b = 0 then st
      else st\<lparr>pinnedBuffers := removeAll (SliceData b) (pinnedBuffers st), mz_mem := zero_cells b (mz_mem st)\<rparr>)"

definition ZeroBytesSlice :: "mslice list \<Rightarrow> mstate \<Rightarrow> mstate" where
  "ZeroBytesSlice bs st = fold mem_ZeroBytes bs st"

definition RegisterWiper :: "nat option \<Rightarrow> mstate \<Rightarrow> mstate" where
  "RegisterWiper fn st =
     (case fn of None \<Rightarrow> st | Some f \<Rightarrow> st\<lparr>registeredWipers := registeredWipers st @ [f]\<rparr>)"

definition RegisterBuffer :: "mslice \<Rightarrow> mstate \<Rightarrow> mstate" where
  "RegisterBuffer b st =
     (if ms_len b = 0 then st
      else let st = st\<lparr>registeredBuffers := registeredBuffers st @ [b]\<rparr> in
           if SliceData b \<in> set (pinnedBuffers st) then st
           else st\<lparr>pinnedBuffers := pinnedBuffers st @ [SliceData b]\<rparr>)"

text \<open>The loop of \<open>UnregisterBuffer\<close>: the first buffer at the address is overwritten by the last one.\<close>

fun unregister_index :: "nat \<times> nat \<Rightarrow> nat \<Rightarrow> mslice list \<Rightarrow> nat option" where
  "unregister_index target i [] = None"
| "unregister_index target i (r # rs) =
     (if 0 < ms_len r \<and> SliceData r = target then Some i else unregister_index target (Suc i) rs)"

definition UnregisterBuffer :: "mslice \<Rightarrow> mstate \<Rightarrow> mstate" where
  "UnregisterBuffer b st =
     (if ms_len b = 0 then st
      else
        let st = st\<lparr>pinnedBuffers := removeAll (SliceData b) (pinnedBuffers st)\<rparr>;
            bs = registeredBuffers st
        in case unregister_index (SliceData b) 0 bs of
             None \<Rightarrow> st
           | Some i \<Rightarrow> let lastIdx = length bs - 1 in
               st\<lparr>registeredBuffers := take lastIdx (bs[i := bs ! lastIdx])\<rparr>)"

definition ClearWipers :: "mstate \<Rightarrow> mstate" where
  "ClearWipers st = st\<lparr>pinnedBuffers := [], registeredWipers := [], registeredBuffers := []\<rparr>"

definition WipeAll :: "(nat \<Rightarrow> mstate \<Rightarrow> mstate) \<Rightarrow> mstate \<Rightarrow> mstate" where
  "WipeAll run st =
     (let wipers = registeredWipers st;
          buffers = registeredBuffers st;
          st = st\<lparr>registeredWipers := [], registeredBuffers := [], pinnedBuffers := []\<rparr>
      in fold mem_ZeroBytes buffers (fold run wipers st))"

section \<open>The registry\<close>

lemma unregister_index_Some:
  "unregister_index t i bs = Some j \<Longrightarrow>
   \<exists>k < length bs. j = i + k \<and> 0 < ms_len (bs ! k) \<and> SliceData (bs ! k) = t"
proof (induction bs arbitrary: i)
  case (Cons r rs)
  show ?case
  proof (cases "0 < ms_len r \<and> SliceData r = t")
    case True
    then show ?thesis using Cons.prems by (intro exI [of _ 0]) auto
  next
    case False
    then have "unregister_index t (Suc i) rs = Some j" using Cons.prems by (simp split: if_splits)
    from Cons.IH [OF this] obtain k where "k < length rs" "j = Suc i + k" "0 < ms_len (rs ! k)" "SliceData (rs ! k) = t"
      by auto
    then show ?thesis by (intro exI [of _ "Suc k"]) auto
  qed
qed simp

lemma unregister_index_None:
  "unregister_index t i bs = None \<longleftrightarrow> (\<forall>r \<in> set bs. ms_len r = 0 \<or> SliceData r \<noteq> t)"
  by (induction bs arbitrary: i) auto

lemma mset_swap_last:
  assumes "i < length bs"
  shows "mset (take (length bs - 1) (bs[i := bs ! (length bs - 1)])) = mset bs - {#bs ! i#}"
proof -
  obtain ys y where bs: "bs = ys @ [y]" using assms by (cases bs rule: rev_cases) auto
  show ?thesis
  proof (cases "i = length ys")
    case False
    then have "i < length ys" using assms bs by simp
    then show ?thesis using bs by (simp add: nth_append list_update_append mset_update)
  qed (simp add: bs)
qed

text \<open>\<open>UnregisterBuffer\<close> takes exactly one registration of the address out, if there is one.\<close>

lemma UnregisterBuffer_removes_one:
  assumes "0 < ms_len b"
  shows "(\<exists>r \<in> set (registeredBuffers st). 0 < ms_len r \<and> SliceData r = SliceData b
            \<and> mset (registeredBuffers (UnregisterBuffer b st)) = mset (registeredBuffers st) - {#r#})
       \<or> (\<forall>r \<in> set (registeredBuffers st). ms_len r = 0 \<or> SliceData r \<noteq> SliceData b)
            \<and> registeredBuffers (UnregisterBuffer b st) = registeredBuffers st"
proof (cases "unregister_index (SliceData b) 0 (registeredBuffers st)")
  case None
  then show ?thesis
    using assms unregister_index_None [of "SliceData b" 0 "registeredBuffers st"] by (simp add: UnregisterBuffer_def)
next
  case (Some i)
  from unregister_index_Some [OF this] have i: "i < length (registeredBuffers st)"
    "0 < ms_len (registeredBuffers st ! i)" "SliceData (registeredBuffers st ! i) = SliceData b" by auto
  then have "mset (registeredBuffers (UnregisterBuffer b st)) = mset (registeredBuffers st) - {#registeredBuffers st ! i#}"
    using assms Some mset_swap_last [OF i(1)] by (simp add: UnregisterBuffer_def Let_def)
  then show ?thesis using i nth_mem by blast
qed

text \<open>Every pinned address belongs to a registered buffer, and is pinned once.\<close>

definition pins_ok :: "mstate \<Rightarrow> bool" where
  "pins_ok st \<longleftrightarrow> distinct (pinnedBuffers st) \<and> set (pinnedBuffers st) \<subseteq> SliceData ` set (registeredBuffers st)"

datatype mem_op = MZero mslice | MWiper "nat option" | MRegister mslice | MUnregister mslice | MClear

fun mem_step :: "mem_op \<Rightarrow> mstate \<Rightarrow> mstate" where
  "mem_step (MZero b) st = mem_ZeroBytes b st"
| "mem_step (MWiper f) st = RegisterWiper f st"
| "mem_step (MRegister b) st = RegisterBuffer b st"
| "mem_step (MUnregister b) st = UnregisterBuffer b st"
| "mem_step MClear st = ClearWipers st"

lemma pins_ok_unregister:
  assumes "pins_ok st"
  shows "pins_ok (UnregisterBuffer b st)"
proof (cases "ms_len b = 0")
  case False
  have p: "pinnedBuffers (UnregisterBuffer b st) = removeAll (SliceData b) (pinnedBuffers st)"
    using False by (simp add: UnregisterBuffer_def Let_def split: option.splits)
  have "SliceData b' \<in> SliceData ` set (registeredBuffers (UnregisterBuffer b st))"
    if "b' \<in> set (registeredBuffers st)" "SliceData b' \<noteq> SliceData b" for b'
  proof -
    from UnregisterBuffer_removes_one [of b st] False
    consider r where "SliceData r = SliceData b"
        "mset (registeredBuffers (UnregisterBuffer b st)) = mset (registeredBuffers st) - {#r#}"
      | "registeredBuffers (UnregisterBuffer b st) = registeredBuffers st" by auto
    then show ?thesis
    proof cases
      case 1
      then have "b' \<noteq> r" using that by auto
      then have "b' \<in># mset (registeredBuffers (UnregisterBuffer b st))" using 1 that by (simp add: in_diff_count)
      then show ?thesis by simp
    qed (use that in simp)
  qed
  then have "set (removeAll (SliceData b) (pinnedBuffers st)) \<subseteq> SliceData ` set (registeredBuffers (UnregisterBuffer b st))"
    using assms unfolding pins_ok_def by fastforce
  then show ?thesis using assms p by (simp add: pins_ok_def distinct_removeAll)
qed (use assms in \<open>simp add: UnregisterBuffer_def\<close>)

lemma pins_ok_step: "pins_ok st \<Longrightarrow> pins_ok (mem_step op st)"
proof (cases op)
  case (MUnregister b)
  then show "pins_ok st \<Longrightarrow> ?thesis" by (simp add: pins_ok_unregister)
qed (auto simp: pins_ok_def mem_ZeroBytes_def RegisterWiper_def RegisterBuffer_def ClearWipers_def Let_def
    distinct_removeAll split: option.splits)

interpretation pinsm: safe_machine mem_step pins_ok
  by unfold_locales (rule pins_ok_step)

section \<open>Wiping\<close>

text \<open>Memory laid out for a set of slices: every slice lies within its array.\<close>

definition fits :: "bytes list \<Rightarrow> mslice \<Rightarrow> bool" where
  "fits mem b \<longleftrightarrow> ms_arr b < length mem \<and> ms_off b + ms_cap b \<le> length (mem ! ms_arr b) \<and> ms_len b \<le> ms_cap b"

definition same_layout :: "bytes list \<Rightarrow> bytes list \<Rightarrow> bool" where
  "same_layout mem mem' \<longleftrightarrow> map length mem' = map length mem"

lemma same_layout_fits: "same_layout mem mem' \<Longrightarrow> fits mem' b = fits mem b"
proof -
  assume "same_layout mem mem'"
  then have "length mem' = length mem" "i < length mem \<Longrightarrow> length (mem' ! i) = length (mem ! i)" for i
    using map_eq_imp_length_eq nth_map unfolding same_layout_def by metis+
  then show ?thesis by (auto simp: fits_def)
qed

lemma zero_cells_layout: "fits mem b \<Longrightarrow> same_layout mem (zero_cells b mem)"
  by (auto simp: same_layout_def zero_cells_def fits_def map_update list_update_same_conv)

lemma zero_cells_self: "fits mem b \<Longrightarrow> cells (zero_cells b mem) b = replicate (ms_cap b) 0"
  by (auto simp: cells_def zero_cells_def fits_def go_copy_def Let_def)

text \<open>Zeroing a slice leaves every cell zero or as it was.\<close>

lemma zero_cells_nth:
  assumes "fits mem b" "a < length mem" "i < length (mem ! a)"
  shows "zero_cells b mem ! a ! i = (if a = ms_arr b \<and> ms_off b \<le> i \<and> i < ms_off b + ms_cap b then 0 else mem ! a ! i)"
  using assms
  by (cases "a = ms_arr b") (auto simp: zero_cells_def fits_def go_copy_def Let_def nth_append min_def)

definition zeroed :: "bytes list \<Rightarrow> mslice \<Rightarrow> bool" where
  "zeroed mem b \<longleftrightarrow> (\<forall>i < ms_cap b. mem ! ms_arr b ! (ms_off b + i) = 0)"

lemma zeroed_self: "fits mem b \<Longrightarrow> zeroed (zero_cells b mem) b"
  by (auto simp: zeroed_def zero_cells_nth fits_def)

lemma zeroed_other: "fits mem b \<Longrightarrow> fits mem c \<Longrightarrow> zeroed mem c \<Longrightarrow> zeroed (zero_cells b mem) c"
  by (auto simp: zeroed_def zero_cells_nth fits_def)

lemma zeroed_cells: "fits mem b \<Longrightarrow> zeroed mem b \<Longrightarrow> cells mem b = replicate (ms_cap b) 0"
  by (auto simp: cells_def zeroed_def fits_def list_eq_iff_nth_eq)

lemma fold_zero:
  "\<forall>b \<in> set bs \<union> cs. fits (mz_mem st) b \<Longrightarrow> \<forall>c \<in> cs. zeroed (mz_mem st) c \<Longrightarrow>
   same_layout (mz_mem st) (mz_mem (fold mem_ZeroBytes bs st))
   \<and> (\<forall>b \<in> {b \<in> set bs. 0 < ms_len b} \<union> cs. zeroed (mz_mem (fold mem_ZeroBytes bs st)) b)"
proof (induction bs arbitrary: st cs)
  case Nil
  then show ?case by (simp add: same_layout_def)
next
  case (Cons b bs)
  show ?case
  proof (cases "ms_len b = 0")
    case True
    then show ?thesis using Cons.IH [of cs st] Cons.prems by (auto simp: mem_ZeroBytes_def)
  next
    case False
    let ?st = "mem_ZeroBytes b st"
    have m: "mz_mem ?st = zero_cells b (mz_mem st)" using False by (simp add: mem_ZeroBytes_def)
    have l: "same_layout (mz_mem st) (mz_mem ?st)" using m zero_cells_layout Cons.prems(1) by simp
    have "\<forall>c \<in> set bs \<union> insert b cs. fits (mz_mem ?st) c" using Cons.prems(1) same_layout_fits [OF l] by auto
    moreover have "\<forall>c \<in> insert b cs. zeroed (mz_mem ?st) c"
      using m zeroed_self zeroed_other Cons.prems by auto
    ultimately have "same_layout (mz_mem ?st) (mz_mem (fold mem_ZeroBytes bs ?st))
        \<and> (\<forall>c \<in> {b \<in> set bs. 0 < ms_len b} \<union> insert b cs. zeroed (mz_mem (fold mem_ZeroBytes bs ?st)) c)"
      by (rule Cons.IH)
    then show ?thesis using l by (auto simp: same_layout_def)
  qed
qed

lemma fold_run_layout:
  "(\<And>w st. same_layout (mz_mem st) (mz_mem (run w st))) \<Longrightarrow> same_layout (mz_mem st) (mz_mem (fold run ws st))"
proof (induction ws arbitrary: st)
  case (Cons w ws)
  then show ?case using Cons.prems [of st w] Cons.IH [of "run w st"] by (simp add: same_layout_def)
qed (simp add: same_layout_def)

text \<open>C29: \<open>WipeAll\<close> overwrites with zeros the whole capacity of every registered buffer, whatever the
  callbacks do in between (they may write to memory, and register and unregister buffers, but the
  arrays stay in place).\<close>

theorem WipeAll_scrubs:
  assumes "\<And>w s. map length (mz_mem (run w s)) = map length (mz_mem s)"
    and "list_all (fits (mz_mem st)) (registeredBuffers st)"
  shows "list_all (\<lambda>b. ms_len b = 0 \<or> cells (mz_mem (WipeAll run st)) b = replicate (ms_cap b) 0) (registeredBuffers st)"
proof -
  let ?st = "st\<lparr>registeredWipers := [], registeredBuffers := [], pinnedBuffers := []\<rparr>"
  let ?st1 = "fold run (registeredWipers st) ?st"
  have l: "same_layout (mz_mem st) (mz_mem ?st1)"
    using fold_run_layout [of run ?st "registeredWipers st"] assms(1) by (simp add: same_layout_def)
  then have f: "\<forall>b \<in> set (registeredBuffers st) \<union> {}. fits (mz_mem ?st1) b"
    using assms(2) same_layout_fits by (auto simp: list_all_iff)
  have w: "WipeAll run st = fold mem_ZeroBytes (registeredBuffers st) ?st1"
    by (simp add: WipeAll_def Let_def)
  have "cells (mz_mem (WipeAll run st)) b = replicate (ms_cap b) 0"
    if "b \<in> set (registeredBuffers st)" "ms_len b \<noteq> 0" for b
  proof (rule zeroed_cells)
    show "zeroed (mz_mem (WipeAll run st)) b" using fold_zero [OF f] that by (simp add: w)
    have "same_layout (mz_mem ?st1) (mz_mem (WipeAll run st))" using fold_zero [OF f] by (simp add: w)
    then show "fits (mz_mem (WipeAll run st)) b" using f that same_layout_fits by auto
  qed
  then show ?thesis by (auto simp: list_all_iff)
qed

definition sample_mem :: mstate where
  "sample_mem = \<lparr>mz_mem = [[1, 2, 3], [4, 5]], registeredWipers = [7],
     registeredBuffers = [\<lparr>ms_arr = 0, ms_off = 1, ms_len = 1, ms_cap = 2\<rparr>], pinnedBuffers = [(0, 1)]\<rparr>"

theorem WipeAll_scrubs_witness:
  "list_all (\<lambda>b. ms_len b = 0 \<or>
      cells (mz_mem (WipeAll (\<lambda>w s. s\<lparr>mz_mem := map (map (\<lambda>_. 9)) (mz_mem s)\<rparr>) sample_mem)) b = replicate (ms_cap b) 0)
    (registeredBuffers sample_mem)"
  by (rule WipeAll_scrubs) (simp_all add: sample_mem_def fits_def comp_def)

end
