(* ===== verification/Go_Path.thy ===== *)
theory Go_Path
  imports Go_Strings
begin

text \<open>\<open>path/filepath\<close> on Unix, as the sources use it: \<open>Base\<close>, \<open>Clean\<close> and \<open>Join\<close>.\<close>

definition Base :: "string \<Rightarrow> string" where
  "Base path =
     (if path = [] then ''.''
      else let p = rev (dropWhile (\<lambda>c. c = CHR ''/'') (rev path));
               b = rev (takeWhile (\<lambda>c. c \<noteq> CHR ''/'') (rev p))
           in if b = [] then ''/'' else b)"

text \<open>The elements that are left of a path, in reverse: empty ones and dots go, a double dot takes one away.\<close>

fun clean_stack :: "bool \<Rightarrow> string list \<Rightarrow> string list \<Rightarrow> string list" where
  "clean_stack rooted st [] = st"
| "clean_stack rooted st (e # es) =
     (if e = [] \<or> e = ''.'' then clean_stack rooted st es
      else if e = ''..'' then
        (case st of
           x # xs \<Rightarrow> if x = ''..'' then clean_stack rooted (e # st) es else clean_stack rooted xs es
         | [] \<Rightarrow> if rooted then clean_stack rooted [] es else clean_stack rooted [e] es)
      else clean_stack rooted (e # st) es)"

fun join_elems :: "string list \<Rightarrow> string" where
  "join_elems [] = []"
| "join_elems [e] = e"
| "join_elems (e # es) = e @ ''/'' @ join_elems es"

definition Clean :: "string \<Rightarrow> string" where
  "Clean path =
     (if path = [] then ''.''
      else let rooted = (hd path = CHR ''/'');
               body = join_elems (rev (clean_stack rooted [] (Split path (CHR ''/''))))
           in if rooted then CHR ''/'' # body else if body = [] then ''.'' else body)"

definition Join :: "string list \<Rightarrow> string" where
  "Join elems =
     (let es = filter (\<lambda>e. e \<noteq> []) elems in if es = [] then [] else Clean (join_elems es))"

text \<open>\<open>Base\<close> gives one element: it is not empty, and has no slash unless it is the root.\<close>

lemma Base_element: "Base path \<noteq> [] \<and> (CHR ''/'' \<notin> set (Base path) \<or> Base path = ''/'')"
proof -
  have "c \<noteq> CHR ''/''" if "c \<in> set (takeWhile (\<lambda>c. c \<noteq> CHR ''/'') s)" for c and s :: string
    using set_takeWhileD [OF that] by simp
  then show ?thesis by (auto simp: Base_def Let_def)
qed

lemma Split_plain: "c \<notin> set s \<Longrightarrow> Split s c = [s]"
  by (induction s) auto

lemma Split_append: "c \<notin> set s \<Longrightarrow> Split (s @ c # t) c = s # Split t c"
  by (induction s) auto

text \<open>Joining a plain directory name with one element.\<close>

lemma Join_dot_element:
  assumes "d \<noteq> []" "CHR ''/'' \<notin> set d" "d \<noteq> ''.''" "d \<noteq> ''..''" "e \<noteq> []" "CHR ''/'' \<notin> set e"
  shows "Join [''./'' @ d, e] = (if e = ''.'' then d else if e = ''..'' then ''.'' else d @ ''/'' @ e)"
proof -
  have s: "Split (''./'' @ d @ ''/'' @ e) (CHR ''/'') = [''.'', d, e]"
    using Split_append [of "CHR ''/''" "''.''" "d @ ''/'' @ e"] Split_append [of "CHR ''/''" d e]
      Split_plain [of "CHR ''/''" e] assms by simp
  then show ?thesis using assms by (auto simp: Join_def Clean_def Let_def)
qed

end
