(* ===== verification/Publisher.thy ===== *)
theory Publisher
  imports Session_ID RingBuffer Cipher Json_Roundtrip Memzero Go_Path
begin

text \<open>
  \<open>pkg/feed/publisher.go\<close>: the publisher's engine. The engine is a record with the fields of the
  struct, nil pointers are \<open>None\<close>. Its locks appear as the granularity of the operations: a
  definition is a section of the code that no other operation can interrupt in a way that
  matters to it; \<open>TriggerRekey\<close>, which gives up its lock between sending the frame and changing
  the key, is two sections. Times and random bytes are arguments.
\<close>

section \<open>Errors\<close>

datatype feed_err =
    ErrDial
  | ErrCrypto crypto_err
  | ErrProto proto_err
  | ErrNotConnected
  | ErrPeerClosed bytes
  | ErrPeerVersion byte
  | ErrFrameType byte
  | ErrRespSize
  | ErrNoConfirm
  | ErrNoCipher
  | ErrFile
  | ErrCtxDone
  | ErrReconnect
  | PanicNil

section \<open>The engine\<close>

definition DefaultRekeyByteThreshold :: u64 where "DefaultRekeyByteThreshold = 1024 * 1024 * 1024"
definition DefaultRekeyTimeThreshold :: time where "DefaultRekeyTimeThreshold = 3600 * 1000000000"

definition ModeTCP :: string where "ModeTCP = ''tcp''"
definition ModeQUIC :: string where "ModeQUIC = ''quic''"

text \<open>
  \<open>pb_chunkAckChan\<close> is the number of tokens in the channel. \<open>pb_gone\<close> is not a field of the
  struct: it collects the connections the engine no longer refers to, so that what was written
  to them is not forgotten.
\<close>

record publisher =
  pb_passphrase :: "bytes option"
  pb_masterKey :: "bytes option"
  pb_relayAddr :: string
  pb_sessionID :: bytes
  pb_pakePeer :: "pakepeer option"
  pb_cipher :: "cipher option"
  pb_conn :: "conn option"
  pb_seqCounter :: u64
  pb_replayBuffer :: "bufpool \<times> ringbuffer"
  pb_chunkAckChan :: "nat option"
  pb_expectedFingerprint :: string
  pb_transportMode :: string
  pb_sasHex :: string
  pb_sasEmoji :: bytes
  pb_bytesSinceRekey :: u64
  pb_lastRekeyTime :: time
  pb_rekeyByteLimit :: u64
  pb_rekeyTimeLimit :: time
  pb_untaggedInput :: bool
  pb_closed :: bool
  pb_gone :: "conn list"

definition Publisher_SetSPKIFingerprint :: "string \<Rightarrow> publisher \<Rightarrow> publisher" where
  "Publisher_SetSPKIFingerprint fingerprint p = p\<lparr>pb_expectedFingerprint := fingerprint\<rparr>"

definition SetUntaggedInput :: "bool \<Rightarrow> publisher \<Rightarrow> publisher" where
  "SetUntaggedInput untagged p = p\<lparr>pb_untaggedInput := untagged\<rparr>"

definition SetRekeyThresholds :: "u64 \<Rightarrow> time \<Rightarrow> publisher \<Rightarrow> publisher" where
  "SetRekeyThresholds byteLimit timeLimit p = p\<lparr>pb_rekeyByteLimit := byteLimit, pb_rekeyTimeLimit := timeLimit\<rparr>"

definition Publisher_SetTransportMode :: "string \<Rightarrow> publisher \<Rightarrow> publisher" where
  "Publisher_SetTransportMode mode p = p\<lparr>pb_transportMode := mode\<rparr>"

text \<open>
  \<open>NewPublisherEngine\<close>: \<open>mk\<close> is what the random source delivers for the master key, \<open>me\<close> the number
  of the callback that closes the engine, \<open>reg\<close> the registry of callbacks.
\<close>

definition NewPublisherEngine ::
    "prims \<Rightarrow> time \<Rightarrow> pake_rnd \<Rightarrow> bytes option \<Rightarrow> nat \<Rightarrow> bytes \<Rightarrow> string \<Rightarrow> mstate
     \<Rightarrow> (feed_err + publisher) \<times> mstate" where
  "NewPublisherEngine P now rnd mk me passphrase relayAddr reg =
     (let sessionID = DeriveSessionID P passphrase in
      case NewPAKEPublisher P rnd passphrase of
        Inl e \<Rightarrow> (Inl (ErrCrypto e), reg)
      | Inr pakePeer \<Rightarrow>
          let passCopy = go_copy (replicate (length passphrase) 0) 0 (length passphrase) passphrase in
          case mk of
            None \<Rightarrow> (Inl (ErrCrypto ErrRandom), reg)
          | Some r \<Rightarrow>
              let masterKey = go_copy (replicate KeySize 0) 0 KeySize r in
              case NewCipher masterKey of
                Inl e \<Rightarrow> (Inl (ErrCrypto e), reg)
              | Inr ciph \<Rightarrow>
                  let (sasHex, sasEmoji) = CalculateSAS masterKey in
                  (Inr \<lparr>pb_passphrase = Some passCopy, pb_masterKey = Some masterKey, pb_relayAddr = relayAddr,
                        pb_sessionID = sessionID, pb_pakePeer = Some pakePeer, pb_cipher = Some ciph,
                        pb_conn = None, pb_seqCounter = 0, pb_replayBuffer = ([], NewRingBuffer 100),
                        pb_chunkAckChan = None, pb_expectedFingerprint = '''', pb_transportMode = '''',
                        pb_sasHex = sasHex, pb_sasEmoji = sasEmoji, pb_bytesSinceRekey = 0,
                        pb_lastRekeyTime = now, pb_rekeyByteLimit = DefaultRekeyByteThreshold,
                        pb_rekeyTimeLimit = DefaultRekeyTimeThreshold, pb_untaggedInput = False,
                        pb_closed = False, pb_gone = []\<rparr>,
                   RegisterWiper (Some me) reg))"

definition Publisher_SessionID :: "publisher \<Rightarrow> bytes" where
  "Publisher_SessionID p = pb_sessionID p"

section \<open>Connecting\<close>

text \<open>The dialling both engines do: QUIC if asked for, with a fall-back to TCP or TLS.\<close>

definition dial_transport :: "net_env \<Rightarrow> string \<Rightarrow> string \<Rightarrow> string \<Rightarrow> conn option" where
  "dial_transport N tMode relayAddr expectedFingerprint =
     (if tMode = ModeQUIC then
        (case ne_quic N relayAddr of
           Some c \<Rightarrow> Some c
         | None \<Rightarrow> DialRelayWithPin N relayAddr expectedFingerprint)
      else DialRelayWithPin N relayAddr expectedFingerprint)"

definition gone :: "conn option \<Rightarrow> conn list" where
  "gone c = (case c of None \<Rightarrow> [] | Some c \<Rightarrow> [c])"

definition payload_of :: "bytes option \<Rightarrow> bytes" where
  "payload_of b = (case b of None \<Rightarrow> [] | Some b \<Rightarrow> b)"

definition Publisher_Connect :: "prims \<Rightarrow> net_env \<Rightarrow> pake_rnd \<Rightarrow> publisher \<Rightarrow> (feed_err + unit) \<times> publisher" where
  "Publisher_Connect P N rnd p =
     (case dial_transport N (pb_transportMode p) (pb_relayAddr p) (pb_expectedFingerprint p) of
        None \<Rightarrow> (Inl ErrDial, p)
      | Some conn \<Rightarrow>
          let p = p\<lparr>pb_gone := pb_gone p @ gone (pb_conn p), pb_conn := Some conn\<rparr> in
          case (case pb_pakePeer p of
                  Some peer \<Rightarrow> Inr peer
                | None \<Rightarrow> NewPAKEPublisher P rnd (payload_of (pb_passphrase p))) of
            Inl e \<Rightarrow> (Inl (ErrCrypto e), p\<lparr>pb_conn := Some (conn_Close conn)\<rparr>)
          | Inr peer \<Rightarrow>
              let p = p\<lparr>pb_pakePeer := Some peer\<rparr>;
                  env = \<lparr>env_Version = Version, env_MsgType = MsgTypePAKEInitPub, env_SessionID = pb_sessionID p,
                         env_Nonce = zero_nonce, env_Payload = payload_of (Bytes (pb_pakePeer p))\<rparr>
              in case Encode framePool_New conn env of
                   (Inl e, conn) \<Rightarrow> (Inl (ErrProto e), p\<lparr>pb_conn := Some (conn_Close conn)\<rparr>)
                 | (Inr _, conn) \<Rightarrow> (Inr (), p\<lparr>pb_conn := Some conn\<rparr>))"

section \<open>The handshake\<close>

text \<open>The random draws of the publisher's side: encapsulation, padding, wrapping nonce.\<close>

record hs_rnd =
  hr_enc :: bytes
  hr_pad :: "bytes option"
  hr_nonce :: "bytes option"

text \<open>The second handshake frame: the peer's message, the wrapped master key, the tag.\<close>

definition step2_env :: "bytes \<Rightarrow> bytes \<Rightarrow> bytes \<Rightarrow> bytes \<Rightarrow> envelope" where
  "step2_env sid pake wrapped tag =
     \<lparr>env_Version = Version, env_MsgType = MsgTypePAKEStep2, env_SessionID = sid, env_Nonce = zero_nonce,
      env_Payload = pake @ wrapped @ tag\<rparr>"

text \<open>The loop that waits for the confirmation, skipping frames of other types.\<close>

fun confirm_loop :: "nat \<Rightarrow> pakepeer option \<Rightarrow> conn \<Rightarrow> (feed_err + unit) \<times> conn" where
  "confirm_loop 0 peer conn = (Inl ErrNoConfirm, conn)"
| "confirm_loop (Suc n) peer conn =
     (case Decode conn of
        (Inl e, conn) \<Rightarrow> (Inl (ErrProto e), conn)
      | (Inr confirmFrame, conn) \<Rightarrow>
          if env_MsgType confirmFrame \<noteq> MsgTypeKeyConfirm then confirm_loop n peer conn
          else (case VerifyPeerConfirm peer (env_Payload confirmFrame) of
                  Inl e \<Rightarrow> (Inl (ErrCrypto e), conn)
                | Inr _ \<Rightarrow> (Inr (), conn)))"

text \<open>From the subscriber's message to the answer: both paths of the publisher do this.\<close>

definition answer_peer :: "hs_rnd \<Rightarrow> bytes \<Rightarrow> bytes \<Rightarrow> pakepeer \<Rightarrow> feed_err + envelope" where
  "answer_peer rnd sid masterKey peer =
     (case SessionKey peer of
        Inl e \<Rightarrow> Inl (ErrCrypto e)
      | Inr p2pKey \<Rightarrow>
          (case WrapSessionKey (hr_nonce rnd) p2pKey masterKey of
             Inl e \<Rightarrow> Inl (ErrCrypto e)
           | Inr wrapped \<Rightarrow>
               (case ConfirmTag (Some peer) of
                  Inl e \<Rightarrow> Inl (ErrCrypto e)
                | Inr tag \<Rightarrow> Inr (step2_env sid (payload_of (Bytes (Some peer))) wrapped tag))))"

definition Publisher_CompleteHandshake :: "prims \<Rightarrow> hs_rnd \<Rightarrow> publisher \<Rightarrow> (feed_err + unit) \<times> publisher" where
  "Publisher_CompleteHandshake P rnd p =
     (case pb_conn p of
        None \<Rightarrow> (Inl ErrNotConnected, p)
      | Some conn \<Rightarrow>
          (case Decode conn of
             (Inl e, conn) \<Rightarrow> (Inl (ErrProto e), p\<lparr>pb_conn := Some conn\<rparr>)
           | (Inr env, conn) \<Rightarrow>
               let p = p\<lparr>pb_conn := Some conn\<rparr> in
               if env_MsgType env = MsgTypeClose then (Inl (ErrPeerClosed (env_Payload env)), p)
               else if env_Version env < MinSupportedVersion then (Inl (ErrPeerVersion (env_Version env)), p)
               else if env_MsgType env \<noteq> MsgTypePAKEInitSub \<and> env_MsgType env \<noteq> MsgTypePAKEStep2 then
                 (Inl (ErrFrameType (env_MsgType env)), p)
               else case pb_pakePeer p of
                 None \<Rightarrow> (Inl PanicNil, p)
               | Some peer \<Rightarrow>
                   (case Update P (hr_enc rnd) (hr_pad rnd) peer (env_Payload env) of
                      (Inl e, peer) \<Rightarrow> (Inl (ErrCrypto e), p\<lparr>pb_pakePeer := Some peer\<rparr>)
                    | (Inr _, peer) \<Rightarrow>
                        let p = p\<lparr>pb_pakePeer := Some peer\<rparr> in
                        case answer_peer rnd (pb_sessionID p) (payload_of (pb_masterKey p)) peer of
                          Inl e \<Rightarrow> (Inl e, p)
                        | Inr env \<Rightarrow>
                            (case Encode framePool_New conn env of
                               (Inl e, conn) \<Rightarrow> (Inl (ErrProto e), p\<lparr>pb_conn := Some conn\<rparr>)
                             | (Inr _, conn) \<Rightarrow>
                                 (case confirm_loop 8 (pb_pakePeer p) conn of
                                    (r, conn) \<Rightarrow> (r, p\<lparr>pb_conn := Some conn\<rparr>))))))"

section \<open>Sending\<close>

definition sendFrame :: "envelope \<Rightarrow> publisher \<Rightarrow> (feed_err + unit) \<times> publisher" where
  "sendFrame env p =
     (case pb_conn p of
        None \<Rightarrow> (Inl ErrNotConnected, p)
      | Some conn \<Rightarrow>
          (case Encode framePool_New conn env of
             (Inl e, conn) \<Rightarrow> (Inl (ErrProto e), p\<lparr>pb_conn := Some conn\<rparr>)
           | (Inr _, conn) \<Rightarrow> (Inr (), p\<lparr>pb_conn := Some conn\<rparr>)))"

definition getPassphrase :: "publisher \<Rightarrow> bytes option" where
  "getPassphrase p = pb_passphrase p"

text \<open>
  The building of an encrypted frame, which \<open>PublishPayload\<close>, \<open>TriggerRekey\<close> and
  \<open>replaySyncForSubscriber\<close> all do: nonce from the session and the sequence number, header as
  associated data, sequence number before the ciphertext.
\<close>

definition seal_frame :: "cipher \<Rightarrow> byte \<Rightarrow> bytes \<Rightarrow> u64 \<Rightarrow> bytes \<Rightarrow> feed_err + envelope" where
  "seal_frame ciph msgType sid seqNum plain =
     (let sessionSalt = go_copy (replicate 4 0) 0 4 (take 4 sid);
          nonce = ConstructNonceRFC5116 sessionSalt seqNum;
          framePayloadLen = (of_nat (8 + length plain + 16) :: u32)
      in case SerializeHeader (replicate HeaderSize 0) Version msgType sid nonce framePayloadLen of
           None \<Rightarrow> Inl PanicNil
         | Some headerBytes \<Rightarrow>
             (case Encrypt ciph None plain (Some nonce) headerBytes of
                Inl e \<Rightarrow> Inl (ErrCrypto e)
              | Inr (ciphertext, _) \<Rightarrow>
                  let framePayload = replicate (8 + length ciphertext) 0;
                      framePayload = go_copy framePayload 0 8 (PutUint64 seqNum);
                      framePayload = go_copy framePayload 8 (length framePayload) ciphertext
                  in Inr \<lparr>env_Version = Version, env_MsgType = msgType, env_SessionID = sid,
                          env_Nonce = nonce, env_Payload = framePayload\<rparr>))"

text \<open>\<open>TriggerRekey\<close>, first section: up to the sent frame. \<open>Some\<close> has the current key and the salt.\<close>

definition rekey_send :: "bytes option \<Rightarrow> publisher \<Rightarrow> (feed_err + (bytes \<times> bytes) option) \<times> publisher" where
  "rekey_send rnd p =
     (case pb_cipher p of
        None \<Rightarrow> (Inr None, p)
      | Some ciph \<Rightarrow>
          (case GetKey ciph of
             None \<Rightarrow> (Inr None, p)
           | Some currKey \<Rightarrow>
               (case GenerateNonce rnd of
                  Inl e \<Rightarrow> (Inl (ErrCrypto e), p)
                | Inr salt \<Rightarrow>
                    let p = p\<lparr>pb_seqCounter := pb_seqCounter p + 1\<rparr> in
                    case seal_frame ciph MsgTypeRekey (pb_sessionID p) (pb_seqCounter p) salt of
                      Inl e \<Rightarrow> (Inl e, p)
                    | Inr env \<Rightarrow>
                        (case sendFrame env p of
                           (Inl e, p) \<Rightarrow> (Inl e, p)
                         | (Inr _, p) \<Rightarrow> (Inr (Some (currKey, salt)), p)))))"

text \<open>Second section: the key is changed.\<close>

definition rekey_commit :: "time \<Rightarrow> bytes \<Rightarrow> bytes \<Rightarrow> publisher \<Rightarrow> (feed_err + unit) \<times> publisher" where
  "rekey_commit now currKey salt p =
     (case RatchetKey currKey salt of
        Inl e \<Rightarrow> (Inl (ErrCrypto e), p)
      | Inr nextKey \<Rightarrow>
          (case pb_cipher p of
             None \<Rightarrow> (Inl PanicNil, p)
           | Some ciph \<Rightarrow>
               (case UpdateKey ciph nextKey of
                  Inl e \<Rightarrow> (Inl (ErrCrypto e), p)
                | Inr ciph \<Rightarrow>
                    let (sasHex, sasEmoji) = CalculateSAS nextKey in
                    (Inr (), p\<lparr>pb_cipher := Some ciph, pb_masterKey := Some nextKey, pb_sasHex := sasHex,
                               pb_sasEmoji := sasEmoji, pb_bytesSinceRekey := 0, pb_lastRekeyTime := now\<rparr>))))"

definition TriggerRekey :: "time \<Rightarrow> bytes option \<Rightarrow> publisher \<Rightarrow> (feed_err + unit) \<times> publisher" where
  "TriggerRekey now rnd p =
     (case rekey_send rnd p of
        (Inl e, p) \<Rightarrow> (Inl e, p)
      | (Inr None, p) \<Rightarrow> (Inr (), p)
      | (Inr (Some (currKey, salt)), p) \<Rightarrow> rekey_commit now currKey salt p)"

text \<open>The decision to rekey, with the bytes counted.\<close>

definition count_payload :: "time \<Rightarrow> bytes \<Rightarrow> publisher \<Rightarrow> bool \<times> publisher" where
  "count_payload now payload p =
     (let p = p\<lparr>pb_bytesSinceRekey := pb_bytesSinceRekey p + of_nat (length payload)\<rparr>
      in (0 < pb_rekeyByteLimit p \<and> pb_rekeyByteLimit p \<le> pb_bytesSinceRekey p
          \<or> 0 < pb_rekeyTimeLimit p \<and> pb_rekeyTimeLimit p \<le> now - pb_lastRekeyTime p, p))"

text \<open>The rest of \<open>PublishPayload\<close>: sequence number, replay buffer, encryption, sending.\<close>

definition publish_sealed :: "bytes \<Rightarrow> publisher \<Rightarrow> (feed_err + unit) \<times> publisher" where
  "publish_sealed payload p =
     (case pb_cipher p of
        None \<Rightarrow> (Inl ErrNoCipher, p)
      | Some ciph \<Rightarrow>
          let seqNum = pb_seqCounter p + 1;
              p = p\<lparr>pb_seqCounter := seqNum, pb_replayBuffer := Push seqNum payload (pb_replayBuffer p)\<rparr>
          in case seal_frame ciph MsgTypeDataStream (pb_sessionID p) seqNum (PadPayload payload DefaultPaddingTargetSize) of
               Inl e \<Rightarrow> (Inl e, p)
             | Inr env \<Rightarrow> sendFrame env p)"

definition PublishPayload :: "time \<Rightarrow> bytes option \<Rightarrow> bytes \<Rightarrow> publisher \<Rightarrow> (feed_err + unit) \<times> publisher" where
  "PublishPayload now rnd payload p =
     (let (shouldRekey, p) = count_payload now payload p in
      case (if shouldRekey then TriggerRekey now rnd p else (Inr (), p)) of
        (Inl PanicNil, p) \<Rightarrow> (Inl PanicNil, p)
      | (_, p) \<Rightarrow> publish_sealed payload p)"

section \<open>Subscribers that return\<close>

text \<open>\<open>replaySyncForSubscriber\<close>: the loop over the items, then the buffers go back to the pool.\<close>

fun replay_loop :: "cipher \<Rightarrow> seqmsg list \<Rightarrow> publisher \<Rightarrow> publisher" where
  "replay_loop ciph [] p = p"
| "replay_loop ciph (item # items) p =
     (case seal_frame ciph MsgTypeDataStream (pb_sessionID p) (sm_SeqNum item)
             (PadPayload (payload_bytes item) DefaultPaddingTargetSize) of
        Inl e \<Rightarrow> replay_loop ciph items p
      | Inr env \<Rightarrow> replay_loop ciph items (snd (sendFrame env p)))"

definition put_items :: "seqmsg list \<Rightarrow> publisher \<Rightarrow> publisher" where
  "put_items items p =
     p\<lparr>pb_replayBuffer := (fold (\<lambda>item. putBuffer (sm_Payload item)) items (fst (pb_replayBuffer p)),
                           snd (pb_replayBuffer p))\<rparr>"

definition replaySyncForSubscriber :: "u64 \<Rightarrow> publisher \<Rightarrow> publisher" where
  "replaySyncForSubscriber lastSeqNum p =
     (let (rb, items) = GetAfter lastSeqNum (pb_replayBuffer p);
          p = p\<lparr>pb_replayBuffer := rb\<rparr>
      in case (pb_cipher p, pb_conn p) of
           (Some ciph, Some _) \<Rightarrow> put_items items (replay_loop ciph items p)
         | _ \<Rightarrow> put_items items p)"

text \<open>A new subscriber, or one that reconnects, while the stream is on.\<close>

definition rejoin :: "prims \<Rightarrow> pake_rnd \<Rightarrow> hs_rnd \<Rightarrow> bytes \<Rightarrow> publisher \<Rightarrow> publisher" where
  "rejoin P prnd rnd payload p =
     (case getPassphrase p of
        None \<Rightarrow> p
      | Some pass \<Rightarrow>
          (case NewPAKEPublisher P prnd pass of
             Inl e \<Rightarrow> p
           | Inr peer \<Rightarrow>
               let peer = snd (Update P (hr_enc rnd) (hr_pad rnd) peer payload)
               in (case answer_peer rnd (pb_sessionID p) (payload_of (pb_masterKey p)) peer of
                     Inl e \<Rightarrow> p
                   | Inr env \<Rightarrow> snd (sendFrame env p))))"

definition is_timeout :: "proto_err \<Rightarrow> bool" where
  "is_timeout e \<longleftrightarrow> e = ErrHeader ErrTimeout \<or> e = ErrPayload ErrTimeout"

text \<open>One iteration of \<open>handleSyncRequests\<close>; the boolean says whether the loop goes on.\<close>

definition handleSync_step :: "prims \<Rightarrow> pake_rnd \<Rightarrow> hs_rnd \<Rightarrow> publisher \<Rightarrow> bool \<times> publisher" where
  "handleSync_step P prnd rnd p =
     (case pb_conn p of
        None \<Rightarrow> (False, p)
      | Some conn \<Rightarrow>
          (case Decode conn of
             (Inl e, conn) \<Rightarrow> (is_timeout e, p\<lparr>pb_conn := Some conn\<rparr>)
           | (Inr env, conn) \<Rightarrow>
               let p = p\<lparr>pb_conn := Some conn\<rparr> in
               (True,
                if env_MsgType env = MsgTypePAKEInitSub then rejoin P prnd rnd (env_Payload env) p
                else if env_MsgType env = MsgTypeSyncReq then
                  (if 8 \<le> length (env_Payload env)
                   then replaySyncForSubscriber (Uint64 (go_slice (env_Payload env) 0 8)) p else p)
                else if env_MsgType env = MsgTypeChunkAck then
                  (case pb_chunkAckChan p of
                     None \<Rightarrow> p
                   | Some n \<Rightarrow> if n < 10 then p\<lparr>pb_chunkAckChan := Some (n + 1)\<rparr> else p)
                else p)))"

section \<open>Closing\<close>

definition Publisher_Close :: "publisher \<Rightarrow> publisher" where
  "Publisher_Close p =
     (if pb_closed p then p
      else
        let p = p\<lparr>pb_closed := True\<rparr>;
            p = (case pb_conn p of
                   None \<Rightarrow> p
                 | Some conn \<Rightarrow>
                     let closeEnv = \<lparr>env_Version = Version, env_MsgType = MsgTypeClose, env_SessionID = pb_sessionID p,
                                     env_Nonce = zero_nonce, env_Payload = []\<rparr>;
                         conn = conn_Close (snd (Encode framePool_New conn closeEnv))
                     in p\<lparr>pb_conn := None, pb_gone := pb_gone p @ [conn]\<rparr>)
        in p\<lparr>pb_cipher := None, pb_pakePeer := None, pb_masterKey := None, pb_passphrase := None,
             pb_replayBuffer := Wipe (pb_replayBuffer p)\<rparr>)"

section \<open>The stream\<close>

definition heartbeat_env :: "bytes \<Rightarrow> envelope" where
  "heartbeat_env sid = \<lparr>env_Version = Version, env_MsgType = MsgTypeHeartbeat, env_SessionID = sid,
     env_Nonce = zero_nonce, env_Payload = []\<rparr>"

definition tag_payload :: "bool \<Rightarrow> bytes \<Rightarrow> bytes" where
  "tag_payload untagged payload =
     (if untagged \<or> hd payload \<noteq> TagText \<and> hd payload \<noteq> TagFileStart \<and> hd payload \<noteq> TagFileChunk
           \<and> hd payload \<noteq> TagFileEnd
      then TagText # payload else payload)"

text \<open>
  What the loop of \<open>PublishStream\<close> selects on: the context ends, the ticker fires, the channel
  gives a payload, or it is closed. \<open>None\<close>: the loop goes on; \<open>Some r\<close>: it returned \<open>r\<close> and the
  deferred \<open>Close\<close> ran.
\<close>

datatype pub_select = SelDone | SelTick | SelInput bytes | SelClosed

definition PublishStream_step ::
    "time \<Rightarrow> bytes option \<Rightarrow> pub_select \<Rightarrow> publisher \<Rightarrow> (feed_err + unit) option \<times> publisher" where
  "PublishStream_step now rnd sel p =
     (case sel of
        SelDone \<Rightarrow> (Some (Inl ErrCtxDone), Publisher_Close p)
      | SelTick \<Rightarrow> (None, snd (sendFrame (heartbeat_env (pb_sessionID p)) p))
      | SelClosed \<Rightarrow> (Some (Inr ()), Publisher_Close p)
      | SelInput payload \<Rightarrow>
          if length payload = 0 then (None, p)
          else (case PublishPayload now rnd (tag_payload (pb_untaggedInput p) payload) p of
                  (Inl e, p) \<Rightarrow> (Some (Inl e), Publisher_Close p)
                | (Inr _, p) \<Rightarrow> (None, p)))"

fun PublishStream ::
    "(time \<times> bytes option \<times> pub_select) list \<Rightarrow> publisher \<Rightarrow> (feed_err + unit) option \<times> publisher" where
  "PublishStream [] p = (None, p)"
| "PublishStream ((now, rnd, sel) # evs) p =
     (case PublishStream_step now rnd sel p of
        (None, p) \<Rightarrow> PublishStream evs p
      | (Some r, p) \<Rightarrow> (Some r, p))"

section \<open>Files\<close>

text \<open>
  What the loop of \<open>SendFile\<close> meets while it waits for an acknowledgement: the context ends, a
  token comes out of the channel, or the time is over.
\<close>

datatype ack_select = AckDone | AckRecv | AckTimeout

text \<open>
  The file as the three accesses see it: the size \<open>Stat\<close> reports, the bytes that are hashed
  (\<open>None\<close>: reading fails), and the bytes of the second pass with whether it ends in an error. They
  differ if the file changes in between. \<open>fs_reads i\<close> is how much the system is willing to return
  for the \<open>i\<close>-th read of the second pass.
\<close>

record file_src =
  fs_path :: string
  fs_size :: int
  fs_hashed :: "bytes option"
  fs_sent :: bytes
  fs_rderr :: bool
  fs_reads :: "nat \<Rightarrow> nat"

definition chunk_size :: "int \<Rightarrow> nat" where
  "chunk_size sz = (if 100 * 1024 * 1024 \<le> sz then 524288 else if 10 * 1024 * 1024 \<le> sz then 131072 else 32768)"

text \<open>A read into \<open>n\<close> bytes returns one byte at least and the whole buffer at most.\<close>

definition read_len :: "nat \<Rightarrow> nat \<Rightarrow> nat" where
  "read_len want n = min n (max 1 want)"

lemma read_len_bounds [simp]: "read_len want n \<le> n" "0 < n \<Longrightarrow> 0 < read_len want n"
  by (simp_all add: read_len_def)

text \<open>\<open>tm i\<close> has the time and randomness of the \<open>i\<close>-th \<open>PublishPayload\<close> of the transfer.\<close>

function send_chunks ::
    "(nat \<Rightarrow> time \<times> bytes option) \<Rightarrow> (nat \<Rightarrow> ack_select) \<Rightarrow> (nat \<Rightarrow> nat) \<Rightarrow> string \<Rightarrow> nat \<Rightarrow> bool \<Rightarrow> nat \<Rightarrow> nat \<Rightarrow> bytes
     \<Rightarrow> publisher \<Rightarrow> (feed_err + nat) \<times> publisher" where
  "send_chunks tm ack rd tid sz err i unacked rest p =
     (if rest = [] \<or> sz = 0 then (if err then Inl ErrFile else Inr i, p)
      else
        let n = read_len (rd i) sz in
        case PublishPayload (fst (tm i)) (snd (tm i)) ([TagFileChunk] @ bytes_of tid @ take n rest) p of
          (Inl e, p) \<Rightarrow> (Inl e, p)
        | (Inr _, p) \<Rightarrow>
            let unacked = unacked + 1 in
            if 16 \<le> unacked then
              (case ack i of
                 AckDone \<Rightarrow> (Inl ErrCtxDone, p)
               | AckRecv \<Rightarrow> send_chunks tm ack rd tid sz err (Suc i) (unacked - 1) (drop n rest)
                              (p\<lparr>pb_chunkAckChan := map_option (\<lambda>k. k - 1) (pb_chunkAckChan p)\<rparr>)
               | AckTimeout \<Rightarrow> send_chunks tm ack rd tid sz err (Suc i) 0 (drop n rest) p)
            else send_chunks tm ack rd tid sz err (Suc i) unacked (drop n rest) p)"
  by pat_completeness auto
termination
  by (relation "measure (\<lambda>(_, _, _, _, _, _, _, _, rest, _). length rest)") auto

declare send_chunks.simps [simp del]

definition file_header_of :: "bytes \<Rightarrow> file_src \<Rightarrow> bytes \<Rightarrow> file_header" where
  "file_header_of randomBytes f content =
     \<lparr>fh_TransferID = hex_encode randomBytes, fh_Filename = Base (fs_path f), fh_FileSize = fs_size f,
      fh_SHA256 = hex_encode (sha256 content)\<rparr>"

text \<open>\<open>f\<close> is \<open>None\<close> if the file cannot be opened or examined.\<close>

definition SendFile ::
    "(nat \<Rightarrow> time \<times> bytes option) \<Rightarrow> (nat \<Rightarrow> ack_select) \<Rightarrow> bytes option \<Rightarrow> file_src option \<Rightarrow> publisher
     \<Rightarrow> (feed_err + unit) \<times> publisher" where
  "SendFile tm ack rnd f p =
     (case f of
        None \<Rightarrow> (Inl ErrFile, p)
      | Some f \<Rightarrow>
          let randomBytes = (case rnd of None \<Rightarrow> replicate 8 0 | Some r \<Rightarrow> go_copy (replicate 8 0) 0 8 r);
              transferID = hex_encode randomBytes
          in case fs_hashed f of
               None \<Rightarrow> (Inl ErrFile, p)
             | Some content \<Rightarrow>
                 let startPayload = [TagFileStart] @ Marshal_FileHeader (file_header_of randomBytes f content) in
                 case PublishPayload (fst (tm 0)) (snd (tm 0)) startPayload p of
                   (Inl e, p) \<Rightarrow> (Inl e, p)
                 | (Inr _, p) \<Rightarrow>
                     let p = p\<lparr>pb_chunkAckChan := Some 0\<rparr> in
                     case send_chunks tm ack (fs_reads f) transferID (chunk_size (fs_size f)) (fs_rderr f) 1 0 (fs_sent f) p of
                       (Inl e, p) \<Rightarrow> (Inl e, p\<lparr>pb_chunkAckChan := None\<rparr>)
                     | (Inr i, p) \<Rightarrow>
                         (case PublishPayload (fst (tm i)) (snd (tm i)) ([TagFileEnd] @ bytes_of transferID) p of
                            (r, p) \<Rightarrow> (r, p\<lparr>pb_chunkAckChan := None\<rparr>)))"

end
