(* ===== verification/Sanitize.thy ===== *)
theory Sanitize
  imports Go_Json
begin

text \<open>
  \<open>sanitizeTextOutput\<close> of \<open>pkg/feed/subscriber.go\<close>: the regular expression \<open>ansiStripRe\<close> as a matcher
  (the alternatives in their order, as Go's leftmost-first matching takes them) and \<open>ReplaceAll\<close>
  with an empty replacement.
\<close>

definition is_letter :: "byte \<Rightarrow> bool" where
  "is_letter b \<longleftrightarrow> 0x41 \<le> b \<and> b \<le> 0x5A \<or> 0x61 \<le> b \<and> b \<le> 0x7A"

text \<open>The last alternative: C0 controls other than tab, line feed and carriage return, and DEL.\<close>

definition control :: "byte \<Rightarrow> bool" where
  "control b \<longleftrightarrow> b \<le> 0x08 \<or> b = 0x0B \<or> b = 0x0C \<or> 0x0E \<le> b \<and> b \<le> 0x1F \<or> b = 0x7F"

definition match_csi :: "bytes \<Rightarrow> nat option" where
  "match_csi s =
     (if take 2 s = [0x1B, 0x5B] then
        let ps = takeWhile (\<lambda>b. is_digit b \<or> b = 0x3B) (drop 2 s);
            r = drop (2 + length ps) s
        in (case r of b # _ \<Rightarrow> if is_letter b then Some (2 + length ps + 1) else None | [] \<Rightarrow> None)
      else None)"

definition match_osc :: "bytes \<Rightarrow> nat option" where
  "match_osc s =
     (if take 2 s = [0x1B, 0x5D] then
        let ps = takeWhile (\<lambda>b. b \<noteq> 0x07 \<and> b \<noteq> 0x1B) (drop 2 s);
            r = drop (2 + length ps) s
        in if take 1 r = [0x07] then Some (2 + length ps + 1)
           else if take 2 r = [0x1B, 0x5C] then Some (2 + length ps + 2)
           else None
      else None)"

definition match_esc :: "bytes \<Rightarrow> nat option" where
  "match_esc s =
     (case s of
        a # b # r \<Rightarrow> if a = 0x1B \<and> b \<noteq> 0x1B then Some (1 + rune_size (b # r)) else None
      | _ \<Rightarrow> None)"

definition match_c0 :: "bytes \<Rightarrow> nat option" where
  "match_c0 s = (case s of b # _ \<Rightarrow> if control b then Some 1 else None | [] \<Rightarrow> None)"

text \<open>The length of the match that starts here.\<close>

definition ansi_match :: "bytes \<Rightarrow> nat option" where
  "ansi_match s =
     (case match_csi s of Some n \<Rightarrow> Some n
      | None \<Rightarrow> (case match_osc s of Some n \<Rightarrow> Some n
                | None \<Rightarrow> (case match_esc s of Some n \<Rightarrow> Some n
                          | None \<Rightarrow> match_c0 s)))"

lemma ansi_match_pos: "ansi_match s = Some n \<Longrightarrow> 0 < n"
  by (auto simp: ansi_match_def match_csi_def match_osc_def match_esc_def match_c0_def Let_def
      split: option.splits if_splits list.splits)

function sanitizeTextOutput :: "bytes \<Rightarrow> bytes" where
  "sanitizeTextOutput s =
     (if s = [] then []
      else case ansi_match s of
             Some n \<Rightarrow> sanitizeTextOutput (drop n s)
           | None \<Rightarrow> take (rune_size s) s @ sanitizeTextOutput (drop (rune_size s) s))"
  by pat_completeness auto
termination
  by (relation "measure length") (auto simp: rune_size_pos dest: ansi_match_pos)

declare sanitizeTextOutput.simps [simp del]

section \<open>What is left\<close>

lemma control_low: "control b \<Longrightarrow> \<not> 0x80 \<le> b"
  by (auto simp: control_def word_le_nat_alt)

lemma ansi_match_control: "control a \<Longrightarrow> ansi_match (a # s) \<noteq> None"
  by (auto simp: ansi_match_def match_c0_def split: option.splits)

lemma ansi_match_clean: "\<not> control a \<Longrightarrow> ansi_match (a # s) = None"
proof -
  assume c: "\<not> control a"
  then have "a \<noteq> 0x1B" by (auto simp: control_def)
  then show ?thesis
    using c by (simp add: ansi_match_def match_csi_def match_osc_def match_esc_def match_c0_def split: list.splits)
qed

lemma rune_clean:
  assumes "\<not> control a"
  shows "list_all (\<lambda>b. \<not> control b) (take (rune_size (a # s)) (a # s))"
proof -
  have "\<not> control b" if "b \<in> set (take (rune_size (a # s) - 1) s)" for b
    using rune_tail_high [OF that] control_low by blast
  then show ?thesis
    using assms rune_size_pos [of "a # s"] by (cases "rune_size (a # s)") (auto simp: list_all_iff)
qed

lemma sanitize_clean: "list_all (\<lambda>b. \<not> control b) (sanitizeTextOutput s)"
proof (induction s rule: sanitizeTextOutput.induct)
  case (1 s)
  show ?case
  proof (cases s)
    case (Cons a r)
    show ?thesis
    proof (cases "ansi_match s")
      case None
      then have "\<not> control a" using ansi_match_control [of a r] Cons by auto
      then show ?thesis
        using 1 None Cons rune_clean [of a r] by (subst sanitizeTextOutput.simps) simp
    next
      case (Some n)
      then show ?thesis using 1 Cons by (subst sanitizeTextOutput.simps) simp
    qed
  qed (simp add: sanitizeTextOutput.simps)
qed

lemma sanitize_id: "list_all (\<lambda>b. \<not> control b) s \<Longrightarrow> sanitizeTextOutput s = s"
proof (induction s rule: sanitizeTextOutput.induct)
  case (1 s)
  show ?case
  proof (cases s)
    case (Cons a r)
    then have "ansi_match s = None" using 1(3) ansi_match_clean by simp
    moreover have "list_all (\<lambda>b. \<not> control b) (drop (rune_size s) s)"
      using 1(3) by (auto simp: list_all_iff dest: in_set_dropD)
    ultimately have "sanitizeTextOutput (drop (rune_size s) s) = drop (rune_size s) s" using 1 Cons by simp
    then show ?thesis
      using \<open>ansi_match s = None\<close> Cons by (subst sanitizeTextOutput.simps) (metis append_take_drop_id list.distinct(1) option.simps(4))
  qed (simp add: sanitizeTextOutput.simps)
qed

text \<open>C25: text shown to a subscriber carries no terminal controls. Whatever bytes a peer sends, the
  sanitised text has no C0 control byte other than tab, line feed and carriage return, and no
  DEL, so no escape sequence either; sanitising again changes nothing, and a text is left
  untouched exactly when it has no such byte.\<close>

theorem sanitize_safe:
  "list_all (\<lambda>b. b = 0x09 \<or> b = 0x0A \<or> b = 0x0D \<or> 0x20 \<le> b \<and> b \<noteq> 0x7F) (sanitizeTextOutput s)
   \<and> sanitizeTextOutput (sanitizeTextOutput s) = sanitizeTextOutput s
   \<and> (sanitizeTextOutput s = s
      \<longleftrightarrow> list_all (\<lambda>b. b = 0x09 \<or> b = 0x0A \<or> b = 0x0D \<or> 0x20 \<le> b \<and> b \<noteq> 0x7F) s)"
proof -
  have c: "(b = 0x09 \<or> b = 0x0A \<or> b = 0x0D \<or> 0x20 \<le> b \<and> b \<noteq> 0x7F) \<longleftrightarrow> \<not> control b" for b :: byte
    unfolding control_def word_le_nat_alt word_unat_eq_iff by simp linarith
  show ?thesis
    unfolding c using sanitize_clean [of s] sanitize_id by metis
qed

end
