(* ===== verification/Subscriber.thy ===== *)
theory Subscriber
  imports Publisher Sanitize "HOL-Library.AList"
begin

text \<open>
  \<open>pkg/feed/subscriber.go\<close>: the subscriber's engine. As for the publisher, the engine is a record
  with the fields of the struct. The local state of \<open>SubscribeStream\<close> (files being received, what
  has been written out) is the record \<open>sstream\<close>. One iteration of its loop is a definition; a run
  of the loop is a fold over what the environment decides in each iteration.
\<close>

section \<open>The engine\<close>

record subscriber =
  sb_passphrase :: "bytes option"
  sb_relayAddr :: string
  sb_sessionID :: bytes
  sb_pakePeer :: "pakepeer option"
  sb_cipher :: "cipher option"
  sb_conn :: "conn option"
  sb_ringBuffer :: "bufpool \<times> ringbuffer"
  sb_lastSeqNum :: u64
  sb_expectedFingerprint :: string
  sb_transportMode :: string
  sb_sasHex :: string
  sb_sasEmoji :: bytes
  sb_closed :: bool

definition Subscriber_SetSPKIFingerprint :: "string \<Rightarrow> subscriber \<Rightarrow> subscriber" where
  "Subscriber_SetSPKIFingerprint fingerprint s = s\<lparr>sb_expectedFingerprint := fingerprint\<rparr>"

definition Subscriber_SetTransportMode :: "string \<Rightarrow> subscriber \<Rightarrow> subscriber" where
  "Subscriber_SetTransportMode mode s = s\<lparr>sb_transportMode := mode\<rparr>"

definition NewSubscriberEngine ::
    "prims \<Rightarrow> pake_rnd \<Rightarrow> nat \<Rightarrow> bytes \<Rightarrow> string \<Rightarrow> mstate \<Rightarrow> (feed_err + subscriber) \<times> mstate" where
  "NewSubscriberEngine P rnd me passphrase relayAddr reg =
     (let sessionID = DeriveSessionID P passphrase in
      case NewPAKESubscriber P rnd passphrase of
        Inl e \<Rightarrow> (Inl (ErrCrypto e), reg)
      | Inr pakePeer \<Rightarrow>
          let passCopy = go_copy (replicate (length passphrase) 0) 0 (length passphrase) passphrase in
          (Inr \<lparr>sb_passphrase = Some passCopy, sb_relayAddr = relayAddr, sb_sessionID = sessionID,
                sb_pakePeer = Some pakePeer, sb_cipher = None, sb_conn = None,
                sb_ringBuffer = ([], NewRingBuffer 100), sb_lastSeqNum = 0, sb_expectedFingerprint = '''',
                sb_transportMode = '''', sb_sasHex = '''', sb_sasEmoji = [], sb_closed = False\<rparr>,
           RegisterWiper (Some me) reg))"

definition Subscriber_SessionID :: "subscriber \<Rightarrow> bytes" where
  "Subscriber_SessionID s = sb_sessionID s"

section \<open>Connecting\<close>

definition Subscriber_Connect :: "prims \<Rightarrow> net_env \<Rightarrow> pake_rnd \<Rightarrow> subscriber \<Rightarrow> (feed_err + unit) \<times> subscriber" where
  "Subscriber_Connect P N rnd s =
     (case dial_transport N (sb_transportMode s) (sb_relayAddr s) (sb_expectedFingerprint s) of
        None \<Rightarrow> (Inl ErrDial, s)
      | Some conn \<Rightarrow>
          let s = s\<lparr>sb_conn := Some conn\<rparr> in
          case (case sb_pakePeer s of
                  Some peer \<Rightarrow> Inr peer
                | None \<Rightarrow> NewPAKESubscriber P rnd (payload_of (sb_passphrase s))) of
            Inl e \<Rightarrow> (Inl (ErrCrypto e), s\<lparr>sb_conn := Some (conn_Close conn)\<rparr>)
          | Inr peer \<Rightarrow>
              let s = s\<lparr>sb_pakePeer := Some peer\<rparr>;
                  env = \<lparr>env_Version = Version, env_MsgType = MsgTypePAKEInitSub, env_SessionID = sb_sessionID s,
                         env_Nonce = zero_nonce, env_Payload = payload_of (Bytes (sb_pakePeer s))\<rparr>
              in case Encode framePool_New conn env of
                   (Inl e, conn) \<Rightarrow> (Inl (ErrProto e), s\<lparr>sb_conn := Some (conn_Close conn)\<rparr>)
                 | (Inr _, conn) \<Rightarrow> (Inr (), s\<lparr>sb_conn := Some conn\<rparr>))"

text \<open>The last part of the handshake: unwrap the master key and build the cipher.\<close>

definition install_master :: "bytes \<Rightarrow> bytes \<Rightarrow> subscriber \<Rightarrow> (feed_err + unit) \<times> subscriber" where
  "install_master p2pKey wrapped s =
     (case UnwrapSessionKey p2pKey wrapped of
        Inl e \<Rightarrow> (Inl (ErrCrypto e), s)
      | Inr masterSessionKey \<Rightarrow>
          let (sasHex, sasEmoji) = CalculateSAS masterSessionKey in
          case NewCipher masterSessionKey of
            Inl e \<Rightarrow> (Inl (ErrCrypto e), s)
          | Inr ciph \<Rightarrow> (Inr (), s\<lparr>sb_cipher := Some ciph, sb_sasHex := sasHex, sb_sasEmoji := sasEmoji\<rparr>))"

definition Subscriber_CompleteHandshake :: "prims \<Rightarrow> subscriber \<Rightarrow> (feed_err + unit) \<times> subscriber" where
  "Subscriber_CompleteHandshake P s =
     (case sb_conn s of
        None \<Rightarrow> (Inl ErrNotConnected, s)
      | Some conn \<Rightarrow>
          (case Decode conn of
             (Inl e, conn) \<Rightarrow> (Inl (ErrProto e), s\<lparr>sb_conn := Some conn\<rparr>)
           | (Inr env, conn) \<Rightarrow>
               let s = s\<lparr>sb_conn := Some conn\<rparr> in
               if env_MsgType env = MsgTypeClose then (Inl (ErrPeerClosed (env_Payload env)), s)
               else if env_Version env < MinSupportedVersion then (Inl (ErrPeerVersion (env_Version env)), s)
               else if length (env_Payload env) < UniformWireMsgSize + 60 + 32 then (Inl ErrRespSize, s)
               else
                 let pakeBytes = take UniformWireMsgSize (env_Payload env);
                     wrapped = go_slice (env_Payload env) UniformWireMsgSize (UniformWireMsgSize + 60);
                     pubConfirmTag = go_slice (env_Payload env) (UniformWireMsgSize + 60) (UniformWireMsgSize + 60 + 32)
                 in case sb_pakePeer s of
                      None \<Rightarrow> (Inl PanicNil, s)
                    | Some peer \<Rightarrow>
                        (case Update P [] None peer pakeBytes of
                           (Inl e, peer) \<Rightarrow> (Inl (ErrCrypto e), s\<lparr>sb_pakePeer := Some peer\<rparr>)
                         | (Inr _, peer) \<Rightarrow>
                             let s = s\<lparr>sb_pakePeer := Some peer\<rparr> in
                             case VerifyPeerConfirm (Some peer) pubConfirmTag of
                               Inl e \<Rightarrow> (Inl (ErrCrypto e), s)
                             | Inr _ \<Rightarrow>
                                 (case ConfirmTag (Some peer) of
                                    Inl e \<Rightarrow> (Inl (ErrCrypto e), s)
                                  | Inr subConfirmTag \<Rightarrow>
                                      let confirmEnv = \<lparr>env_Version = Version, env_MsgType = MsgTypeKeyConfirm,
                                            env_SessionID = sb_sessionID s, env_Nonce = zero_nonce,
                                            env_Payload = subConfirmTag\<rparr>
                                      in case Encode framePool_New conn confirmEnv of
                                           (Inl e, conn) \<Rightarrow> (Inl (ErrProto e), s\<lparr>sb_conn := Some conn\<rparr>)
                                         | (Inr _, conn) \<Rightarrow>
                                             let s = s\<lparr>sb_conn := Some conn\<rparr> in
                                             case SessionKey peer of
                                               Inl e \<Rightarrow> (Inl (ErrCrypto e), s)
                                             | Inr p2pKey \<Rightarrow> install_master p2pKey wrapped s))))"

definition SendSyncRequest :: "subscriber \<Rightarrow> (feed_err + unit) \<times> subscriber" where
  "SendSyncRequest s =
     (case sb_conn s of
        None \<Rightarrow> (Inl ErrNotConnected, s)
      | Some conn \<Rightarrow>
          let syncEnv = \<lparr>env_Version = Version, env_MsgType = MsgTypeSyncReq, env_SessionID = sb_sessionID s,
                         env_Nonce = zero_nonce, env_Payload = PutUint64 (sb_lastSeqNum s)\<rparr>
          in case Encode framePool_New conn syncEnv of
               (Inl e, conn) \<Rightarrow> (Inl (ErrProto e), s\<lparr>sb_conn := Some conn\<rparr>)
             | (Inr _, conn) \<Rightarrow> (Inr (), s\<lparr>sb_conn := Some conn\<rparr>))"

definition sendAckFrame :: "string \<Rightarrow> subscriber \<Rightarrow> (feed_err + unit) \<times> subscriber" where
  "sendAckFrame transferID s =
     (case sb_conn s of
        None \<Rightarrow> (Inl ErrNotConnected, s)
      | Some conn \<Rightarrow>
          let ackEnv = \<lparr>env_Version = Version, env_MsgType = MsgTypeChunkAck, env_SessionID = sb_sessionID s,
                        env_Nonce = zero_nonce, env_Payload = bytes_of transferID\<rparr>
          in case Encode framePool_New conn ackEnv of
               (Inl e, conn) \<Rightarrow> (Inl (ErrProto e), s\<lparr>sb_conn := Some conn\<rparr>)
             | (Inr _, conn) \<Rightarrow> (Inr (), s\<lparr>sb_conn := Some conn\<rparr>))"

section \<open>Received files\<close>

text \<open>
  The file system: contents by path, which paths can be created (a directory cannot), and
  whether writes fail. A file handle is a path and an offset.
\<close>

record fsys =
  fl_files :: "(string \<times> bytes) list"
  fl_can :: "string \<Rightarrow> bool"
  fl_full :: bool

definition fs_create :: "string \<Rightarrow> fsys \<Rightarrow> fsys option" where
  "fs_create path fs =
     (if path = ''.'' \<or> \<not> fl_can fs path then None
      else Some (fs\<lparr>fl_files := AList.update path [] (fl_files fs)\<rparr>))"

definition write_at :: "bytes \<Rightarrow> nat \<Rightarrow> bytes \<Rightarrow> bytes" where
  "write_at content off chunk =
     take off content @ replicate (off - length content) 0 @ chunk @ drop (off + length chunk) content"

text \<open>\<open>file.Write\<close> at the offset of the handle: the number of bytes written.\<close>

definition fs_write :: "string \<Rightarrow> nat \<Rightarrow> bytes \<Rightarrow> fsys \<Rightarrow> nat \<times> fsys" where
  "fs_write path off chunk fs =
     (if fl_full fs then (0, fs)
      else (length chunk,
            fs\<lparr>fl_files := AList.update path
                 (write_at (payload_of (map_of (fl_files fs) path)) off chunk) (fl_files fs)\<rparr>))"

record activeFile =
  af_path :: string
  af_off :: nat
  af_filename :: string
  af_size :: int
  af_received :: int
  af_chunkCount :: nat
  af_header :: file_header

text \<open>What is reported on the standard error stream.\<close>

datatype notice = NoteIncoming string string | NoteMismatch string | NoteVerified string int | NoteSaved string int

text \<open>
  \<open>ss_writer\<close>, \<open>ss_callback\<close>: whether the arguments of \<open>SubscribeStream\<close> are non-nil; \<open>ss_out\<close>, \<open>ss_called\<close>:
  what was given to them.
\<close>

record sstream =
  ss_files :: "(string \<times> activeFile) list"
  ss_fs :: fsys
  ss_writer :: bool
  ss_callback :: bool
  ss_out :: "bytes list"
  ss_called :: "bytes list"
  ss_notices :: "notice list"

definition emit :: "bytes \<Rightarrow> sstream \<Rightarrow> sstream" where
  "emit text st =
     st\<lparr>ss_out := (if ss_writer st then ss_out st @ [text] else ss_out st),
        ss_called := (if ss_callback st then ss_called st @ [text] else ss_called st)\<rparr>"

definition clean_name :: "string \<Rightarrow> string" where
  "clean_name filename =
     (let cleanName = Base filename in if cleanName = ''.'' \<or> cleanName = ''/'' then ''received_file'' else cleanName)"

definition out_path :: "string \<Rightarrow> string" where
  "out_path filename = Join [''./downloads'', clean_name filename]"

definition file_start :: "bytes \<Rightarrow> sstream \<Rightarrow> sstream" where
  "file_start data st =
     (case Unmarshal_FileHeader data of
        None \<Rightarrow> st
      | Some header \<Rightarrow>
          if fh_TransferID header = '''' then st
          else let cleanName = clean_name (fh_Filename header); outPath = out_path (fh_Filename header) in
          case fs_create outPath (ss_fs st) of
            None \<Rightarrow> st
          | Some fs \<Rightarrow>
              st\<lparr>ss_fs := fs,
                 ss_files := AList.update (fh_TransferID header)
                   \<lparr>af_path = outPath, af_off = 0, af_filename = cleanName, af_size = fh_FileSize header,
                    af_received = 0, af_chunkCount = 0, af_header = header\<rparr> (ss_files st),
                 ss_notices := ss_notices st @ [NoteIncoming cleanName outPath]\<rparr>)"

definition file_chunk :: "bytes \<Rightarrow> subscriber \<times> sstream \<Rightarrow> subscriber \<times> sstream" where
  "file_chunk data = (\<lambda>(s, st).
     if length data \<le> 16 then (s, st)
     else
       let transferID = string_of (take 16 data); chunk = drop 16 data in
       case map_of (ss_files st) transferID of
         None \<Rightarrow> (s, st)
       | Some af \<Rightarrow>
           (case fs_write (af_path af) (af_off af) chunk (ss_fs st) of
              (n, fs) \<Rightarrow>
                let af = af\<lparr>af_off := af_off af + n, af_received := af_received af + int n,
                            af_chunkCount := af_chunkCount af + 1\<rparr>;
                    st = st\<lparr>ss_fs := fs, ss_files := AList.update transferID af (ss_files st)\<rparr>
                in if af_chunkCount af mod 16 = 0 then (snd (sendAckFrame transferID s), st) else (s, st)))"

text \<open>The verification of a complete file: what is reported.\<close>

definition verify_file :: "activeFile \<Rightarrow> fsys \<Rightarrow> notice list" where
  "verify_file af fs =
     (if fh_SHA256 (af_header af) \<noteq> '''' then
        (case map_of (fl_files fs) (Join [''./downloads'', af_filename af]) of
           None \<Rightarrow> []
         | Some content \<Rightarrow>
             if hex_encode (sha256 content) \<noteq> fh_SHA256 (af_header af) then [NoteMismatch (af_filename af)]
             else [NoteVerified (af_filename af) (af_received af)])
      else [NoteSaved (af_filename af) (af_received af)])"

definition file_end :: "bytes \<Rightarrow> subscriber \<times> sstream \<Rightarrow> subscriber \<times> sstream" where
  "file_end data = (\<lambda>(s, st).
     if length data < 16 then (s, st)
     else
       let transferID = string_of (take 16 data) in
       case map_of (ss_files st) transferID of
         None \<Rightarrow> (s, st)
       | Some af \<Rightarrow>
           (snd (sendAckFrame transferID s),
            st\<lparr>ss_notices := ss_notices st @ verify_file af (ss_fs st),
               ss_files := AList.delete transferID (ss_files st)\<rparr>))"

section \<open>The stream\<close>

text \<open>The switch on the tag of a decrypted payload.\<close>

definition deliver :: "bytes \<Rightarrow> subscriber \<times> sstream \<Rightarrow> subscriber \<times> sstream" where
  "deliver plaintext = (\<lambda>(s, st).
     case plaintext of
       [] \<Rightarrow> (s, st)
     | tag # data \<Rightarrow>
         if tag = TagText then (s, emit (sanitizeTextOutput data) st)
         else if tag = TagFileStart then (s, file_start data st)
         else if tag = TagFileChunk then file_chunk data (s, st)
         else if tag = TagFileEnd then file_end data (s, st)
         else (s, emit plaintext st))"

text \<open>What an iteration ends in: the next iteration, or a return.\<close>

datatype flow = Next | Return "feed_err + unit"

definition frame_aad :: "envelope \<Rightarrow> bytes option" where
  "frame_aad env = SerializeHeader (replicate HeaderSize 0) (env_Version env) (env_MsgType env)
     (env_SessionID env) (env_Nonce env) (of_nat (length (env_Payload env)))"

definition on_rekey :: "envelope \<Rightarrow> subscriber \<Rightarrow> flow \<times> subscriber" where
  "on_rekey env s =
     (if length (env_Payload env) < 8 then (Next, s)
      else case sb_cipher s of
             None \<Rightarrow> (Next, s)
           | Some ciph \<Rightarrow>
               (case Decrypt ciph (drop 8 (env_Payload env)) (env_Nonce env) (payload_of (frame_aad env)) of
                  Inl e \<Rightarrow> (Return (Inl (ErrCrypto e)), s)
                | Inr salt \<Rightarrow>
                    (case GetKey ciph of
                       None \<Rightarrow> (Next, s)
                     | Some currKey \<Rightarrow>
                         (case RatchetKey currKey salt of
                            Inl e \<Rightarrow> (Next, s)
                          | Inr nextKey \<Rightarrow>
                              let ciph = (case UpdateKey ciph nextKey of Inl _ \<Rightarrow> ciph | Inr c \<Rightarrow> c);
                                  (sasHex, sasEmoji) = CalculateSAS nextKey
                              in (Next, s\<lparr>sb_cipher := Some ciph, sb_sasHex := sasHex, sb_sasEmoji := sasEmoji\<rparr>)))))"

definition on_data :: "envelope \<Rightarrow> subscriber \<times> sstream \<Rightarrow> flow \<times> subscriber \<times> sstream" where
  "on_data env = (\<lambda>(s, st).
     if length (env_Payload env) < 8 then (Next, s, st)
     else
       let seqNum = Uint64 (go_slice (env_Payload env) 0 8) in
       case sb_cipher s of
         None \<Rightarrow> (Next, s, st)
       | Some ciph \<Rightarrow>
           (case Decrypt ciph (drop 8 (env_Payload env)) (env_Nonce env) (payload_of (frame_aad env)) of
              Inl e \<Rightarrow> (Return (Inl (ErrCrypto e)), s, st)
            | Inr plaintext \<Rightarrow>
                let plaintext = (case UnpadPayload plaintext of Inl _ \<Rightarrow> plaintext | Inr u \<Rightarrow> u) in
                if seqNum \<le> sb_lastSeqNum s then (Next, s, st)
                else
                  let s = s\<lparr>sb_lastSeqNum := seqNum, sb_ringBuffer := Push seqNum plaintext (sb_ringBuffer s)\<rparr>
                  in (Next, deliver plaintext (s, st))))"

text \<open>The part of an iteration after a frame was read.\<close>

definition process_frame :: "envelope \<Rightarrow> subscriber \<times> sstream \<Rightarrow> flow \<times> subscriber \<times> sstream" where
  "process_frame env = (\<lambda>(s, st).
     if env_MsgType env = MsgTypeClose then (Return (Inr ()), s, st)
     else if env_MsgType env = MsgTypeHeartbeat then (Next, s, st)
     else if env_MsgType env = MsgTypeRekey then (case on_rekey env s of (f, s) \<Rightarrow> (f, s, st))
     else if env_MsgType env \<noteq> MsgTypeDataStream then (Next, s, st)
     else on_data env (s, st))"

section \<open>Reconnecting\<close>

definition isClosed :: "subscriber \<Rightarrow> bool" where
  "isClosed s = sb_closed s"

text \<open>What the environment decides in an attempt: the context ends while waiting, the network, the random draws.\<close>

record attempt =
  at_done :: bool
  at_net :: net_env
  at_rnd :: pake_rnd

text \<open>One attempt: \<open>None\<close>, go on with the next; \<open>Some b\<close>, the loop returns \<open>b\<close>.\<close>

definition reconnect_once :: "prims \<Rightarrow> attempt \<Rightarrow> time \<times> subscriber \<Rightarrow> bool option \<times> time \<times> subscriber" where
  "reconnect_once P a = (\<lambda>(backoff, s).
     if at_done a then (Some False, backoff, s)
     else
       let backoff = (if backoff < 5 * 1000000000 then backoff * 2 else backoff) in
       case sb_passphrase s of
         None \<Rightarrow> (Some False, backoff, s)
       | Some pass \<Rightarrow>
           (case NewPAKESubscriber P (at_rnd a) pass of
              Inl e \<Rightarrow> (None, backoff, s)
            | Inr pakePeer \<Rightarrow>
                let s = s\<lparr>sb_pakePeer := Some pakePeer\<rparr> in
                case Subscriber_Connect P (at_net a) (at_rnd a) s of
                  (Inl e, s) \<Rightarrow> (None, backoff, s)
                | (Inr _, s) \<Rightarrow>
                    (case Subscriber_CompleteHandshake P s of
                       (Inl e, s) \<Rightarrow> (None, backoff, s\<lparr>sb_conn := None\<rparr>)
                     | (Inr _, s) \<Rightarrow> (Some True, backoff, snd (SendSyncRequest s)))))"

function reconnectLoop :: "prims \<Rightarrow> (nat \<Rightarrow> attempt) \<Rightarrow> nat \<Rightarrow> time \<times> subscriber \<Rightarrow> bool \<times> time \<times> subscriber" where
  "reconnectLoop P as retries bs =
     (if 10 \<le> retries then (False, bs)
      else case reconnect_once P (as retries) bs of
             (Some b, bs) \<Rightarrow> (b, bs)
           | (None, bs) \<Rightarrow> reconnectLoop P as (Suc retries) bs)"
  by pat_completeness auto
termination
  by (relation "measure (\<lambda>(_, _, retries, _). 10 - retries)") auto

declare reconnectLoop.simps [simp del]

definition Subscriber_Close :: "subscriber \<Rightarrow> subscriber" where
  "Subscriber_Close s =
     (if sb_closed s then s
      else s\<lparr>sb_closed := True, sb_conn := None, sb_cipher := None, sb_pakePeer := None, sb_passphrase := None,
             sb_ringBuffer := Wipe (sb_ringBuffer s)\<rparr>)"

definition BufferContents :: "subscriber \<Rightarrow> subscriber \<times> bytes list" where
  "BufferContents s =
     (case GetAll (sb_ringBuffer s) of (rb, bs) \<Rightarrow> (s\<lparr>sb_ringBuffer := rb\<rparr>, map gs_bytes bs))"

section \<open>The loop\<close>

text \<open>
  What the environment decides in an iteration: \<open>Close\<close> was called before it, the context is done
  at the top or after a failed read, and the attempts of a reconnection.
\<close>

record iteration =
  it_close :: bool
  it_done :: bool
  it_done_read :: bool
  it_attempts :: "nat \<Rightarrow> attempt"

record sloop =
  sl_sub :: subscriber
  sl_stream :: sstream
  sl_backoff :: time

text \<open>Reading a frame and handling it, on the connection at hand.\<close>

definition read_and_process :: "prims \<Rightarrow> iteration \<Rightarrow> sloop \<Rightarrow> flow \<times> sloop" where
  "read_and_process P it l =
     (case sb_conn (sl_sub l) of
        None \<Rightarrow> (Return (Inl PanicNil), l)
      | Some conn \<Rightarrow>
          (case Decode conn of
             (Inl e, conn) \<Rightarrow>
               let s = (sl_sub l)\<lparr>sb_conn := Some conn\<rparr>; l = l\<lparr>sl_sub := s\<rparr> in
               if it_done_read it then (Return (Inl ErrCtxDone), l)
               else if isClosed s then (Return (Inr ()), l)
               else (case reconnectLoop P (it_attempts it) 0 (sl_backoff l, s) of
                       (ok, backoff, s) \<Rightarrow>
                         let l = l\<lparr>sl_sub := s, sl_backoff := backoff\<rparr> in
                         if \<not> ok then (Return (Inl (ErrProto e)), l) else (Next, l))
           | (Inr env, conn) \<Rightarrow>
               (case process_frame env ((sl_sub l)\<lparr>sb_conn := Some conn\<rparr>, sl_stream l) of
                  (f, s, st) \<Rightarrow> (f, \<lparr>sl_sub = s, sl_stream = st, sl_backoff = 100 * 1000000\<rparr>))))"

definition SubscribeStream_step :: "prims \<Rightarrow> iteration \<Rightarrow> sloop \<Rightarrow> flow \<times> sloop" where
  "SubscribeStream_step P it l =
     (let l = (if it_close it then l\<lparr>sl_sub := Subscriber_Close (sl_sub l)\<rparr> else l) in
      if it_done it then (Return (Inl ErrCtxDone), l)
      else if sb_conn (sl_sub l) = None then
        (if isClosed (sl_sub l) then (Return (Inr ()), l)
         else case reconnectLoop P (it_attempts it) 0 (sl_backoff l, sl_sub l) of
                (ok, backoff, s) \<Rightarrow>
                  let l = l\<lparr>sl_sub := s, sl_backoff := backoff\<rparr> in
                  if \<not> ok then (Return (Inl ErrReconnect), l) else read_and_process P it l)
      else read_and_process P it l)"

fun SubscribeStream :: "prims \<Rightarrow> iteration list \<Rightarrow> sloop \<Rightarrow> flow \<times> sloop" where
  "SubscribeStream P [] l = (Next, l)"
| "SubscribeStream P (it # its) l =
     (case SubscribeStream_step P it l of
        (Next, l) \<Rightarrow> SubscribeStream P its l
      | (Return r, l) \<Rightarrow> (Return r, l))"

end
