(* ===== verification/Feed_Frames.thy ===== *)
theory Feed_Frames
  imports Subscriber
begin

text \<open>
  The encrypted frames of the stream: what the publisher builds in closed form, how the
  subscriber takes them, and what each operation of the publisher puts on the wire.
\<close>

section \<open>Sealed frames\<close>

definition frame_nonce :: "bytes \<Rightarrow> u64 \<Rightarrow> bytes" where
  "frame_nonce sid n = take 4 sid @ PutUint64 n"

definition sealed :: "bytes \<Rightarrow> byte \<Rightarrow> bytes \<Rightarrow> u64 \<Rightarrow> bytes \<Rightarrow> envelope" where
  "sealed k ty sid n pt =
     \<lparr>env_Version = Version, env_MsgType = ty, env_SessionID = sid, env_Nonce = frame_nonce sid n,
      env_Payload = PutUint64 n @ gcm_seal k (frame_nonce sid n) pt
        (header_bytes Version ty sid (frame_nonce sid n) (of_nat (24 + length pt)))\<rparr>"

lemma sealed_sel [simp]:
  "env_Version (sealed k ty sid n pt) = Version" "env_MsgType (sealed k ty sid n pt) = ty"
  "env_SessionID (sealed k ty sid n pt) = sid" "env_Nonce (sealed k ty sid n pt) = frame_nonce sid n"
  "length (env_Payload (sealed k ty sid n pt)) = 24 + length pt"
  by (simp_all add: sealed_def gcm.length_seal)

lemma length_frame_nonce [simp]: "length sid = 16 \<Longrightarrow> length (frame_nonce sid n) = 12"
  by (simp add: frame_nonce_def)

lemma frame_nonce_eq:
  assumes "length sid = 16"
  shows "ConstructNonceRFC5116 (go_copy (replicate 4 0) 0 4 (take 4 sid)) n = frame_nonce sid n"
proof -
  have "go_copy (replicate 4 0) 0 4 (take 4 sid) = take 4 sid" using assms by (simp add: go_copy_whole)
  then show ?thesis using assms by (simp add: ConstructNonceRFC5116_eq frame_nonce_def)
qed

lemma header_of:
  assumes "length sid = 16"
  shows "SerializeHeader (replicate HeaderSize 0) v ty sid (frame_nonce sid n) len
     = Some (header_bytes v ty sid (frame_nonce sid n) len)"
  using assms SerializeHeader_eq [of sid "frame_nonce sid n" "replicate HeaderSize 0"]
  by (simp add: SessionIDSize_def NonceSize_def)

lemma frame_payload_copy:
  "length ct = m \<Longrightarrow>
   go_copy (go_copy (replicate (8 + m) 0) 0 8 (PutUint64 n)) 8 (8 + m) ct = PutUint64 n @ (ct :: bytes)"
  by (simp add: go_copy_def Let_def)

text \<open>What \<open>seal_frame\<close> computes with a cipher that holds a key.\<close>

lemma seal_frame_eq:
  assumes "length sid = 16"
  shows "seal_frame (keyed k) ty sid n pt = Inr (sealed k ty sid n pt)"
proof -
  have "length (frame_nonce sid n) = 12" using assms by simp
  then show ?thesis
    using assms
    by (simp add: seal_frame_def frame_nonce_eq [OF assms] header_of [OF assms, simplified] Encrypt_keyed Let_def sealed_def
        frame_payload_copy gcm.length_seal)
qed

lemma frame_aad_sealed:
  assumes "length sid = 16"
  shows "frame_aad (sealed k ty sid n pt)
     = Some (header_bytes Version ty sid (frame_nonce sid n) (of_nat (24 + length pt)))"
  using header_of [OF assms] by (simp add: frame_aad_def)

lemma Decrypt_sealed:
  assumes "length sid = 16"
  shows "Decrypt (keyed k) (drop 8 (env_Payload (sealed k ty sid n pt))) (frame_nonce sid n)
     (payload_of (frame_aad (sealed k ty sid n pt))) = Inr pt"
proof -
  have "drop 8 (env_Payload (sealed k ty sid n pt)) = gcm_seal k (frame_nonce sid n) pt
        (header_bytes Version ty sid (frame_nonce sid n) (of_nat (24 + length pt)))"
    by (simp add: sealed_def)
  then show ?thesis
    using assms by (simp add: frame_aad_sealed payload_of_def Decrypt_seal)
qed

lemma seq_of_sealed: "Uint64 (go_slice (env_Payload (sealed k ty sid n pt)) 0 8) = n"
  by (simp add: sealed_def go_slice_def u64be.get_put)

section \<open>The subscriber takes a frame\<close>

lemma on_data_sealed:
  assumes "length sid = 16" "sb_cipher s = Some (keyed k)" "length m + 4 < 2 ^ 32"
  shows "on_data (sealed k MsgTypeDataStream sid n (PadPayload m DefaultPaddingTargetSize)) (s, st) =
     (if n \<le> sb_lastSeqNum s then (Next, s, st)
      else (Next, deliver m (s\<lparr>sb_lastSeqNum := n, sb_ringBuffer := Push n m (sb_ringBuffer s)\<rparr>, st)))"
proof -
  have "UnpadPayload (PadPayload m DefaultPaddingTargetSize) = Inr m"
    using assms(3) by (simp add: UnpadPayload_Pad lenPrefixSize_def)
  then show ?thesis
    using assms(1,2) by (simp add: on_data_def seq_of_sealed Decrypt_sealed Let_def)
qed

lemma on_rekey_sealed:
  assumes "length sid = 16" "sb_cipher s = Some (keyed k)" "length k = 32" "RatchetKey k salt = Inr k'"
  shows "on_rekey (sealed k MsgTypeRekey sid n salt) s =
     (Next, s\<lparr>sb_cipher := Some (keyed k'), sb_sasHex := fst (CalculateSAS k'), sb_sasEmoji := snd (CalculateSAS k')\<rparr>)"
  using assms RatchetKey_length [OF assms(4)]
  by (simp add: on_rekey_def Decrypt_sealed GetKey_keyed UpdateKey_eq Let_def split: prod.splits)

lemma msgtypes_distinct [simp]:
  "MsgTypeDataStream \<noteq> MsgTypeClose" "MsgTypeDataStream \<noteq> MsgTypeHeartbeat" "MsgTypeDataStream \<noteq> MsgTypeRekey"
  "MsgTypeRekey \<noteq> MsgTypeClose" "MsgTypeRekey \<noteq> MsgTypeHeartbeat" "MsgTypeRekey \<noteq> MsgTypeDataStream"
  by (simp_all add: msgtype_defs)

lemma process_data:
  assumes "length sid = 16" "sb_cipher s = Some (keyed k)" "length m + 4 < 2 ^ 32"
  shows "process_frame (sealed k MsgTypeDataStream sid n (PadPayload m DefaultPaddingTargetSize)) (s, st) =
     (if n \<le> sb_lastSeqNum s then (Next, s, st)
      else (Next, deliver m (s\<lparr>sb_lastSeqNum := n, sb_ringBuffer := Push n m (sb_ringBuffer s)\<rparr>, st)))"
  using on_data_sealed [OF assms] by (simp add: process_frame_def)

lemma process_rekey:
  assumes "length sid = 16" "sb_cipher s = Some (keyed k)" "length k = 32" "RatchetKey k salt = Inr k'"
  shows "process_frame (sealed k MsgTypeRekey sid n salt) (s, st) =
     (Next, s\<lparr>sb_cipher := Some (keyed k'), sb_sasHex := fst (CalculateSAS k'), sb_sasEmoji := snd (CalculateSAS k')\<rparr>, st)"
  using on_rekey_sealed [OF assms] by (simp add: process_frame_def)

section \<open>The publisher writes a frame\<close>

definition open_conn :: "conn \<Rightarrow> bool" where
  "open_conn c \<longleftrightarrow> \<not> cn_closed c \<and> \<not> cn_wfail c"

lemma sealed_sendable:
  "length sid = 16 \<Longrightarrow> length pt + 24 \<le> 33554432 \<Longrightarrow> sendable (sealed k ty sid n pt)"
  by (simp add: sendable_def wf_env_def SessionIDSize_def NonceSize_def Version_def MinSupportedVersion_def)

lemma Encode_open:
  "sendable e \<Longrightarrow> open_conn c \<Longrightarrow> Encode framePool_New c e = (Inr (), c\<lparr>cn_out := cn_out c @ [frame_bytes e]\<rparr>)"
  by (simp add: sendable_def open_conn_def Encode_eq conn_Write_def)

lemma sendFrame_open:
  "pb_conn p = Some c \<Longrightarrow> open_conn c \<Longrightarrow> sendable e \<Longrightarrow>
   sendFrame e p = (Inr (), p\<lparr>pb_conn := Some (c\<lparr>cn_out := cn_out c @ [frame_bytes e]\<rparr>)\<rparr>)"
  by (simp add: sendFrame_def Encode_open)

end
