(* ===== verification/Feed_Stream.thy ===== *)
theory Feed_Stream
  imports Feed_Frames
begin

text \<open>
  The stream from end to end: what the publisher publishes, the subscriber delivers, through
  any number of key changes.
\<close>

section \<open>The publisher's side\<close>

definition pub_ready :: "bytes \<Rightarrow> publisher \<Rightarrow> bool" where
  "pub_ready k p \<longleftrightarrow> pb_cipher p = Some (keyed k) \<and> length k = 32 \<and> length (pb_sessionID p) = 16
     \<and> (\<exists>c. pb_conn p = Some c \<and> open_conn c)"

definition wire :: "publisher \<Rightarrow> bytes list" where
  "wire p = (case pb_conn p of None \<Rightarrow> [] | Some c \<Rightarrow> cn_out c)"

text \<open>The frames of a stream of payloads: each payload one frame, in between rekey frames and heartbeats.\<close>

inductive stream_frames :: "bytes \<Rightarrow> bytes \<Rightarrow> u64 \<Rightarrow> bytes list \<Rightarrow> envelope list \<Rightarrow> bytes \<Rightarrow> u64 \<Rightarrow> bool" for sid where
  stop: "stream_frames sid k n [] [] k n"
| data: "stream_frames sid k (n + 1) ms fs k' n' \<Longrightarrow>
    stream_frames sid k n (m # ms)
      (sealed k MsgTypeDataStream sid (n + 1) (PadPayload m DefaultPaddingTargetSize) # fs) k' n'"
| rekey: "RatchetKey k salt = Inr k1 \<Longrightarrow> length salt = 12 \<Longrightarrow> stream_frames sid k1 (n + 1) ms fs k' n' \<Longrightarrow>
    stream_frames sid k n ms (sealed k MsgTypeRekey sid (n + 1) salt # fs) k' n'"
| beat: "stream_frames sid k n ms fs k' n' \<Longrightarrow> stream_frames sid k n ms (heartbeat_env sid # fs) k' n'"

lemma stream_frames_append:
  "stream_frames sid k n ms fs k1 n1 \<Longrightarrow> stream_frames sid k1 n1 ms' fs' k2 n2 \<Longrightarrow>
   stream_frames sid k n (ms @ ms') (fs @ fs') k2 n2"
  by (induction rule: stream_frames.induct) (auto intro: stream_frames.intros)

definition payload_ok :: "bytes \<Rightarrow> bool" where
  "payload_ok m \<longleftrightarrow> length m \<le> 33554404"

lemma padded_sendable:
  "payload_ok m \<Longrightarrow> length sid = 16 \<Longrightarrow> sendable (sealed k ty sid n (PadPayload m DefaultPaddingTargetSize))"
  by (intro sealed_sendable)
    (auto simp: payload_ok_def length_PadPayload lenPrefixSize_def DefaultPaddingTargetSize_def)

text \<open>Fields the sending operations leave alone.\<close>

definition same_session :: "publisher \<Rightarrow> publisher \<Rightarrow> bool" where
  "same_session p p' \<longleftrightarrow> pb_sessionID p' = pb_sessionID p \<and> pb_passphrase p' = pb_passphrase p
     \<and> pb_closed p' = pb_closed p \<and> pb_gone p' = pb_gone p \<and> pb_untaggedInput p' = pb_untaggedInput p"

lemma same_session_trans: "same_session p q \<Longrightarrow> same_session q r \<Longrightarrow> same_session p r"
  by (simp add: same_session_def)

lemma publish_sealed_ok:
  assumes "pub_ready k p" "payload_ok m"
  shows "\<exists>p'. publish_sealed m p = (Inr (), p') \<and> pub_ready k p' \<and> same_session p p'
     \<and> wire p' = wire p @ [frame_bytes (sealed k MsgTypeDataStream (pb_sessionID p) (pb_seqCounter p + 1)
          (PadPayload m DefaultPaddingTargetSize))]
     \<and> pb_seqCounter p' = pb_seqCounter p + 1
     \<and> pb_replayBuffer p' = Push (pb_seqCounter p + 1) m (pb_replayBuffer p) \<and> pb_masterKey p' = pb_masterKey p"
proof -
  obtain c where c: "pb_cipher p = Some (keyed k)" "length (pb_sessionID p) = 16" "pb_conn p = Some c" "open_conn c"
    using assms(1) by (auto simp: pub_ready_def)
  have s: "sendable (sealed k MsgTypeDataStream (pb_sessionID p) (pb_seqCounter p + 1) (PadPayload m DefaultPaddingTargetSize))"
    using padded_sendable [OF assms(2) c(2)] .
  show ?thesis
    using assms(1) c(1) sendFrame_open [OF _ c(4) s] c(2-4)
    by (simp add: publish_sealed_def seal_frame_eq Let_def pub_ready_def wire_def same_session_def open_conn_def)
qed

lemma rekey_send_ok:
  assumes "pub_ready k p" "rnd = Some r"
  shows "\<exists>p' salt. rekey_send rnd p = (Inr (Some (k, salt)), p') \<and> pub_ready k p' \<and> same_session p p'
     \<and> length salt = 12 \<and> wire p' = wire p @ [frame_bytes (sealed k MsgTypeRekey (pb_sessionID p) (pb_seqCounter p + 1) salt)]
     \<and> pb_seqCounter p' = pb_seqCounter p + 1 \<and> pb_replayBuffer p' = pb_replayBuffer p"
proof -
  obtain c where c: "pb_cipher p = Some (keyed k)" "length k = 32" "length (pb_sessionID p) = 16" "pb_conn p = Some c" "open_conn c"
    using assms(1) by (auto simp: pub_ready_def)
  obtain salt where g: "GenerateNonce rnd = Inr salt" using assms(2) by (simp add: GenerateNonce_def)
  then have l: "length salt = 12" by (rule GenerateNonce_length)
  have s: "sendable (sealed k MsgTypeRekey (pb_sessionID p) (pb_seqCounter p + 1) salt)"
    using l c(3) by (intro sealed_sendable) auto
  show ?thesis
    using assms(1) c sendFrame_open [OF _ c(5) s] g l
    by (simp add: rekey_send_def seal_frame_eq GetKey_keyed Let_def pub_ready_def wire_def same_session_def open_conn_def)
qed

lemma rekey_commit_ok:
  assumes "pub_ready k p"
  shows "\<exists>p' k'. rekey_commit now k salt p = (Inr (), p') \<and> RatchetKey k salt = Inr k' \<and> pub_ready k' p'
     \<and> pb_masterKey p' = Some k' \<and> pb_sasHex p' = fst (CalculateSAS k') \<and> pb_sasEmoji p' = snd (CalculateSAS k')
     \<and> same_session p p' \<and> wire p' = wire p \<and> pb_seqCounter p' = pb_seqCounter p \<and> pb_replayBuffer p' = pb_replayBuffer p"
proof -
  have "k \<noteq> []" using assms by (auto simp: pub_ready_def)
  then obtain k' where k': "RatchetKey k salt = Inr k'" "length k' = 32" using RatchetKey_ok by blast
  then show ?thesis
    using assms
    by (simp add: rekey_commit_def pub_ready_def UpdateKey_eq wire_def same_session_def split: prod.splits)
qed

lemma count_payload_ready [simp]:
  "pub_ready k (snd (count_payload now m p)) = pub_ready k p"
  "wire (snd (count_payload now m p)) = wire p" "same_session p (snd (count_payload now m p))"
  "pb_seqCounter (snd (count_payload now m p)) = pb_seqCounter p"
  "pb_replayBuffer (snd (count_payload now m p)) = pb_replayBuffer p"
  "pb_sessionID (snd (count_payload now m p)) = pb_sessionID p"
  by (simp_all add: count_payload_def Let_def pub_ready_def wire_def same_session_def)

lemma TriggerRekey_ok:
  assumes "pub_ready k p" "rnd = Some r"
  shows "\<exists>p' k' salt. TriggerRekey now rnd p = (Inr (), p') \<and> RatchetKey k salt = Inr k' \<and> length salt = 12
     \<and> pub_ready k' p' \<and> same_session p p' \<and> pb_seqCounter p' = pb_seqCounter p + 1
     \<and> wire p' = wire p @ [frame_bytes (sealed k MsgTypeRekey (pb_sessionID p) (pb_seqCounter p + 1) salt)]
     \<and> pb_masterKey p' = Some k' \<and> pb_replayBuffer p' = pb_replayBuffer p"
proof -
  obtain p1 salt where p1: "rekey_send rnd p = (Inr (Some (k, salt)), p1)" "pub_ready k p1" "same_session p p1"
    "length salt = 12" "wire p1 = wire p @ [frame_bytes (sealed k MsgTypeRekey (pb_sessionID p) (pb_seqCounter p + 1) salt)]"
    "pb_seqCounter p1 = pb_seqCounter p + 1" "pb_replayBuffer p1 = pb_replayBuffer p"
    using rekey_send_ok [OF assms] by auto
  obtain p2 k' where p2: "rekey_commit now k salt p1 = (Inr (), p2)" "RatchetKey k salt = Inr k'" "pub_ready k' p2"
    "pb_masterKey p2 = Some k'" "same_session p1 p2" "wire p2 = wire p1" "pb_seqCounter p2 = pb_seqCounter p1"
    "pb_replayBuffer p2 = pb_replayBuffer p1"
    using rekey_commit_ok [OF p1(2)] by blast
  then show ?thesis
    using p1 same_session_trans [OF p1(3) p2(5)]
    by (intro exI [of _ p2] exI [of _ k'] exI [of _ salt]) (simp add: TriggerRekey_def)
qed

lemma PublishPayload_ok:
  assumes "pub_ready k p" "payload_ok m"
  shows "\<exists>p' fs k'. PublishPayload now rnd m p = (Inr (), p') \<and> pub_ready k' p' \<and> same_session p p'
     \<and> stream_frames (pb_sessionID p) k (pb_seqCounter p) [m] fs k' (pb_seqCounter p')
     \<and> wire p' = wire p @ map frame_bytes fs \<and> length fs \<le> 2"
proof -
  obtain b p1 where p1: "count_payload now m p = (b, p1)" by fastforce
  then have "p1 = snd (count_payload now m p)" by simp
  then have r1: "pub_ready k p1" "wire p1 = wire p" "same_session p p1" "pb_seqCounter p1 = pb_seqCounter p"
    "pb_sessionID p1 = pb_sessionID p"
    using assms(1) by simp_all
  obtain p2 k' fs where p2: "pub_ready k' p2" "same_session p p2" "wire p2 = wire p @ map frame_bytes fs" "length fs \<le> 1"
    "snd (if b then TriggerRekey now rnd p1 else (Inr (), p1)) = p2"
    "fst (if b then TriggerRekey now rnd p1 else (Inr (), p1)) \<noteq> Inl PanicNil"
    "\<And>fs' k'' n''. stream_frames (pb_sessionID p) k' (pb_seqCounter p2) [m] fs' k'' n'' \<Longrightarrow>
       stream_frames (pb_sessionID p) k (pb_seqCounter p) [m] (fs @ fs') k'' n''"
  proof (cases "b \<and> rnd \<noteq> None")
    case True
    then obtain r where "rnd = Some r" by auto
    from TriggerRekey_ok [OF r1(1) this, of now] obtain p2 k' salt where "TriggerRekey now rnd p1 = (Inr (), p2)"
      "RatchetKey k salt = Inr k'" "length salt = 12" "pub_ready k' p2" "same_session p1 p2"
      "pb_seqCounter p2 = pb_seqCounter p + 1"
      "wire p2 = wire p @ [frame_bytes (sealed k MsgTypeRekey (pb_sessionID p) (pb_seqCounter p + 1) salt)]"
      using r1 by auto
    then show ?thesis
      using that [of k' p2 "[sealed k MsgTypeRekey (pb_sessionID p) (pb_seqCounter p + 1) salt]"] True
        same_session_trans [OF r1(3)] stream_frames.rekey by simp
  next
    case False
    have "TriggerRekey now rnd p1 = (Inl (ErrCrypto ErrRandom), p1)" if "rnd = None"
      using that r1(1) by (simp add: TriggerRekey_def rekey_send_def pub_ready_def GetKey_keyed GenerateNonce_def)
    then show ?thesis using that [of k p1 "[]"] False r1 by auto
  qed
  obtain p3 where p3: "publish_sealed m p2 = (Inr (), p3)" "pub_ready k' p3" "same_session p2 p3"
    "wire p3 = wire p2 @ [frame_bytes (sealed k' MsgTypeDataStream (pb_sessionID p) (pb_seqCounter p2 + 1)
          (PadPayload m DefaultPaddingTargetSize))]" "pb_seqCounter p3 = pb_seqCounter p2 + 1"
    using publish_sealed_ok [OF p2(1) assms(2)] p2(2) by (auto simp: same_session_def)
  have "PublishPayload now rnd m p = (Inr (), p3)"
    using p1 p2(5,6) p3(1)
    by (cases "if b then TriggerRekey now rnd p1 else (Inr (), p1)")
      (auto simp: PublishPayload_def split: sum.splits feed_err.splits)
  moreover have "stream_frames (pb_sessionID p) k (pb_seqCounter p) [m]
      (fs @ [sealed k' MsgTypeDataStream (pb_sessionID p) (pb_seqCounter p2 + 1) (PadPayload m DefaultPaddingTargetSize)])
      k' (pb_seqCounter p3)"
    unfolding p3(5) by (intro p2(7) stream_frames.data stream_frames.stop)
  ultimately show ?thesis
    using p3 p2(3,4) same_session_trans [OF p2(2) p3(3)]
    by (intro exI [of _ p3] exI [of _ k'] exI
        [of _ "fs @ [sealed k' MsgTypeDataStream (pb_sessionID p) (pb_seqCounter p2 + 1) (PadPayload m DefaultPaddingTargetSize)]"]) simp
qed

text \<open>The payloads the stream loop publishes for what it selects.\<close>

fun inputs :: "bool \<Rightarrow> (time \<times> bytes option \<times> pub_select) list \<Rightarrow> bytes list" where
  "inputs u [] = []"
| "inputs u ((now, rnd, sel) # evs) =
     (case sel of SelInput m \<Rightarrow> if m = [] then inputs u evs else tag_payload u m # inputs u evs
      | _ \<Rightarrow> inputs u evs)"

definition running :: "time \<times> bytes option \<times> pub_select \<Rightarrow> bool" where
  "running ev \<longleftrightarrow> (case snd (snd ev) of SelInput m \<Rightarrow> length m < 33554404 | SelTick \<Rightarrow> True | _ \<Rightarrow> False)"

lemma tag_payload_ok: "length m < 33554404 \<Longrightarrow> payload_ok (tag_payload u m)"
  by (simp add: payload_ok_def tag_payload_def)

lemma heartbeat_sendable: "length sid = 16 \<Longrightarrow> sendable (heartbeat_env sid)"
  by (simp add: sendable_def wf_env_def heartbeat_env_def SessionIDSize_def NonceSize_def zero_nonce_def
      Version_def MinSupportedVersion_def)

lemma PublishStream_step_ok:
  assumes "pub_ready k p" "running (now, rnd, sel)"
  shows "\<exists>p' fs k'. PublishStream_step now rnd sel p = (None, p') \<and> pub_ready k' p' \<and> same_session p p'
     \<and> stream_frames (pb_sessionID p) k (pb_seqCounter p) (inputs (pb_untaggedInput p) [(now, rnd, sel)]) fs k' (pb_seqCounter p')
     \<and> wire p' = wire p @ map frame_bytes fs"
proof (cases sel)
  case (SelInput m)
  show ?thesis
  proof (cases "m = []")
    case True
    then show ?thesis
      using SelInput assms(1)
      by (intro exI [of _ p] exI [of _ k] exI [of _ "[]"]) (simp add: PublishStream_step_def same_session_def stream_frames.stop)
  next
    case False
    then show ?thesis
      using PublishPayload_ok [OF assms(1) tag_payload_ok, of m now rnd "pb_untaggedInput p"] SelInput assms(2)
      by (fastforce simp: PublishStream_step_def running_def)
  qed
next
  case SelTick
  obtain c where c: "length (pb_sessionID p) = 16" "pb_conn p = Some c" "open_conn c"
    using assms(1) by (auto simp: pub_ready_def)
  show ?thesis
    using SelTick assms(1) sendFrame_open [OF c(2,3) heartbeat_sendable [OF c(1)]] c
    by (intro exI [of _ "snd (sendFrame (heartbeat_env (pb_sessionID p)) p)"] exI [of _ k]
        exI [of _ "[heartbeat_env (pb_sessionID p)]"])
      (auto simp: PublishStream_step_def same_session_def wire_def pub_ready_def open_conn_def
        intro: stream_frames.intros)
qed (use assms(2) in \<open>auto simp: running_def\<close>)

lemma inputs_Cons: "inputs u (ev # evs) = inputs u [ev] @ inputs u evs"
  by (cases ev) (simp split: pub_select.splits)

lemma PublishStream_ok:
  "pub_ready k p \<Longrightarrow> list_all running evs \<Longrightarrow>
   \<exists>p' fs k'. PublishStream evs p = (None, p') \<and> pub_ready k' p' \<and> same_session p p'
     \<and> stream_frames (pb_sessionID p) k (pb_seqCounter p) (inputs (pb_untaggedInput p) evs) fs k' (pb_seqCounter p')
     \<and> wire p' = wire p @ map frame_bytes fs"
proof (induction evs arbitrary: k p)
  case Nil
  then show ?case
    by (intro exI [of _ p] exI [of _ k] exI [of _ "[]"]) (simp add: same_session_def stream_frames.stop)
next
  case (Cons ev evs)
  obtain now rnd sel where ev: "ev = (now, rnd, sel)" by (cases ev)
  obtain p1 fs1 k1 where p1: "PublishStream_step now rnd sel p = (None, p1)" "pub_ready k1 p1" "same_session p p1"
    "stream_frames (pb_sessionID p) k (pb_seqCounter p) (inputs (pb_untaggedInput p) [(now, rnd, sel)]) fs1 k1 (pb_seqCounter p1)"
    "wire p1 = wire p @ map frame_bytes fs1"
    using PublishStream_step_ok [OF Cons.prems(1), of now rnd sel] Cons.prems(2) ev by auto
  obtain p2 fs2 k2 where p2: "PublishStream evs p1 = (None, p2)" "pub_ready k2 p2" "same_session p1 p2"
    "stream_frames (pb_sessionID p1) k1 (pb_seqCounter p1) (inputs (pb_untaggedInput p1) evs) fs2 k2 (pb_seqCounter p2)"
    "wire p2 = wire p1 @ map frame_bytes fs2"
    using Cons.IH [OF p1(2)] Cons.prems(2) by auto
  have "pb_sessionID p1 = pb_sessionID p" "pb_untaggedInput p1 = pb_untaggedInput p" using p1(3) by (simp_all add: same_session_def)
  then have "stream_frames (pb_sessionID p) k (pb_seqCounter p) (inputs (pb_untaggedInput p) (ev # evs)) (fs1 @ fs2) k2 (pb_seqCounter p2)"
    using stream_frames_append [OF p1(4)] p2(4) inputs_Cons [of _ ev evs] ev by simp
  then show ?case
    using p1 p2 ev same_session_trans [OF p1(3) p2(3)]
    by (intro exI [of _ p2] exI [of _ k2] exI [of _ "fs1 @ fs2"]) simp
qed

section \<open>The subscriber's side\<close>

text \<open>Reading is not disturbed by writing.\<close>

definition reading :: "conn option \<Rightarrow> (bytes \<times> io_err \<times> bool) option" where
  "reading c = map_option (\<lambda>c. (cn_in c, cn_end c, cn_closed c)) c"

lemma Encode_reading: "Encode b c e = (r, c') \<Longrightarrow> reading (Some c') = reading (Some c)"
  by (auto simp: Encode_def Let_def conn_Write_def reading_def split: if_splits option.splits)

lemma sendAckFrame_keeps:
  "sendAckFrame t s = (r, s') \<Longrightarrow> reading (sb_conn s') = reading (sb_conn s) \<and> s' = s\<lparr>sb_conn := sb_conn s'\<rparr>"
  by (auto simp: sendAckFrame_def Let_def dest: Encode_reading split: option.splits prod.splits sum.splits)

lemma deliver_keeps:
  "reading (sb_conn (fst (deliver m (s, st)))) = reading (sb_conn s)
   \<and> fst (deliver m (s, st)) = s\<lparr>sb_conn := sb_conn (fst (deliver m (s, st)))\<rparr>"
proof -
  have a: "reading (sb_conn (snd (sendAckFrame t s))) = reading (sb_conn s)
      \<and> snd (sendAckFrame t s) = s\<lparr>sb_conn := sb_conn (snd (sendAckFrame t s))\<rparr>" for t
    using sendAckFrame_keeps [of t s] by (cases "sendAckFrame t s") simp
  show ?thesis
    using a
    by (cases m) (auto simp: deliver_def file_chunk_def file_end_def Let_def split: option.split prod.split)
qed

lemma deliver_sel [simp]:
  "reading (sb_conn (fst (deliver m (s, st)))) = reading (sb_conn s)"
  "sb_cipher (fst (deliver m (s, st))) = sb_cipher s" "sb_lastSeqNum (fst (deliver m (s, st))) = sb_lastSeqNum s"
  "sb_ringBuffer (fst (deliver m (s, st))) = sb_ringBuffer s"
proof -
  obtain c where "fst (deliver m (s, st)) = s\<lparr>sb_conn := c\<rparr>"
    using conjunct2 [OF deliver_keeps] by (rule that)
  then show "sb_cipher (fst (deliver m (s, st))) = sb_cipher s" "sb_lastSeqNum (fst (deliver m (s, st))) = sb_lastSeqNum s"
    "sb_ringBuffer (fst (deliver m (s, st))) = sb_ringBuffer s" by simp_all
qed (rule conjunct1 [OF deliver_keeps])

text \<open>What a payload does to the stream does not depend on the engine.\<close>

definition delivered :: "bytes \<Rightarrow> sstream \<Rightarrow> sstream" where
  "delivered m st = snd (deliver m (undefined, st))"

lemma deliver_stream: "snd (deliver m (s, st)) = delivered m st"
  by (cases m) (simp_all add: delivered_def deliver_def file_chunk_def file_end_def Let_def split: option.split prod.split)

lemma next_seq: "unat n + 1 < 2 ^ 64 \<Longrightarrow> l \<le> n \<Longrightarrow> l < n + (1 :: u64) \<and> unat (n + 1) = unat n + 1"
proof -
  assume n: "unat n + 1 < 2 ^ 64" and l: "l \<le> n"
  have "unat (n + 1) = (unat n + unat (1 :: u64)) mod 2 ^ LENGTH(64)" by (rule unat_word_ariths(1))
  then have "unat (n + 1) = unat n + 1" using n by simp
  then show ?thesis using l by (simp add: word_less_nat_alt word_le_nat_alt)
qed

text \<open>The subscriber keeps up: it holds the publisher's key and has seen nothing newer than the publisher sent.\<close>

definition sub_ready :: "bytes \<Rightarrow> u64 \<Rightarrow> subscriber \<Rightarrow> bool" where
  "sub_ready k n s \<longleftrightarrow> sb_cipher s = Some (keyed k) \<and> sb_lastSeqNum s \<le> n"

lemma process_data_next:
  assumes "length sid = 16" "sub_ready k n s" "unat n + 1 < 2 ^ 64" "payload_ok m"
  shows "\<exists>s'. process_frame (sealed k MsgTypeDataStream sid (n + 1) (PadPayload m DefaultPaddingTargetSize)) (s, st)
       = (Next, s', delivered m st)
     \<and> sub_ready k (n + 1) s' \<and> reading (sb_conn s') = reading (sb_conn s)"
proof -
  let ?s = "s\<lparr>sb_lastSeqNum := n + 1, sb_ringBuffer := Push (n + 1) m (sb_ringBuffer s)\<rparr>"
  have c: "sb_cipher s = Some (keyed k)" "sb_lastSeqNum s < n + 1"
    using assms(2) next_seq [OF assms(3)] by (auto simp: sub_ready_def)
  then have "process_frame (sealed k MsgTypeDataStream sid (n + 1) (PadPayload m DefaultPaddingTargetSize)) (s, st)
      = (Next, deliver m (?s, st))"
    using process_data [OF assms(1) c(1), of m "n + 1" st] assms(4) by (simp add: payload_ok_def not_le [symmetric])
  then show ?thesis
    using deliver_stream [of m ?s st] c(1)
    by (intro exI [of _ "fst (deliver m (?s, st))"]) (simp add: sub_ready_def prod_eq_iff)
qed

lemma stream_sendable:
  "stream_frames sid k n ms fs k' n' \<Longrightarrow> length sid = 16 \<Longrightarrow> list_all payload_ok ms \<Longrightarrow> list_all sendable fs"
  by (induction rule: stream_frames.induct) (auto simp: padded_sendable heartbeat_sendable intro!: sealed_sendable)

section \<open>The loop\<close>

definition undisturbed :: "iteration \<Rightarrow> bool" where
  "undisturbed it \<longleftrightarrow> \<not> it_close it \<and> \<not> it_done it"

lemma SubscribeStream_step_frame:
  assumes "undisturbed it" "reading (sb_conn (sl_sub l)) = Some (frame_bytes e @ r, t, False)" "sendable e"
  shows "\<exists>c. reading (Some c) = Some (r, t, False) \<and> SubscribeStream_step P it l =
     (case process_frame e ((sl_sub l)\<lparr>sb_conn := Some c\<rparr>, sl_stream l) of
        (f, s, st) \<Rightarrow> (f, \<lparr>sl_sub = s, sl_stream = st, sl_backoff = 100 * 1000000\<rparr>))"
proof -
  obtain c where c: "sb_conn (sl_sub l) = Some c" "cn_in c = frame_bytes e @ r" "cn_end c = t" "\<not> cn_closed c"
    using assms(2) by (auto simp: reading_def)
  have "Decode (c\<lparr>cn_in := frame_bytes e @ r\<rparr>) = (Inr e, c\<lparr>cn_in := r\<rparr>)"
    using assms(3) c(4) unfolding Decode_def by (intro DecodeWithMax_frame) (auto simp: sendable_def)
  moreover have "c\<lparr>cn_in := frame_bytes e @ r\<rparr> = c" using c(2) by simp
  ultimately have "Decode c = (Inr e, c\<lparr>cn_in := r\<rparr>)" by simp
  then show ?thesis
    using assms(1) c
    by (intro exI [of _ "c\<lparr>cn_in := r\<rparr>"])
      (simp add: SubscribeStream_step_def read_and_process_def undisturbed_def reading_def)
qed

text \<open>An iteration that reads a frame the subscriber takes without returning.\<close>

lemma SubscribeStream_frame:
  assumes "undisturbed it" "sendable e" "reading (sb_conn (sl_sub l)) = Some (frame_bytes e @ r, t, False)"
    and "\<And>c. \<exists>s'. process_frame e ((sl_sub l)\<lparr>sb_conn := Some c\<rparr>, sl_stream l) = (Next, s', st')
           \<and> reading (sb_conn s') = reading (Some c) \<and> Q s'"
  shows "\<exists>l'. SubscribeStream P (it # its) l = SubscribeStream P its l' \<and> Q (sl_sub l') \<and> sl_stream l' = st'
     \<and> reading (sb_conn (sl_sub l')) = Some (r, t, False)"
proof -
  obtain c where c: "reading (Some c) = Some (r, t, False)"
    "SubscribeStream_step P it l = (case process_frame e ((sl_sub l)\<lparr>sb_conn := Some c\<rparr>, sl_stream l) of
        (f, s, st) \<Rightarrow> (f, \<lparr>sl_sub = s, sl_stream = st, sl_backoff = 100 * 1000000\<rparr>))"
    using SubscribeStream_step_frame [OF assms(1,3,2)] by blast
  obtain s' where "process_frame e ((sl_sub l)\<lparr>sb_conn := Some c\<rparr>, sl_stream l) = (Next, s', st')"
    "reading (sb_conn s') = reading (Some c)" "Q s'" using assms(4) by blast
  then show ?thesis
    using c by (intro exI [of _ "\<lparr>sl_sub = s', sl_stream = st', sl_backoff = 100 * 1000000\<rparr>"]) simp
qed

lemma sub_ready_conn [simp]: "sub_ready k n (s\<lparr>sb_conn := c\<rparr>) = sub_ready k n s"
  by (simp add: sub_ready_def)

lemma process_rekey_next:
  assumes "length sid = 16" "length k = 32" "RatchetKey k salt = Inr k'" "unat n + 1 < 2 ^ 64" "sub_ready k n s"
  shows "\<exists>s'. process_frame (sealed k MsgTypeRekey sid (n + 1) salt) (s, st) = (Next, s', st)
     \<and> reading (sb_conn s') = reading (sb_conn s) \<and> sub_ready k' (n + 1) s'"
  using process_rekey [OF assms(1) _ assms(2,3), of s "n + 1" st] assms(5) next_seq [OF assms(4), of "sb_lastSeqNum s"]
  by (auto simp: sub_ready_def)

lemma SubscribeStream_stream:
  "stream_frames sid k n ms fs k' n' \<Longrightarrow> length sid = 16 \<Longrightarrow> length k = 32 \<Longrightarrow> sub_ready k n (sl_sub l) \<Longrightarrow>
   unat n + length fs < 2 ^ 64 \<Longrightarrow> list_all payload_ok ms \<Longrightarrow> list_all undisturbed its \<Longrightarrow> length its = length fs \<Longrightarrow>
   reading (sb_conn (sl_sub l)) = Some (concat (map frame_bytes fs) @ r, t, False) \<Longrightarrow>
   \<exists>l'. SubscribeStream P its l = (Next, l') \<and> sub_ready k' n' (sl_sub l')
     \<and> sl_stream l' = fold delivered ms (sl_stream l) \<and> reading (sb_conn (sl_sub l')) = Some (r, t, False)"
proof (induction arbitrary: l its rule: stream_frames.induct)
  case (stop k n)
  then show ?case by simp
next
  case (data k n ms fs k' n' m)
  let ?e = "sealed k MsgTypeDataStream sid (n + 1) (PadPayload m DefaultPaddingTargetSize)"
  obtain it its' where it: "its = it # its'" "undisturbed it" using data.prems(6,7) by (cases its) auto
  have n: "unat n + 1 < 2 ^ 64" "unat (n + 1) = unat n + 1" using data.prems(4) next_seq [of n n] by auto
  have "\<exists>s'. process_frame ?e ((sl_sub l)\<lparr>sb_conn := Some c\<rparr>, sl_stream l) = (Next, s', delivered m (sl_stream l))
      \<and> reading (sb_conn s') = reading (Some c) \<and> sub_ready k (n + 1) s'" for c
    using process_data_next [OF data.prems(1) _ n(1), of k "(sl_sub l)\<lparr>sb_conn := Some c\<rparr>" m "sl_stream l"] data.prems(3,5)
    by auto
  moreover have "sendable ?e" using padded_sendable data.prems(1,5) by simp
  moreover have "reading (sb_conn (sl_sub l)) = Some (frame_bytes ?e @ (concat (map frame_bytes fs) @ r), t, False)"
    using data.prems(8) by simp
  ultimately obtain l1 where "SubscribeStream P (it # its') l = SubscribeStream P its' l1" "sub_ready k (n + 1) (sl_sub l1)"
      "sl_stream l1 = delivered m (sl_stream l)" "reading (sb_conn (sl_sub l1)) = Some (concat (map frame_bytes fs) @ r, t, False)"
    using SubscribeStream_frame [OF it(2), of ?e l "concat (map frame_bytes fs) @ r" t "delivered m (sl_stream l)" "sub_ready k (n + 1)" P its']
    by blast
  then show ?case using data.IH [of l1 its'] data.prems(1,2,4-7) it n by simp
next
  case (rekey k salt k1 n ms fs k' n')
  obtain it its' where it: "its = it # its'" "undisturbed it" using rekey.prems(6,7) by (cases its) auto
  have n: "unat n + 1 < 2 ^ 64" "unat (n + 1) = unat n + 1" using rekey.prems(4) next_seq [of n n] by auto
  let ?e = "sealed k MsgTypeRekey sid (n + 1) salt"
  have "\<exists>s'. process_frame ?e ((sl_sub l)\<lparr>sb_conn := Some c\<rparr>, sl_stream l) = (Next, s', sl_stream l)
      \<and> reading (sb_conn s') = reading (Some c) \<and> sub_ready k1 (n + 1) s'" for c
    using process_rekey_next [OF rekey.prems(1,2) rekey.hyps(1) n(1), of "(sl_sub l)\<lparr>sb_conn := Some c\<rparr>"] rekey.prems(3) by simp
  moreover have "sendable ?e" using rekey.prems(1) rekey.hyps(2) by (intro sealed_sendable) auto
  moreover have "reading (sb_conn (sl_sub l)) = Some (frame_bytes ?e @ (concat (map frame_bytes fs) @ r), t, False)"
    using rekey.prems(8) by simp
  ultimately obtain l1 where "SubscribeStream P (it # its') l = SubscribeStream P its' l1" "sub_ready k1 (n + 1) (sl_sub l1)"
      "sl_stream l1 = sl_stream l" "reading (sb_conn (sl_sub l1)) = Some (concat (map frame_bytes fs) @ r, t, False)"
    using SubscribeStream_frame [OF it(2), of ?e l "concat (map frame_bytes fs) @ r" t "sl_stream l" "sub_ready k1 (n + 1)" P its']
    by blast
  then show ?case using rekey.IH [of l1 its'] rekey.prems(1,2,4-7) it n RatchetKey_length [OF rekey.hyps(1)] by simp
next
  case (beat k n ms fs k' n')
  obtain it its' where it: "its = it # its'" "undisturbed it" using beat.prems(6,7) by (cases its) auto
  have "process_frame (heartbeat_env sid) (x, y) = (Next, x, y)" for x y
    by (simp add: process_frame_def heartbeat_env_def msgtype_defs)
  then have "\<exists>s'. process_frame (heartbeat_env sid) ((sl_sub l)\<lparr>sb_conn := Some c\<rparr>, sl_stream l) = (Next, s', sl_stream l)
      \<and> reading (sb_conn s') = reading (Some c) \<and> sub_ready k n s'" for c
    using beat.prems(3) by simp
  moreover have "reading (sb_conn (sl_sub l)) = Some (frame_bytes (heartbeat_env sid) @ (concat (map frame_bytes fs) @ r), t, False)"
    using beat.prems(8) by simp
  ultimately obtain l1 where "SubscribeStream P (it # its') l = SubscribeStream P its' l1" "sub_ready k n (sl_sub l1)"
      "sl_stream l1 = sl_stream l" "reading (sb_conn (sl_sub l1)) = Some (concat (map frame_bytes fs) @ r, t, False)"
    using SubscribeStream_frame [OF it(2) heartbeat_sendable [OF beat.prems(1)], of l "concat (map frame_bytes fs) @ r" t "sl_stream l" "sub_ready k n" P its']
    by blast
  then show ?case using beat.IH [of l1 its'] beat.prems(1,2,4-7) it by simp
qed

end
