(* ===== verification/Feed_Handshake.thy ===== *)
theory Feed_Handshake
  imports Feed_Stream
begin

text \<open>
  The handshake of the two engines: from the constructors through the exchange of messages to
  the same cipher on both sides. The bytes that one engine writes are what the other one reads.
\<close>

section \<open>Reading and writing frames\<close>

lemma Decode_frame:
  assumes "cn_in c = frame_bytes e @ r" "\<not> cn_closed c" "sendable e"
  shows "Decode c = (Inr e, c\<lparr>cn_in := r\<rparr>)"
proof -
  have "Decode (c\<lparr>cn_in := frame_bytes e @ r\<rparr>) = (Inr e, c\<lparr>cn_in := r\<rparr>)"
    using assms(2,3) unfolding Decode_def by (intro DecodeWithMax_frame) (auto simp: sendable_def)
  moreover have "c\<lparr>cn_in := frame_bytes e @ r\<rparr> = c" using assms(1) by simp
  ultimately show ?thesis by simp
qed

lemma open_conn_in [simp]: "open_conn (c\<lparr>cn_in := i\<rparr>) = open_conn c" "open_conn (c\<lparr>cn_out := w\<rparr>) = open_conn c"
  by (simp_all add: open_conn_def)

definition plain_env :: "byte \<Rightarrow> bytes \<Rightarrow> bytes \<Rightarrow> envelope" where
  "plain_env ty sid payload =
     \<lparr>env_Version = Version, env_MsgType = ty, env_SessionID = sid, env_Nonce = zero_nonce, env_Payload = payload\<rparr>"

lemma plain_env_sel [simp]:
  "env_Version (plain_env ty sid b) = Version" "env_MsgType (plain_env ty sid b) = ty"
  "env_Payload (plain_env ty sid b) = b" "env_SessionID (plain_env ty sid b) = sid"
  by (simp_all add: plain_env_def)

lemma plain_sendable: "length sid = 16 \<Longrightarrow> length b \<le> 33554432 \<Longrightarrow> sendable (plain_env ty sid b)"
  by (simp add: plain_env_def sendable_def wf_env_def SessionIDSize_def NonceSize_def zero_nonce_def
      Version_def MinSupportedVersion_def)

text \<open>The loop that waits for the confirmation passes over up to seven other frames.\<close>

lemma confirm_loop_skips:
  "list_all (\<lambda>e. sendable e \<and> env_MsgType e \<noteq> MsgTypeKeyConfirm) noise \<Longrightarrow> length noise < n \<Longrightarrow>
   cn_in c = concat (map frame_bytes noise) @ frame_bytes e @ r \<Longrightarrow> \<not> cn_closed c \<Longrightarrow> sendable e \<Longrightarrow>
   env_MsgType e = MsgTypeKeyConfirm \<Longrightarrow> VerifyPeerConfirm peer (env_Payload e) = Inr () \<Longrightarrow>
   confirm_loop n peer c = (Inr (), c\<lparr>cn_in := r\<rparr>)"
proof (induction noise arbitrary: n c)
  case Nil
  then show ?case by (cases n) (simp_all add: Decode_frame)
next
  case (Cons x noise)
  obtain n' where n: "n = Suc n'" using Cons.prems(2) by (cases n) auto
  have "Decode c = (Inr x, c\<lparr>cn_in := concat (map frame_bytes noise) @ frame_bytes e @ r\<rparr>)"
    using Cons.prems by (intro Decode_frame) auto
  then show ?case using Cons.IH [of n' "c\<lparr>cn_in := concat (map frame_bytes noise) @ frame_bytes e @ r\<rparr>"] Cons.prems n by simp
qed

section \<open>Wrapping the master key\<close>

lemma wrap_unwrap:
  assumes "length k = 32" "length mk = 32" "rnd = Some x"
  shows "\<exists>w. WrapSessionKey rnd k mk = Inr w \<and> length w = 60 \<and> UnwrapSessionKey k w = Inr mk"
proof -
  obtain n where n: "GenerateNonce rnd = Inr n" using assms(3) by (simp add: GenerateNonce_def)
  then have "length n = 12" by (rule GenerateNonce_length)
  then show ?thesis
    using n assms UnwrapSessionKey_eq [of n "gcm_seal k n mk wrapAAD" k "[]"]
    by (simp add: WrapSessionKey_eq gcm.length_seal gcm.unseal_seal)
qed

section \<open>The two sides\<close>

text \<open>The publisher answers a subscriber's message and waits for the confirmation.\<close>

lemma answer_peer_ok:
  assumes "pk_sharedKey peer = Some k" "length k = 32" "pk_pubBytes peer = Some w" "length mk = 32" "hr_nonce rnd = Some x"
  shows "\<exists>wr. answer_peer rnd sid mk peer = Inr (plain_env MsgTypePAKEStep2 sid (w @ wr @ confirm_mac k (pk_role peer)))
     \<and> length wr = 60 \<and> UnwrapSessionKey k wr = Inr mk"
proof -
  have k: "SessionKey peer = Inr k" using assms(1) by (simp add: SessionKey_def go_copy_whole)
  obtain wr where "WrapSessionKey (hr_nonce rnd) k mk = Inr wr" "length wr = 60" "UnwrapSessionKey k wr = Inr mk"
    using wrap_unwrap [OF assms(2,4,5)] by blast
  then show ?thesis
    using k assms(1,3) by (simp add: answer_peer_def ConfirmTag_def Bytes_def payload_of_def step2_env_def plain_env_def)
qed

lemma length_confirm_mac [simp]: "length (confirm_mac k r) = 32"
  by (simp add: confirm_mac_def)

lemma Publisher_handshake_ok:
  assumes p: "pb_conn p = Some c" "open_conn c" "length (pb_sessionID p) = 16" "pb_pakePeer p = Some peer"
      "pb_masterKey p = Some mk" "length mk = 32"
    and up: "Update P (hr_enc rnd) (hr_pad rnd) peer w1 = (Inr (), peer')" "length w1 = 1280"
    and peer': "pk_sharedKey peer' = Some k" "length k = 32" "pk_pubBytes peer' = Some w2" "length w2 = 1280" "pk_role peer' = 1"
    and rnd: "hr_nonce rnd = Some x"
    and sid: "length sid = 16" and noise: "list_all (\<lambda>e. sendable e \<and> env_MsgType e \<noteq> MsgTypeKeyConfirm) noise" "length noise < 8"
  shows "\<exists>wr. length wr = 60 \<and> UnwrapSessionKey k wr = Inr mk \<and>
     Publisher_CompleteHandshake P rnd (p\<lparr>pb_conn := Some (c\<lparr>cn_in :=
         frame_bytes (plain_env MsgTypePAKEInitSub sid w1) @ concat (map frame_bytes noise)
           @ frame_bytes (plain_env MsgTypeKeyConfirm sid (confirm_mac k 2)) @ r\<rparr>)\<rparr>)
     = (Inr (), p\<lparr>pb_conn := Some (c\<lparr>cn_in := r, cn_out := cn_out c @
           [frame_bytes (plain_env MsgTypePAKEStep2 (pb_sessionID p) (w2 @ wr @ confirm_mac k 1))]\<rparr>), pb_pakePeer := Some peer'\<rparr>)"
proof -
  let ?rest = "concat (map frame_bytes noise) @ frame_bytes (plain_env MsgTypeKeyConfirm sid (confirm_mac k 2)) @ r"
  obtain wr where wr: "answer_peer rnd (pb_sessionID p) mk peer'
      = Inr (plain_env MsgTypePAKEStep2 (pb_sessionID p) (w2 @ wr @ confirm_mac k 1))" "length wr = 60" "UnwrapSessionKey k wr = Inr mk"
    using answer_peer_ok [OF peer'(1-3) p(6) rnd, of "pb_sessionID p"] peer'(5) by auto
  let ?e = "plain_env MsgTypePAKEStep2 (pb_sessionID p) (w2 @ wr @ confirm_mac k 1)"
  let ?c1 = "c\<lparr>cn_in := ?rest\<rparr>"
  let ?c2 = "c\<lparr>cn_in := ?rest, cn_out := cn_out c @ [frame_bytes ?e]\<rparr>"
  have nc: "\<not> cn_closed c" using p(2) by (simp add: open_conn_def)
  have 1: "Decode (c\<lparr>cn_in := frame_bytes (plain_env MsgTypePAKEInitSub sid w1) @ ?rest\<rparr>)
      = (Inr (plain_env MsgTypePAKEInitSub sid w1), ?c1)"
    using nc sid up(2) by (subst Decode_frame [where r = ?rest]) (auto intro: plain_sendable)
  have 2: "Encode framePool_New ?c1 ?e = (Inr (), ?c2)"
    using p(2,3) peer'(4) wr(2) Encode_open [of ?e ?c1] by (simp add: plain_sendable)
  have 3: "confirm_loop 8 (Some peer') ?c2 = (Inr (), ?c2\<lparr>cn_in := r\<rparr>)"
    using noise nc sid peer'
    by (intro confirm_loop_skips [where e = "plain_env MsgTypeKeyConfirm sid (confirm_mac k 2)"])
      (auto simp: plain_sendable VerifyPeerConfirm_def simp flip: length_greater_0_conv)
  show ?thesis
    using 1 2 3 p(4,5) up(1) wr
    by (intro exI [of _ wr])
      (simp add: Publisher_CompleteHandshake_def Let_def payload_of_def Version_def MinSupportedVersion_def msgtype_defs)
qed

text \<open>The subscriber takes the answer.\<close>

lemma confirmed_peer:
  assumes "pk_sharedKey peer = Some k" "pk_role peer = 2"
  shows "VerifyPeerConfirm (Some peer) (confirm_mac k 1) = Inr ()" "ConfirmTag (Some peer) = Inr (confirm_mac k 2)"
    "SessionKey peer = Inr k"
  using assms by (simp_all add: VerifyPeerConfirm_def ConfirmTag_def SessionKey_def go_copy_whole flip: length_greater_0_conv)

lemma Subscriber_handshake_ok:
  assumes s: "sb_conn s = Some c" "open_conn c" "length (sb_sessionID s) = 16" "sb_pakePeer s = Some peer"
    and up: "Update P [] None peer w2 = (Inr (), peer')" "length w2 = 1280"
    and peer': "pk_sharedKey peer' = Some k" "pk_role peer' = 2"
    and wr: "length wr = 60" "UnwrapSessionKey k wr = Inr mk" "length mk = 32" and sid: "length sid = 16"
  shows "Subscriber_CompleteHandshake P (s\<lparr>sb_conn := Some (c\<lparr>cn_in :=
         frame_bytes (plain_env MsgTypePAKEStep2 sid (w2 @ wr @ confirm_mac k 1)) @ r\<rparr>)\<rparr>)
     = (Inr (), s\<lparr>sb_conn := Some (c\<lparr>cn_in := r, cn_out := cn_out c @
            [frame_bytes (plain_env MsgTypeKeyConfirm (sb_sessionID s) (confirm_mac k 2))]\<rparr>),
          sb_pakePeer := Some peer', sb_cipher := Some (keyed mk),
          sb_sasHex := fst (CalculateSAS mk), sb_sasEmoji := snd (CalculateSAS mk)\<rparr>)"
proof -
  let ?e = "plain_env MsgTypePAKEStep2 sid (w2 @ wr @ confirm_mac k 1)"
  have 1: "Decode (c\<lparr>cn_in := frame_bytes ?e @ r\<rparr>) = (Inr ?e, c\<lparr>cn_in := r\<rparr>)"
    using s(2) sid up(2) wr(1) by (subst Decode_frame [where r = r]) (auto simp: open_conn_def intro: plain_sendable)
  let ?f = "plain_env MsgTypeKeyConfirm (sb_sessionID s) (confirm_mac k 2)"
  have 2: "Encode framePool_New (c\<lparr>cn_in := r\<rparr>) ?f
      = (Inr (), c\<lparr>cn_in := r, cn_out := cn_out c @ [frame_bytes ?f]\<rparr>)"
    using s(2,3) Encode_open [of ?f "c\<lparr>cn_in := r\<rparr>"] by (simp add: plain_sendable)
  have 3: "go_slice (w2 @ wr @ confirm_mac k 1) 1280 1340 = wr" "go_slice (w2 @ wr @ confirm_mac k 1) 1340 1372 = confirm_mac k 1"
    using up(2) wr(1) by (simp_all add: go_slice_def)
  note 4 = confirmed_peer [OF peer']
  show ?thesis
    using 1 2 [unfolded plain_env_def] 3 4 s(4) up wr
    by (simp add: Subscriber_CompleteHandshake_def Let_def UniformWireMsgSize_def install_master_def NewCipher_eq plain_env_def
        Version_def MinSupportedVersion_def msgtype_defs split: prod.splits)
qed

section \<open>Agreement\<close>

lemma Encode_success:
  assumes "Encode framePool_New c e = (Inr (), c')" "sendable e"
  shows "open_conn c' \<and> cn_out c' = cn_out c @ [frame_bytes e]"
  using assms
  by (auto simp: sendable_def Encode_eq conn_Write_def open_conn_def split: if_splits)

text \<open>What the constructors and \<open>Connect\<close> leave when they succeed.\<close>

lemma NewPublisherEngine_fields:
  assumes "NewPublisherEngine P now rp mk me pw addr reg = (Inr p, reg')"
  shows "\<exists>pub k. NewPAKEPublisher P rp pw = Inr pub \<and> length k = 32 \<and> pb_pakePeer p = Some pub \<and> pb_masterKey p = Some k
     \<and> pb_cipher p = Some (keyed k) \<and> pb_sasHex p = fst (CalculateSAS k) \<and> pb_sasEmoji p = snd (CalculateSAS k)
     \<and> pb_sessionID p = DeriveSessionID P pw \<and> pb_seqCounter p = 0"
  using assms
  by (auto simp: NewPublisherEngine_def Let_def NewCipher_eq KeySize_def split: sum.splits option.splits if_splits prod.splits)

lemma NewSubscriberEngine_fields:
  assumes "NewSubscriberEngine P rs me pw addr reg = (Inr s, reg')"
  shows "\<exists>sub. NewPAKESubscriber P rs pw = Inr sub \<and> sb_pakePeer s = Some sub
     \<and> sb_sessionID s = DeriveSessionID P pw \<and> sb_lastSeqNum s = 0"
  using assms
  by (auto simp: NewSubscriberEngine_def Let_def split: sum.splits)

lemma Publisher_Connect_fields:
  assumes "Publisher_Connect P N r p = (Inr (), p')" "pb_pakePeer p = Some pub" "pk_pubBytes pub = None"
    "length (pb_sessionID p) = 16"
  shows "\<exists>c. pb_conn p' = Some c \<and> open_conn c \<and> p' = p\<lparr>pb_conn := Some c, pb_gone := pb_gone p'\<rparr>"
proof -
  obtain c0 where "dial_transport N (pb_transportMode p) (pb_relayAddr p) (pb_expectedFingerprint p) = Some c0"
    using assms(1) by (auto simp: Publisher_Connect_def split: option.splits)
  moreover have "sendable (plain_env MsgTypePAKEInitPub (pb_sessionID p) [])"
    using assms(4) by (rule plain_sendable) simp
  ultimately show ?thesis
    using assms(1-3) unfolding plain_env_def
    by (auto simp: Publisher_Connect_def Let_def Bytes_def payload_of_def dest: Encode_success split: sum.splits prod.splits)
qed

lemma Subscriber_Connect_fields:
  assumes "Subscriber_Connect P N r s = (Inr (), s')" "sb_pakePeer s = Some sub" "pk_pubBytes sub = Some w" "length w = 1280"
    "length (sb_sessionID s) = 16"
  shows "\<exists>c out. sb_conn s' = Some c \<and> open_conn c \<and> s' = s\<lparr>sb_conn := Some c\<rparr>
     \<and> cn_out c = out @ [frame_bytes (plain_env MsgTypePAKEInitSub (sb_sessionID s) w)]"
proof -
  obtain c0 where "dial_transport N (sb_transportMode s) (sb_relayAddr s) (sb_expectedFingerprint s) = Some c0"
    using assms(1) by (auto simp: Subscriber_Connect_def split: option.splits)
  moreover have "sendable (plain_env MsgTypePAKEInitSub (sb_sessionID s) w)"
    using assms(5) by (rule plain_sendable) (simp add: assms(4))
  ultimately show ?thesis
    using assms(1-3) unfolding plain_env_def
    by (auto simp: Subscriber_Connect_def Let_def Bytes_def payload_of_def dest: Encode_success split: sum.splits prod.splits)
qed

text \<open>The exchange between two fresh peers with the same passphrase, message by message.\<close>

lemma pake_updates:
  assumes ok: "prims_ok P" and pub: "NewPAKEPublisher P rp pw = Inr pub" and sub: "NewPAKESubscriber P rs pw = Inr sub"
    and dh: "x_dh P (pk_privKey pub) (x_pub P (pk_privKey sub)) = Some sec"
  shows "\<exists>pub' sub' w1 w2 k. pk_pubBytes pub = None \<and> pk_pubBytes sub = Some w1 \<and> length w1 = 1280
     \<and> Update P enc (Some n2) pub w1 = (Inr (), pub') \<and> pk_pubBytes pub' = Some w2 \<and> length w2 = 1280
     \<and> Update P [] None sub w2 = (Inr (), sub') \<and> pk_sharedKey pub' = Some k \<and> pk_sharedKey sub' = Some k
     \<and> length k = 32 \<and> pk_role pub' = 1 \<and> pk_role sub' = 2"
proof -
  obtain a where a: "pr_x rp = Some a" "pw \<noteq> []"
    using pub by (auto simp: NewPAKEPublisher_def newPAKEPeer_def split: if_splits option.splits)
  obtain b d n where b: "pr_x rs = Some b" "pr_kem rs = Some d" "pr_pad rs = Some n"
    using sub by (auto simp: NewPAKESubscriber_def newPAKEPeer_def pad_wire_def Let_def split: if_splits option.splits)
  have "pk_privKey pub = a" "pk_pubBytes pub = None" using newPAKEPeer_pub [OF a(2,1)] pub by auto
  moreover have "pk_privKey sub = b" using newPAKEPeer_sub [OF a(2) b ok] sub by auto
  ultimately obtain ms pub' sub' w1 w2 where r: "pake_run P enc (Some n2) pub sub = Some (pub', sub')"
    "Bytes (Some sub) = Some w1" "length w1 = 1280" "Bytes (Some pub') = Some w2" "length w2 = 1280"
    "pk_sharedKey pub' = Some (pake_master P pw sec ms)" "pk_role pub' = 1"
    "pk_sharedKey sub' = Some (pake_master P pw sec ms)" "pk_role sub' = 2"
    using pake_run_keys [OF ok a(2) a(2) a(1) b _ pub sub] dh by blast
  have "sec \<noteq> []" using prims_okD(3) [OF ok dh] by auto
  then have "length (pake_master P pw sec ms) = 32" by (rule length_pake_master)
  moreover have "Update P enc (Some n2) pub w1 = (Inr (), pub')" "Update P [] None sub w2 = (Inr (), sub')"
    using r(1,2,4) by (auto simp: pake_run_def split: option.splits prod.splits sum.splits)
  ultimately show ?thesis using r \<open>pk_pubBytes pub = None\<close> by (auto simp: Bytes_def)
qed

text \<open>C2: two engines that were created with the same passphrase and have connected complete the
  handshake, when each reads what the other one writes: the publisher reads the subscriber's
  first frame, up to seven frames that are no confirmations, and the subscriber's confirmation;
  the subscriber reads the publisher's answer. Both end with the same session identifier, a
  cipher with the same key, and the same authentication strings, ready to stream. The
  hypotheses on the random source are that it delivers, the one on X25519 is that the result is
  not the all-zero value.\<close>

theorem handshake_agreement:
  assumes "prims_ok P"
    and "NewPublisherEngine P now rp mk me pw addr reg = (Inr p0, reg1)"
    and "NewSubscriberEngine P rs me' pw addr' reg' = (Inr s0, reg2)"
    and "pr_x rp = Some a" "pr_x rs = Some b" "x_dh P a (x_pub P b) = Some sec"
    and "Publisher_Connect P N r1 p0 = (Inr (), p1)" and "Subscriber_Connect P N' r2 s0 = (Inr (), s1)"
    and "hr_pad rnd = Some pad" "hr_nonce rnd = Some nonce"
    and "list_all (\<lambda>e. sendable e \<and> env_MsgType e \<noteq> MsgTypeKeyConfirm) noise" "length noise < 8"
  shows "\<exists>cp cs w1 w2 w3 p2 s2 k. pb_conn p1 = Some cp \<and> sb_conn s1 = Some cs \<and> last (cn_out cs) = w1
     \<and> Publisher_CompleteHandshake P rnd
         (p1\<lparr>pb_conn := Some (cp\<lparr>cn_in := w1 @ concat (map frame_bytes noise) @ w3 @ r\<rparr>)\<rparr>) = (Inr (), p2)
     \<and> wire p2 = wire p1 @ [w2]
     \<and> Subscriber_CompleteHandshake P (s1\<lparr>sb_conn := Some (cs\<lparr>cn_in := w2 @ r'\<rparr>)\<rparr>) = (Inr (), s2)
     \<and> map_option cn_out (sb_conn s2) = Some (cn_out cs @ [w3]) \<and> reading (sb_conn s2) = Some (r', cn_end cs, False)
     \<and> pub_ready k p2 \<and> pb_seqCounter p2 = 0 \<and> sub_ready k 0 s2
     \<and> pb_sessionID p2 = sb_sessionID s2 \<and> pb_sasHex p2 = sb_sasHex s2 \<and> pb_sasEmoji p2 = sb_sasEmoji s2"
proof -
  obtain pub k where p0: "NewPAKEPublisher P rp pw = Inr pub" "length k = 32" "pb_pakePeer p0 = Some pub" "pb_masterKey p0 = Some k"
    "pb_cipher p0 = Some (keyed k)" "pb_sasHex p0 = fst (CalculateSAS k)" "pb_sasEmoji p0 = snd (CalculateSAS k)"
    "pb_sessionID p0 = DeriveSessionID P pw" "pb_seqCounter p0 = 0"
    using NewPublisherEngine_fields [OF assms(2)] by blast
  obtain sub where s0: "NewPAKESubscriber P rs pw = Inr sub" "sb_pakePeer s0 = Some sub"
    "sb_sessionID s0 = DeriveSessionID P pw" "sb_lastSeqNum s0 = 0"
    using NewSubscriberEngine_fields [OF assms(3)] by blast
  have "pk_privKey pub = a" using p0(1) assms(4)
    by (auto simp: NewPAKEPublisher_def newPAKEPeer_def Let_def split: if_splits)
  moreover have "pk_privKey sub = b" using s0(1) assms(5)
    by (auto simp: NewPAKESubscriber_def newPAKEPeer_def Let_def split: if_splits option.splits)
  ultimately obtain pub' sub' w1 w2 key where u: "pk_pubBytes pub = None" "pk_pubBytes sub = Some w1" "length w1 = 1280"
    "Update P (hr_enc rnd) (hr_pad rnd) pub w1 = (Inr (), pub')" "pk_pubBytes pub' = Some w2" "length w2 = 1280"
    "Update P [] None sub w2 = (Inr (), sub')" "pk_sharedKey pub' = Some key" "pk_sharedKey sub' = Some key"
    "length key = 32" "pk_role pub' = 1" "pk_role sub' = 2"
    using pake_updates [OF assms(1) p0(1) s0(1), of sec "hr_enc rnd" pad] assms(6,9) by metis
  let ?sid = "DeriveSessionID P pw"
  have sid: "length ?sid = 16" by (simp add: SessionIDSize_def)
  obtain cp g where p1: "open_conn cp" "p1 = p0\<lparr>pb_conn := Some cp, pb_gone := g\<rparr>"
    using Publisher_Connect_fields [OF assms(7) p0(3) u(1)] sid p0(8) by auto
  obtain cs out where s1: "open_conn cs" "s1 = s0\<lparr>sb_conn := Some cs\<rparr>" "cn_out cs = out @ [frame_bytes (plain_env MsgTypePAKEInitSub ?sid w1)]"
    using Subscriber_Connect_fields [OF assms(8) s0(2) u(2,3)] sid s0(3) by auto
  let ?w3 = "frame_bytes (plain_env MsgTypeKeyConfirm ?sid (confirm_mac key 2))"
  obtain wr where wr: "length wr = 60" "UnwrapSessionKey key wr = Inr k"
    "Publisher_CompleteHandshake P rnd (p1\<lparr>pb_conn := Some (cp\<lparr>cn_in :=
         frame_bytes (plain_env MsgTypePAKEInitSub ?sid w1) @ concat (map frame_bytes noise) @ ?w3 @ r\<rparr>)\<rparr>)
     = (Inr (), p1\<lparr>pb_conn := Some (cp\<lparr>cn_in := r, cn_out := cn_out cp @
           [frame_bytes (plain_env MsgTypePAKEStep2 ?sid (w2 @ wr @ confirm_mac key 1))]\<rparr>), pb_pakePeer := Some pub'\<rparr>)"
    using Publisher_handshake_ok [OF _ p1(1) _ _ _ p0(2) u(4,3,8,10,5,6,11) assms(10) sid assms(11,12), of p1 r] p0 p1(2) sid by auto
  have "Subscriber_CompleteHandshake P (s1\<lparr>sb_conn := Some (cs\<lparr>cn_in :=
         frame_bytes (plain_env MsgTypePAKEStep2 ?sid (w2 @ wr @ confirm_mac key 1)) @ r'\<rparr>)\<rparr>)
     = (Inr (), s1\<lparr>sb_conn := Some (cs\<lparr>cn_in := r', cn_out := cn_out cs @ [?w3]\<rparr>),
          sb_pakePeer := Some sub', sb_cipher := Some (keyed k),
          sb_sasHex := fst (CalculateSAS k), sb_sasEmoji := snd (CalculateSAS k)\<rparr>)"
    using Subscriber_handshake_ok [OF _ s1(1) _ _ u(7,6,9,12) wr(1,2) p0(2) sid, of s1 r'] s0 s1(2) sid by simp
  then show ?thesis
    using wr(3) p1 s1 p0 s0 sid
    by (intro exI [of _ cp] exI [of _ cs] exI [of _ "frame_bytes (plain_env MsgTypePAKEInitSub ?sid w1)"]
        exI [of _ "frame_bytes (plain_env MsgTypePAKEStep2 ?sid (w2 @ wr @ confirm_mac key 1))"] exI [of _ ?w3])
      (auto simp: wire_def reading_def pub_ready_def sub_ready_def open_conn_def)
qed

definition sample_hs :: hs_rnd where
  "sample_hs = \<lparr>hr_enc = [5], hr_pad = Some [6], hr_nonce = Some [8]\<rparr>"

text \<open>The peers of one passphrase, drawn with fixed random bytes.\<close>

lemma sample_peers:
  obtains pub sub where "NewPAKEPublisher sample_prims sample_rnd [7] = Inr pub"
    "NewPAKESubscriber sample_prims (sample_rnd\<lparr>pr_x := Some [9]\<rparr>) [7] = Inr sub"
  using newPAKEPeer_pub [of "[7]" sample_rnd "[1, 2]"]
    newPAKEPeer_sub [of "[7]" "sample_rnd\<lparr>pr_x := Some [9]\<rparr>" "[9]" "[3]" "[4]", OF _ _ _ _ sample_prims_ok]
  by (auto simp: sample_rnd_def)

lemma sample_engines:
  "\<exists>p0 reg1 s0 reg2. NewPublisherEngine sample_prims 0 sample_rnd (Some [2]) 1 [7] ''relay:9000'' sample_mem = (Inr p0, reg1)
     \<and> NewSubscriberEngine sample_prims (sample_rnd\<lparr>pr_x := Some [9]\<rparr>) 2 [7] ''relay:9000'' sample_mem = (Inr s0, reg2)
     \<and> pb_transportMode p0 = '''' \<and> pb_relayAddr p0 = ''relay:9000'' \<and> pb_expectedFingerprint p0 = ''''
     \<and> sb_transportMode s0 = '''' \<and> sb_relayAddr s0 = ''relay:9000'' \<and> sb_expectedFingerprint s0 = ''''
     \<and> pb_untaggedInput p0 = False \<and> pb_replayBuffer p0 = ([], NewRingBuffer 100) \<and> pb_closed p0 = False"
proof -
  obtain pub sub where pub: "NewPAKEPublisher sample_prims sample_rnd [7] = Inr pub"
    and sub: "NewPAKESubscriber sample_prims (sample_rnd\<lparr>pr_x := Some [9]\<rparr>) [7] = Inr sub"
    by (rule sample_peers)
  have "length (go_copy (replicate KeySize 0) 0 KeySize [2 :: byte]) = 32" by (simp add: KeySize_def)
  then show ?thesis
    using pub sub by (simp add: NewPublisherEngine_def NewSubscriberEngine_def Let_def NewCipher_eq split: prod.split)
qed

lemma sample_dial: "dial_transport sample_net '''' ''relay:9000'' '''' = Some (fresh_conn [0] EOF)"
proof -
  have "TrimSpace (ToLower '''') = ''''" by (simp add: ToLower_def TrimSpace_visible)
  then show ?thesis
    by (simp add: dial_transport_def ModeQUIC_def DialRelayWithPin_def sample_net_def tls_dial_def Let_def split: prod.split)
qed

lemma sample_connected:
  assumes "pb_transportMode p = ''''" "pb_relayAddr p = ''relay:9000''" "pb_expectedFingerprint p = ''''"
    "pb_pakePeer p = Some pub" "pk_pubBytes pub = None" "length (pb_sessionID p) = 16"
  shows "\<exists>p'. Publisher_Connect P sample_net r p = (Inr (), p')"
proof -
  have "sendable (plain_env MsgTypePAKEInitPub (pb_sessionID p) [])" using assms(6) by (rule plain_sendable) simp
  moreover have "open_conn (fresh_conn [0] EOF)" by (simp add: open_conn_def fresh_conn_def)
  ultimately show ?thesis
    using assms Encode_open unfolding plain_env_def
    by (simp add: Publisher_Connect_def sample_dial Let_def Bytes_def payload_of_def)
qed

lemma sample_connected_sub:
  assumes "sb_transportMode s = ''''" "sb_relayAddr s = ''relay:9000''" "sb_expectedFingerprint s = ''''"
    "sb_pakePeer s = Some sub" "pk_pubBytes sub = Some w" "length w = 1280" "length (sb_sessionID s) = 16"
  shows "\<exists>s'. Subscriber_Connect P sample_net r s = (Inr (), s')"
proof -
  have "sendable (plain_env MsgTypePAKEInitSub (sb_sessionID s) w)" using assms(7) by (rule plain_sendable) (simp add: assms(6))
  moreover have "open_conn (fresh_conn [0] EOF)" by (simp add: open_conn_def fresh_conn_def)
  ultimately show ?thesis
    using assms Encode_open unfolding plain_env_def
    by (simp add: Subscriber_Connect_def sample_dial Let_def Bytes_def payload_of_def)
qed

theorem handshake_agreement_witness:
  "\<exists>p1 s1 cp cs w1 w2 w3 p2 s2 k. pb_conn p1 = Some cp \<and> sb_conn s1 = Some cs \<and> last (cn_out cs) = w1
     \<and> Publisher_CompleteHandshake sample_prims sample_hs
         (p1\<lparr>pb_conn := Some (cp\<lparr>cn_in := w1 @ concat (map frame_bytes [sample_env]) @ w3 @ []\<rparr>)\<rparr>) = (Inr (), p2)
     \<and> wire p2 = wire p1 @ [w2]
     \<and> Subscriber_CompleteHandshake sample_prims (s1\<lparr>sb_conn := Some (cs\<lparr>cn_in := w2 @ []\<rparr>)\<rparr>) = (Inr (), s2)
     \<and> map_option cn_out (sb_conn s2) = Some (cn_out cs @ [w3]) \<and> reading (sb_conn s2) = Some ([], cn_end cs, False)
     \<and> pub_ready k p2 \<and> pb_seqCounter p2 = 0 \<and> sub_ready k 0 s2
     \<and> pb_sessionID p2 = sb_sessionID s2 \<and> pb_sasHex p2 = sb_sasHex s2 \<and> pb_sasEmoji p2 = sb_sasEmoji s2"
proof -
  obtain p0 reg1 s0 reg2 where e: "NewPublisherEngine sample_prims 0 sample_rnd (Some [2]) 1 [7] ''relay:9000'' sample_mem = (Inr p0, reg1)"
    "NewSubscriberEngine sample_prims (sample_rnd\<lparr>pr_x := Some [9]\<rparr>) 2 [7] ''relay:9000'' sample_mem = (Inr s0, reg2)"
    "pb_transportMode p0 = ''''" "pb_relayAddr p0 = ''relay:9000''" "pb_expectedFingerprint p0 = ''''"
    "sb_transportMode s0 = ''''" "sb_relayAddr s0 = ''relay:9000''" "sb_expectedFingerprint s0 = ''''"
    using sample_engines by blast
  obtain pub sub where f: "NewPAKEPublisher sample_prims sample_rnd [7] = Inr pub" "pb_pakePeer p0 = Some pub"
    "pb_sessionID p0 = DeriveSessionID sample_prims [7]"
    "NewPAKESubscriber sample_prims (sample_rnd\<lparr>pr_x := Some [9]\<rparr>) [7] = Inr sub" "sb_pakePeer s0 = Some sub"
    "sb_sessionID s0 = DeriveSessionID sample_prims [7]"
    using NewPublisherEngine_fields [OF e(1)] NewSubscriberEngine_fields [OF e(2)] by blast
  obtain w where w: "pk_pubBytes pub = None" "pk_pubBytes sub = Some w" "length w = 1280"
    using pake_updates [OF sample_prims_ok f(1,4) sample_dh, of "[]" "[]"] by blast
  obtain p1 where p1: "Publisher_Connect sample_prims sample_net sample_rnd p0 = (Inr (), p1)"
    using sample_connected [OF e(3-5) f(2) w(1)] f(3) by (auto simp: SessionIDSize_def)
  obtain s1 where s1: "Subscriber_Connect sample_prims sample_net sample_rnd s0 = (Inr (), s1)"
    using sample_connected_sub [OF e(6-8) f(5) w(2,3)] f(6) by (auto simp: SessionIDSize_def)
  have n: "list_all (\<lambda>e. sendable e \<and> env_MsgType e \<noteq> MsgTypeKeyConfirm) [sample_env]"
    using sample_env_ok by (simp add: sample_env_def msgtype_defs)
  show ?thesis
    using handshake_agreement [OF sample_prims_ok e(1,2) _ _ sample_dh p1 s1, of "[1, 2]" "[9]" sample_hs "[6]" "[8]", OF _ _ _ _ n, of "[]" "[]"]
    by (simp add: sample_rnd_def sample_hs_def) blast
qed

end
