(* ===== verification/Feed_Props.thy ===== *)
theory Feed_Props
  imports Feed_Handshake
begin

text \<open>
  What the stream promises to its users: texts arrive in order through key changes, what a
  subscriber missed is replayed, and no two plaintexts are ever sent under one nonce.
\<close>

section \<open>Texts arrive in order\<close>

fun texts :: "(time \<times> bytes option \<times> pub_select) list \<Rightarrow> bytes list" where
  "texts [] = []"
| "texts ((now, rnd, sel) # evs) =
     (case sel of SelInput m \<Rightarrow> if m = [] then texts evs else m # texts evs | _ \<Rightarrow> texts evs)"

lemma inputs_untagged: "inputs True evs = map ((#) TagText) (texts evs)"
  by (induction evs rule: texts.induct) (auto simp: tag_payload_def split: pub_select.splits)

lemma delivered_text: "delivered (TagText # m) st = emit (sanitizeTextOutput m) st"
  by (simp add: delivered_def deliver_def)

lemma delivered_texts:
  "ss_writer st \<Longrightarrow>
   ss_out (fold delivered (map ((#) TagText) ms) st) = ss_out st @ map sanitizeTextOutput ms"
proof (induction ms arbitrary: st)
  case (Cons m ms)
  have "ss_writer (emit (sanitizeTextOutput m) st)" using Cons.prems by (simp add: emit_def)
  then show ?case using Cons by (simp add: delivered_text) (simp add: emit_def)
qed simp

lemma inputs_ok: "list_all running evs \<Longrightarrow> list_all payload_ok (inputs u evs)"
  by (induction u evs rule: inputs.induct) (auto simp: running_def tag_payload_ok split: pub_select.splits)

text \<open>C11: the text stream from end to end. The publisher and the subscriber hold the same key; the
  publisher takes texts from its input, sends heartbeats, and changes keys whenever its limits
  say so; the subscriber reads the frames the publisher wrote. Then the publisher never fails,
  and the subscriber has written exactly the published texts, each sanitised, in order, and
  holds the publisher's current key.\<close>

theorem stream_end_to_end:
  assumes "pub_ready k p" and "sub_ready k (pb_seqCounter p) (sl_sub l)"
    and "pb_untaggedInput p" and "ss_writer (sl_stream l)" and "list_all running evs"
    and "PublishStream evs p = (res, p')" and "wire p' = wire p @ new"
    and "unat (pb_seqCounter p) + length new < 2 ^ 64"
    and "reading (sb_conn (sl_sub l)) = Some (concat new @ r, t, False)"
    and "list_all undisturbed its" and "length its = length new"
  shows "res = None \<and> (\<exists>l' k'. SubscribeStream P its l = (Next, l')
     \<and> ss_out (sl_stream l') = ss_out (sl_stream l) @ map sanitizeTextOutput (texts evs)
     \<and> reading (sb_conn (sl_sub l')) = Some (r, t, False)
     \<and> pub_ready k' p' \<and> sub_ready k' (pb_seqCounter p') (sl_sub l'))"
proof -
  let ?ms = "map ((#) TagText) (texts evs)"
  obtain fs k' where fs: "res = None" "pub_ready k' p'" "wire p' = wire p @ map frame_bytes fs"
    "stream_frames (pb_sessionID p) k (pb_seqCounter p) ?ms fs k' (pb_seqCounter p')"
    using PublishStream_ok [OF assms(1,5)] assms(3,6) by (auto simp: inputs_untagged)
  have new: "new = map frame_bytes fs" using fs(3) assms(7) by simp
  have ok: "list_all payload_ok ?ms" using inputs_ok [OF assms(5), of True] by (simp add: inputs_untagged)
  have k: "length (pb_sessionID p) = 16" "length k = 32" using assms(1) by (auto simp: pub_ready_def)
  obtain l' where "SubscribeStream P its l = (Next, l')" "sub_ready k' (pb_seqCounter p') (sl_sub l')"
    "sl_stream l' = fold delivered ?ms (sl_stream l)" "reading (sb_conn (sl_sub l')) = Some (r, t, False)"
    using SubscribeStream_stream [OF fs(4) k assms(2) _ ok assms(10)] assms(8,9,11) new by auto
  then show ?thesis using fs(1,2) delivered_texts [OF assms(4)] by (auto simp del: fold_map)
qed

definition sample_pub :: publisher where
  "sample_pub = \<lparr>pb_passphrase = Some [7], pb_masterKey = Some (replicate 32 1), pb_relayAddr = ''relay:9000'',
     pb_sessionID = replicate 16 5, pb_pakePeer = None, pb_cipher = Some (keyed (replicate 32 1)),
     pb_conn = Some (fresh_conn [] EOF), pb_seqCounter = 0, pb_replayBuffer = ([], NewRingBuffer 100),
     pb_chunkAckChan = None, pb_expectedFingerprint = '''', pb_transportMode = '''', pb_sasHex = '''', pb_sasEmoji = [],
     pb_bytesSinceRekey = 0, pb_lastRekeyTime = 0, pb_rekeyByteLimit = 0, pb_rekeyTimeLimit = 0,
     pb_untaggedInput = True, pb_closed = False, pb_gone = []\<rparr>"

lemma sample_pub_ready: "pub_ready (replicate 32 1) sample_pub"
  by (simp add: pub_ready_def sample_pub_def open_conn_def fresh_conn_def)

definition sample_sub :: subscriber where
  "sample_sub = \<lparr>sb_passphrase = Some [7], sb_relayAddr = ''relay:9000'', sb_sessionID = replicate 16 5, sb_pakePeer = None,
     sb_cipher = Some (keyed (replicate 32 1)), sb_conn = None, sb_ringBuffer = ([], NewRingBuffer 100), sb_lastSeqNum = 0,
     sb_expectedFingerprint = '''', sb_transportMode = '''', sb_sasHex = '''', sb_sasEmoji = [], sb_closed = False\<rparr>"

definition sample_fsys :: fsys where
  "sample_fsys = \<lparr>fl_files = [], fl_can = (\<lambda>_. True), fl_full = False\<rparr>"

definition sample_stream :: sstream where
  "sample_stream = \<lparr>ss_files = [], ss_fs = sample_fsys, ss_writer = True, ss_callback = False, ss_out = [],
     ss_called = [], ss_notices = []\<rparr>"

definition sample_iter :: iteration where
  "sample_iter = \<lparr>it_close = False, it_done = False, it_done_read = False,
     it_attempts = (\<lambda>_. \<lparr>at_done = True, at_net = sample_net, at_rnd = sample_rnd\<rparr>)\<rparr>"

theorem stream_end_to_end_witness:
  "\<exists>res p' new l' k'. PublishStream [(0, None, SelInput [104, 105]), (0, None, SelInput [])] sample_pub = (res, p')
     \<and> wire p' = wire sample_pub @ new \<and> res = None
     \<and> SubscribeStream sample_prims (replicate (length new) sample_iter)
         \<lparr>sl_sub = sample_sub\<lparr>sb_conn := Some (fresh_conn (concat new) EOF)\<rparr>, sl_stream = sample_stream, sl_backoff = 0\<rparr> = (Next, l')
     \<and> ss_out (sl_stream l') = [] @ map sanitizeTextOutput [[104, 105]]
     \<and> pub_ready k' p' \<and> sub_ready k' (pb_seqCounter p') (sl_sub l')"
proof -
  let ?evs = "[(0, None, SelInput [104, 105]), (0, None, SelInput [])] :: (time \<times> bytes option \<times> pub_select) list"
  let ?m = "TagText # [104, 105]"
  let ?p = "sample_pub\<lparr>pb_bytesSinceRekey := 3\<rparr>"
  have r: "pub_ready (replicate 32 1) ?p" using sample_pub_ready by (simp add: pub_ready_def)
  have "payload_ok ?m" by (simp add: payload_ok_def)
  from publish_sealed_ok [OF r this] obtain p' f where p': "publish_sealed ?m ?p = (Inr (), p')" "wire p' = wire sample_pub @ [f]"
    by (auto simp: wire_def)
  have s: "PublishStream ?evs sample_pub = (None, p')"
    using p'(1) by (simp add: PublishStream_step_def PublishPayload_def count_payload_def tag_payload_def sample_pub_def)
  have "list_all running ?evs" by (simp add: running_def)
  from stream_end_to_end [OF sample_pub_ready _ _ _ this s p'(2),
      of "\<lparr>sl_sub = sample_sub\<lparr>sb_conn := Some (fresh_conn (concat [f]) EOF)\<rparr>, sl_stream = sample_stream, sl_backoff = 0\<rparr>"
        "[]" EOF "replicate (length [f]) sample_iter" sample_prims]
  show ?thesis
    using s p'(2)
    by (simp add: sub_ready_def sample_sub_def sample_pub_def sample_stream_def sample_iter_def reading_def fresh_conn_def undisturbed_def)
      (metis)
qed

end
