(* ===== verification/Relay_Carry.thy ===== *)
theory Relay_Carry
  imports Relay_Props Feed_Props
begin

text \<open>
  The relay between the engines: the frames of a publisher's connection come out of the connection
  of a subscriber of its session, without the heartbeats.
\<close>

definition beats_dropped :: "envelope list \<Rightarrow> envelope list" where
  "beats_dropped = filter (\<lambda>e. env_MsgType e \<noteq> MsgTypeHeartbeat)"

lemma beats_dropped_simps [simp]:
  "beats_dropped [] = []"
  "beats_dropped (e # es) = (if env_MsgType e = MsgTypeHeartbeat then beats_dropped es else e # beats_dropped es)"
  by (simp_all add: beats_dropped_def)

lemma stream_frames_dropped: "stream_frames sid k n ms fs k' n' \<Longrightarrow> stream_frames sid k n ms (beats_dropped fs) k' n'"
proof (induction rule: stream_frames.induct)
  case (beat k n ms fs k' n')
  then show ?case by (simp add: heartbeat_env_def)
qed (simp_all add: stream_frames.intros)

lemma stream_frames_open: "stream_frames sid k n ms fs k' n' \<Longrightarrow> list_all (\<lambda>e. env_MsgType e \<noteq> MsgTypeClose) fs"
  by (induction rule: stream_frames.induct) (simp_all add: heartbeat_env_def msgtype_defs)

text \<open>
  A state in which task \<open>k\<close> is the publisher's loop of session \<open>s\<close> on client \<open>i\<close>, which has \<open>inp\<close> to
  read, and client \<open>j\<close> is a subscriber of the session that has been sent \<open>out\<close> and is not behind.
\<close>

definition carrying :: "nat \<Rightarrow> nat \<Rightarrow> nat \<Rightarrow> nat \<Rightarrow> bytes \<Rightarrow> bytes list \<Rightarrow> sys \<Rightarrow> bool" where
  "carrying k s i j inp out st \<longleftrightarrow> sys_ok st \<and> k < length (snd st) \<and> snd st ! k = TPub s i \<and> i \<noteq> j
     \<and> j \<in> snd ` set (se_subscribers (sess (fst st) s))
     \<and> open_conn (cl_netConn (clnt (fst st) i)) \<and> cn_in (cl_netConn (clnt (fst st) i)) = inp
     \<and> open_conn (cl_netConn (clnt (fst st) j)) \<and> cn_out (cl_netConn (clnt (fst st) j)) = out
     \<and> cl_sendCh (clnt (fst st) j) = [] \<and> \<not> cl_done (clnt (fst st) j) \<and> cl_writer (clnt (fst st) j)"

text \<open>One iteration of the publisher's loop, one of the subscriber's writer.\<close>

definition carry_events :: "nat \<Rightarrow> nat \<Rightarrow> sched \<Rightarrow> bool \<Rightarrow> event list" where
  "carry_events k j sc pick = [EvTask k sc, EvWriter j pick]"

lemma forward_loop_sessions: "forward_loop pick env subs h = (failed, hit, h') \<Longrightarrow> hp_sessions h' = hp_sessions h \<and> length (hp_clients h') = length (hp_clients h)"
proof (induction subs arbitrary: h failed hit)
  case (Cons a subs)
  obtain addr j where a: "a = (addr, j)" by fastforce
  obtain r c where r: "SendFrame (pick j) (hp_clients h ! j) env = (r, c)" by fastforce
  obtain f' hit' h'' where f: "forward_loop pick env subs (upd_client j (\<lambda>_. c) h) = (f', hit', h'')" by (metis prod_cases3)
  have "h'' = h'" using Cons.prems a r f by (auto split: sum.splits)
  then show ?case using Cons.IH f by fastforce
qed simp

lemma carry_one:
  assumes "carrying k s i j (frame_bytes e @ r) out st" "sendable e" "env_MsgType e \<noteq> MsgTypeClose"
  shows "carrying k s i j r (out @ (if env_MsgType e = MsgTypeHeartbeat then [] else [frame_bytes e]))
     (fold sys_step (carry_events k j sc pick) st)"
proof -
  obtain srv ts where st: "st = (srv, ts)" by fastforce
  let ?c = "cl_netConn (clnt srv i)" and ?d = "cl_netConn (clnt srv j)"
  let ?h1 = "upd_client i (\<lambda>c. c\<lparr>cl_netConn := ?c\<lparr>cn_in := r\<rparr>\<rparr>) (sv_heap srv)"
  have a: "sys_ok (srv, ts)" "k < length ts" "ts ! k = TPub s i" "i \<noteq> j" "j \<in> snd ` set (se_subscribers (sess srv s))"
    "open_conn ?c" "cn_in ?c = frame_bytes e @ r" "open_conn ?d" "cn_out ?d = out" "cl_sendCh (clnt srv j) = []"
    "\<not> cl_done (clnt srv j)" "cl_writer (clnt srv j)" using assms(1) by (simp_all add: carrying_def st)
  have ok: "sys_ok (fold sys_step (carry_events k j sc pick) st)" using relaym.run_inv [of st] a(1) st by simp
  have h: "heap_ok (sv_heap srv)" and t: "task_ok (sv_heap srv) (TPub s i)"
    using a(1-3) by (auto simp: sys_ok_def srv_ok_def list_all_length)
  then have x: "sess_ok (hp_clients (sv_heap srv)) (sess srv s)" by (simp add: heap_ok_def list_all_length)
  have j: "j < length (hp_clients (sv_heap srv))" "cl_role (clnt srv j) = 2" "distinct (map snd (se_subscribers (sess srv s)))"
    "i < length (hp_clients (sv_heap srv))" using x a(5) t by (auto simp: sess_ok_def)
  have d: "Decode ?c = (Inr e, ?c\<lparr>cn_in := r\<rparr>)"
    using Decode_frame [OF a(7) _ assms(2)] a(6) by (simp add: open_conn_def)
  show ?thesis
  proof (cases "env_MsgType e = MsgTypeHeartbeat")
    case True
    then have "sys_step (EvTask k sc) st = (upd_heap (\<lambda>_. ?h1) srv, ts)"
      using a(3) d id_take_nth_drop [OF a(2)] a(2) by (simp add: st step_pub_def upd_heap_def)
    then show ?thesis
      using True a ok j by (auto simp: carrying_def carry_events_def upd_heap_def nth_upd_client writeLoop_step_def open_conn_def)
  next
    case False
    obtain failed hit h2 where f: "ForwardFromPublisher (sc_pick sc) s e ?h1 = (failed, hit, h2)" by (metis prod_cases3)
    have 1: "hp_clients h2 ! m = (if m \<in> snd ` set (se_subscribers (sess srv s)) then snd (SendFrame (sc_pick sc m) (hp_clients ?h1 ! m) e)
        else hp_clients ?h1 ! m)" if "m < length (hp_clients (sv_heap srv))" for m
      using forward_loop_spec [of "sc_pick sc" e _ ?h1 failed hit h2 m] f j(3) that by (simp add: ForwardFromPublisher_def)
    have 2: "hp_sessions h2 = hp_sessions (sv_heap srv)" "length (hp_clients h2) = length (hp_clients (sv_heap srv))"
      using f forward_loop_sessions by (fastforce simp: ForwardFromPublisher_def)+
    have i: "cl_netConn (hp_clients h2 ! i) = ?c\<lparr>cn_in := r\<rparr>"
      using 1 [OF j(4)] j(4) x by (auto simp: nth_upd_client SendFrame_sub sess_ok_def)
    have q: "hp_clients h2 ! j = (clnt srv j)\<lparr>cl_sendCh := [e]\<rparr>"
      using 1 [OF j(1)] j(1,2) a(4,5,10,11) by (simp add: nth_upd_client SendFrame_sub SubscriberQueueSize_def)
    obtain m where step: "sys_step (EvTask k sc) st
        = (srv\<lparr>sv_metrics := m, sv_heap := h2\<rparr>, take k ts @ (TPub s i # map (TRemove s) failed) @ drop (Suc k) ts)"
      using a(2,3) d f False assms(3) by (simp add: st step_pub_def upd_heap_def)
    have w: "writeLoop_step pick ((clnt srv j)\<lparr>cl_sendCh := [e]\<rparr>) = (clnt srv j)\<lparr>cl_netConn := ?d\<lparr>cn_out := out @ [frame_bytes e]\<rparr>\<rparr>"
      using a(8-12) Encode_open [OF assms(2) a(8)] by (simp add: writeLoop_step_def)
    have "fold sys_step (carry_events k j sc pick) st = (srv\<lparr>sv_metrics := m, sv_heap := upd_client j (writeLoop_step pick) h2\<rparr>,
        take k ts @ (TPub s i # map (TRemove s) failed) @ drop (Suc k) ts)"
      using step by (simp add: carry_events_def upd_heap_def)
    then show ?thesis
      using ok False a(2,4-8,10-12) i q w 2 j(1,4) by (auto simp: carrying_def nth_upd_client nth_append open_conn_def)
  qed
qed

lemma carry_all:
  "carrying k s i j (concat (map frame_bytes es) @ r) out st \<Longrightarrow> list_all sendable es \<Longrightarrow> list_all (\<lambda>e. env_MsgType e \<noteq> MsgTypeClose) es \<Longrightarrow>
   carrying k s i j r (out @ map frame_bytes (beats_dropped es))
     (fold sys_step (concat (replicate (length es) (carry_events k j sc pick))) st)"
proof (induction es arbitrary: out st)
  case (Cons e es)
  have "carrying k s i j (concat (map frame_bytes es) @ r) (out @ (if env_MsgType e = MsgTypeHeartbeat then [] else [frame_bytes e]))
      (fold sys_step (carry_events k j sc pick) st)"
    using Cons.prems by (intro carry_one) simp_all
  from Cons.IH [OF this] show ?case using Cons.prems(2,3) by (simp split: if_splits)
qed simp

text \<open>A publisher with frames to send and a subscriber meet in a session.\<close>

definition meeting :: "envelope list \<Rightarrow> event list" where
  "meeting es = [EvAccept 1 ''a'' (script_conn (hello MsgTypePAKEInitPub 5 # es)) 0,
     EvTask 0 sample_sched, EvTask 0 sample_sched, EvTask 0 sample_sched, EvTask 0 sample_sched,
     EvAccept 2 ''b'' (script_conn [hello MsgTypePAKEInitSub 5]) 0,
     EvTask 1 sample_sched, EvTask 1 sample_sched, EvTask 1 sample_sched]"

lemma meeting_carries: "carrying 0 0 0 1 (concat (map frame_bytes es)) [] (fold sys_step (meeting es) sys_init)"
proof -
  have "sys_ok (fold sys_step (meeting es) sys_init)" using sys_init_ok by (rule relaym.run_inv)
  moreover have "\<exists>srv ts. fold sys_step (meeting es) sys_init = (srv, TPub 0 0 # ts)
     \<and> cl_netConn (clnt srv 0) = script_conn es \<and> se_subscribers (sess srv 0) = [(''b#'' @ print_nat 1, 1)]
     \<and> cl_netConn (clnt srv 1) = script_conn [] \<and> cl_sendCh (clnt srv 1) = [] \<and> \<not> cl_done (clnt srv 1) \<and> cl_writer (clnt srv 1)"
    by (simp add: meeting_def run_simps step_greet_def upd_heap_def RegisterSubscriber_def)
  ultimately show ?thesis by (auto simp: carrying_def script_conn_def fresh_conn_def open_conn_def)
qed

end
