(* ===== verification/Feed_Nonce.thy ===== *)
theory Feed_Nonce
  imports Feed_Handshake
begin

text \<open>
  Nonces: over the whole life of a publisher, through publishing, key changes, replays for
  returning subscribers, handshakes and reconnections in any order, a sequence number (and so a
  nonce) stands for one plaintext. The invariant carries an
  assignment of plaintexts to the sequence numbers used so far, which every operation keeps or
  extends.
\<close>

section \<open>What is written\<close>

definition sent :: "publisher \<Rightarrow> bytes list" where
  "sent p = concat (map cn_out (pb_gone p)) @ wire p"

text \<open>The type and the nonce of a frame as they stand in its bytes.\<close>

definition type_of :: "bytes \<Rightarrow> byte" where
  "type_of b = b ! 5"

definition nonce_of :: "bytes \<Rightarrow> bytes" where
  "nonce_of b = take 12 (drop 22 b)"

definition encrypted :: "bytes \<Rightarrow> bool" where
  "encrypted b \<longleftrightarrow> type_of b = MsgTypeDataStream \<or> type_of b = MsgTypeRekey"

lemma type_of_header [simp]: "type_of (header_bytes v ty sid n l @ y) = ty"
  by (simp add: type_of_def header_bytes_def MagicHeader_def nth_append)

lemma type_of_frame [simp]: "type_of (frame_bytes e) = env_MsgType e"
  by (simp add: frame_bytes_def)

lemma nonce_of_frame: "wf_env e \<Longrightarrow> nonce_of (frame_bytes e) = env_Nonce e"
  by (simp add: frame_bytes_def nonce_of_def header_bytes_def wf_env_def SessionIDSize_def NonceSize_def MagicHeader_def)

text \<open>Whatever \<open>Encode\<close> writes starts with the header of the envelope.\<close>

lemma Encode_shape:
  assumes "wf_env e" "Encode framePool_New c e = (r, c')"
  shows "\<exists>x. c' = c\<lparr>cn_out := cn_out c @ x\<rparr> \<and> list_all (\<lambda>b. type_of b = env_MsgType e) x"
proof (cases "unat (of_nat (length (env_Payload e)) :: u32) \<le> unat MaxPayloadSize")
  case True
  let ?b = "header_bytes (env_Version e) (env_MsgType e) (env_SessionID e) (env_Nonce e) (of_nat (length (env_Payload e)))
      @ take (unat (of_nat (length (env_Payload e)) :: u32)) (env_Payload e)"
  have "c' = c \<or> c' = c\<lparr>cn_out := cn_out c @ [?b]\<rparr>"
    using assms Encode_gen [OF assms(1) True, of framePool_New c] by (auto simp: conn_Write_def split: if_splits)
  then show ?thesis
  proof
    assume "c' = c"
    then show ?thesis by (intro exI [of _ "[]"]) simp
  next
    assume "c' = c\<lparr>cn_out := cn_out c @ [?b]\<rparr>"
    then show ?thesis by (intro exI [of _ "[?b]"]) simp
  qed
next
  case False
  then have "c' = c" using assms(2) Encode_refused [of e framePool_New c] by simp
  then show ?thesis by (intro exI [of _ "[]"]) simp
qed

text \<open>A sealed frame is written whole or not at all.\<close>

lemma Encode_sealed:
  assumes "length sid = 16" "length pt + 24 < 2 ^ 32" "Encode framePool_New c (sealed k ty sid n pt) = (r, c')"
  shows "\<exists>x. c' = c\<lparr>cn_out := cn_out c @ x\<rparr> \<and> (x = [] \<or> x = [frame_bytes (sealed k ty sid n pt)])"
proof -
  let ?e = "sealed k ty sid n pt"
  have len: "unat (of_nat (length (env_Payload ?e)) :: u32) = length pt + 24"
    using assms(2) unat_of_nat [where 'a = 32, of "length (env_Payload ?e)"] by simp
  have wf: "wf_env ?e" using assms(1) by (simp add: wf_env_def SessionIDSize_def NonceSize_def)
  have "c' = c \<or> c' = c\<lparr>cn_out := cn_out c @ [frame_bytes ?e]\<rparr>"
  proof (cases "length pt + 24 \<le> unat MaxPayloadSize")
    case True
    then show ?thesis
      using assms(3) Encode_eq [OF wf, of framePool_New c] by (auto simp: conn_Write_def split: if_splits)
  next
    case False
    then show ?thesis using assms(3) len Encode_refused [of ?e framePool_New c] by simp
  qed
  then show ?thesis
  proof
    assume "c' = c"
    then show ?thesis by (intro exI [of _ "[]"]) simp
  next
    assume "c' = c\<lparr>cn_out := cn_out c @ [frame_bytes ?e]\<rparr>"
    then show ?thesis by (intro exI [of _ "[frame_bytes ?e]"]) simp
  qed
qed

section \<open>The invariant\<close>

text \<open>\<open>asg\<close> assigns to a sequence number the type and the plaintext it stands for.\<close>

type_synonym assignment = "u64 \<Rightarrow> byte \<times> bytes"

definition frame_ok :: "assignment \<Rightarrow> bytes \<Rightarrow> u64 \<Rightarrow> bytes \<Rightarrow> bool" where
  "frame_ok asg sid n b \<longleftrightarrow>
     (encrypted b \<longrightarrow> (\<exists>k s. s \<le> n \<and> b = frame_bytes (sealed k (fst (asg s)) sid s (snd (asg s)))))"

definition item_ok :: "assignment \<Rightarrow> u64 \<Rightarrow> u64 \<times> bytes \<Rightarrow> bool" where
  "item_ok asg n = (\<lambda>(s, m). s \<le> n \<and> length m + 28 < 2 ^ 32
     \<and> asg s = (MsgTypeDataStream, PadPayload m DefaultPaddingTargetSize))"

definition log_inv :: "assignment \<Rightarrow> publisher \<Rightarrow> bool" where
  "log_inv asg p \<longleftrightarrow> list_all (item_ok asg (pb_seqCounter p)) (ring_items (pb_replayBuffer p))
     \<and> list_all (frame_ok asg (pb_sessionID p) (pb_seqCounter p)) (sent p)"

definition base_inv :: "publisher \<Rightarrow> bool" where
  "base_inv p \<longleftrightarrow> ring_inv (pb_replayBuffer p) \<and> length (pb_sessionID p) = 16
     \<and> (case pb_cipher p of None \<Rightarrow> True | Some c \<Rightarrow> \<exists>k. c = keyed k)"

definition nonce_inv :: "publisher \<Rightarrow> bool" where
  "nonce_inv p \<longleftrightarrow> base_inv p \<and> (\<exists>asg. log_inv asg p)"

lemma frame_ok_plain: "\<not> encrypted b \<Longrightarrow> frame_ok asg sid n b"
  by (simp add: frame_ok_def)

text \<open>An operation that only writes.\<close>

definition writes :: "publisher \<Rightarrow> bytes list \<Rightarrow> publisher \<Rightarrow> bool" where
  "writes p x p' \<longleftrightarrow> sent p' = sent p @ x \<and> pb_replayBuffer p' = pb_replayBuffer p \<and> pb_sessionID p' = pb_sessionID p
     \<and> pb_cipher p' = pb_cipher p \<and> pb_seqCounter p' = pb_seqCounter p"

lemma writes_refl: "writes p [] p"
  by (simp add: writes_def)

lemma writes_trans: "writes p x q \<Longrightarrow> writes q y r \<Longrightarrow> writes p (x @ y) r"
  by (simp add: writes_def)

lemma log_inv_writes:
  "log_inv asg p \<Longrightarrow> writes p x p' \<Longrightarrow> list_all (frame_ok asg (pb_sessionID p) (pb_seqCounter p)) x \<Longrightarrow> log_inv asg p'"
  by (simp add: log_inv_def writes_def)

lemma base_inv_writes: "base_inv p \<Longrightarrow> writes p x p' \<Longrightarrow> base_inv p'"
  by (simp add: base_inv_def writes_def)

lemma nonce_inv_plain:
  assumes "nonce_inv p" "writes p x p'" "list_all (\<lambda>b. \<not> encrypted b) x"
  shows "nonce_inv p'"
proof -
  have "list_all (frame_ok asg (pb_sessionID p) (pb_seqCounter p)) x" for asg
    using assms(3) by (auto simp: list_all_iff frame_ok_plain)
  then show ?thesis
    using assms(1,2) base_inv_writes log_inv_writes unfolding nonce_inv_def by blast
qed

section \<open>The operations\<close>

lemma sent_conn: "pb_conn p = Some c \<Longrightarrow> sent (p\<lparr>pb_conn := Some (c\<lparr>cn_out := cn_out c @ x\<rparr>)\<rparr>) = sent p @ x"
  by (simp add: sent_def wire_def)

lemma sendFrame_writes:
  assumes "wf_env e" "sendFrame e p = (r, p')"
  shows "\<exists>x. writes p x p' \<and> list_all (\<lambda>b. type_of b = env_MsgType e) x"
proof (cases "pb_conn p")
  case None
  then show ?thesis using assms(2) writes_refl [of p] by (intro exI [of _ "[]"]) (simp add: sendFrame_def)
next
  case (Some c)
  obtain r' c' where e: "Encode framePool_New c e = (r', c')" by fastforce
  from Encode_shape [OF assms(1) this] obtain x where "c' = c\<lparr>cn_out := cn_out c @ x\<rparr>" "list_all (\<lambda>b. type_of b = env_MsgType e) x"
    by blast
  then show ?thesis
    using assms(2) Some e sent_conn [OF Some]
    by (intro exI [of _ x]) (auto simp: sendFrame_def writes_def split: sum.splits)
qed

lemma sendFrame_sealed:
  assumes "length sid = 16" "length pt + 24 < 2 ^ 32" "sendFrame (sealed k ty sid n pt) p = (r, p')"
  shows "\<exists>x. writes p x p' \<and> (x = [] \<or> x = [frame_bytes (sealed k ty sid n pt)])"
proof (cases "pb_conn p")
  case None
  then show ?thesis using assms(3) writes_refl [of p] by (intro exI [of _ "[]"]) (simp add: sendFrame_def)
next
  case (Some c)
  obtain r' c' where e: "Encode framePool_New c (sealed k ty sid n pt) = (r', c')" by fastforce
  from Encode_sealed [OF assms(1,2) this] obtain x where "c' = c\<lparr>cn_out := cn_out c @ x\<rparr>" "x = [] \<or> x = [frame_bytes (sealed k ty sid n pt)]"
    by blast
  then show ?thesis
    using assms(3) Some e sent_conn [OF Some]
    by (intro exI [of _ x]) (auto simp: sendFrame_def writes_def split: sum.splits)
qed

text \<open>A new sequence number is free: the assignment can be extended there.\<close>

lemma next_free:
  assumes "log_inv asg p" "unat (pb_seqCounter p) + 1 < 2 ^ 64"
  shows "list_all (item_ok (asg(pb_seqCounter p + 1 := v)) (pb_seqCounter p + 1)) (ring_items (pb_replayBuffer p))"
    and "list_all (frame_ok (asg(pb_seqCounter p + 1 := v)) (pb_sessionID p) (pb_seqCounter p + 1)) (sent p)"
proof -
  let ?n = "pb_seqCounter p"
  have lt: "s \<noteq> ?n + 1 \<and> s \<le> ?n + 1" if "s \<le> ?n" for s
    using next_seq [OF assms(2) that] by auto
  show "list_all (item_ok (asg(?n + 1 := v)) (?n + 1)) (ring_items (pb_replayBuffer p))"
    using assms(1) lt by (auto simp: log_inv_def item_ok_def list_all_iff)
  show "list_all (frame_ok (asg(?n + 1 := v)) (pb_sessionID p) (?n + 1)) (sent p)"
    using assms(1) lt by (fastforce simp: log_inv_def frame_ok_def list_all_iff)
qed

lemma seal_send_nonce:
  assumes "base_inv p" "log_inv asg p" "unat (pb_seqCounter p) + 1 < 2 ^ 64" "length pt + 24 < 2 ^ 32"
    and "base_inv p1" "pb_seqCounter p1 = pb_seqCounter p + 1" "pb_sessionID p1 = pb_sessionID p" "sent p1 = sent p"
    and "list_all (item_ok (asg(pb_seqCounter p + 1 := (ty, pt))) (pb_seqCounter p + 1)) (ring_items (pb_replayBuffer p1))"
    and "sendFrame (sealed k ty (pb_sessionID p) (pb_seqCounter p + 1) pt) p1 = (r, p2)"
  shows "nonce_inv p2"
proof -
  let ?n = "pb_seqCounter p + 1"
  let ?asg = "asg(?n := (ty, pt))"
  have sid: "length (pb_sessionID p) = 16" using assms(1) by (simp add: base_inv_def)
  obtain x where x: "writes p1 x p2" "x = [] \<or> x = [frame_bytes (sealed k ty (pb_sessionID p) ?n pt)]"
    using sendFrame_sealed [OF sid assms(4,10)] by blast
  have "log_inv ?asg p1"
    using next_free(2) [OF assms(2,3), of "(ty, pt)"] assms(6-9) by (simp add: log_inv_def)
  moreover have "frame_ok ?asg (pb_sessionID p) ?n (frame_bytes (sealed k ty (pb_sessionID p) ?n pt))"
    unfolding frame_ok_def by (intro impI exI [of _ k] exI [of _ ?n]) simp
  then have "list_all (frame_ok ?asg (pb_sessionID p) ?n) x"
    using x(2) by (metis list.pred_inject)
  then have "list_all (frame_ok ?asg (pb_sessionID p1) (pb_seqCounter p1)) x"
    unfolding assms(6,7) .
  ultimately have "log_inv ?asg p2" by (rule log_inv_writes [OF _ x(1)])
  then show ?thesis using base_inv_writes [OF assms(5) x(1)] by (auto simp: nonce_inv_def)
qed

lemma publish_sealed_nonce:
  assumes "nonce_inv p" "unat (pb_seqCounter p) + 1 < 2 ^ 64" "length m + 28 < 2 ^ 32"
  shows "nonce_inv (snd (publish_sealed m p))"
proof (cases "pb_cipher p")
  case None
  then show ?thesis using assms(1) by (simp add: publish_sealed_def)
next
  case (Some c)
  obtain asg where i: "base_inv p" "log_inv asg p" using assms(1) by (auto simp: nonce_inv_def)
  obtain k where c: "c = keyed k" using i(1) Some by (auto simp: base_inv_def)
  let ?n = "pb_seqCounter p + 1" and ?pt = "PadPayload m DefaultPaddingTargetSize"
  let ?p = "p\<lparr>pb_seqCounter := ?n, pb_replayBuffer := Push ?n m (pb_replayBuffer p)\<rparr>"
  have inv: "ring_inv (pb_replayBuffer p)" "length (pb_sessionID p) = 16" using i(1) by (simp_all add: base_inv_def)
  obtain r p2 where s: "sendFrame (sealed k MsgTypeDataStream (pb_sessionID p) ?n ?pt) ?p = (r, p2)" by fastforce
  have "set (ring_items (Push ?n m (pb_replayBuffer p))) \<subseteq> insert (?n, m) (set (ring_items (pb_replayBuffer p)))"
    unfolding Push_refines(3) [OF inv(1)] by (auto dest: in_set_dropD)
  then have "list_all (item_ok (asg(?n := (MsgTypeDataStream, ?pt))) ?n) (ring_items (Push ?n m (pb_replayBuffer p)))"
    using next_free(1) [OF i(2) assms(2), of "(MsgTypeDataStream, ?pt)"] assms(3)
    by (fastforce simp: list_all_iff item_ok_def)
  then have "nonce_inv p2"
    using i s assms(2,3) inv Push_refines(1) [OF inv(1)]
    by (intro seal_send_nonce [OF i assms(2) _ _ _ _ _ _ s])
      (auto simp: length_PadPayload DefaultPaddingTargetSize_def lenPrefixSize_def base_inv_def sent_def wire_def)
  then show ?thesis
    using Some c s inv(2) by (simp add: publish_sealed_def Let_def seal_frame_eq)
qed

lemma rekey_send_nonce:
  assumes "nonce_inv p" "unat (pb_seqCounter p) + 1 < 2 ^ 64"
  shows "nonce_inv (snd (rekey_send rnd p))"
proof (cases "pb_cipher p = None \<or> GetKey (the (pb_cipher p)) = None \<or> rnd = None")
  case True
  then show ?thesis
    using assms(1) by (auto simp: rekey_send_def GenerateNonce_def split: option.splits)
next
  case False
  obtain asg where i: "base_inv p" "log_inv asg p" using assms(1) by (auto simp: nonce_inv_def)
  obtain k where c: "pb_cipher p = Some (keyed k)" using i(1) False by (auto simp: base_inv_def)
  obtain salt where g: "GenerateNonce rnd = Inr salt" using False by (auto simp: GenerateNonce_def)
  let ?n = "pb_seqCounter p + 1"
  let ?p = "p\<lparr>pb_seqCounter := ?n\<rparr>"
  obtain r p2 where s: "sendFrame (sealed k MsgTypeRekey (pb_sessionID p) ?n salt) ?p = (r, p2)" by fastforce
  have sid: "length (pb_sessionID p) = 16" using i(1) by (simp add: base_inv_def)
  have "nonce_inv p2"
    using i next_free(1) [OF i(2) assms(2)] GenerateNonce_length [OF g]
    by (intro seal_send_nonce [OF i assms(2) _ _ _ _ _ _ s]) (auto simp: base_inv_def sent_def wire_def)
  then show ?thesis
    using False c g s sid by (auto simp: rekey_send_def Let_def seal_frame_eq split: option.splits sum.splits)
qed

lemma rekey_commit_nonce: "nonce_inv p \<Longrightarrow> nonce_inv (snd (rekey_commit now k salt p))"
  by (auto simp: rekey_commit_def UpdateKey_eq nonce_inv_def base_inv_def log_inv_def sent_def wire_def Let_def
      split: sum.splits option.splits if_splits prod.splits)

lemma item_frame_ok:
  "item_ok asg n (msg_of item) \<Longrightarrow> frame_ok asg sid n
     (frame_bytes (sealed k MsgTypeDataStream sid (sm_SeqNum item) (PadPayload (payload_bytes item) DefaultPaddingTargetSize)))"
  unfolding frame_ok_def item_ok_def msg_of_def by (intro impI exI [of _ k] exI [of _ "sm_SeqNum item"]) simp

lemma replay_loop_nonce:
  "base_inv p \<Longrightarrow> log_inv asg p \<Longrightarrow> list_all (\<lambda>item. item_ok asg (pb_seqCounter p) (msg_of item)) items \<Longrightarrow>
   log_inv asg (replay_loop (keyed k) items p) \<and> (\<exists>x. writes p x (replay_loop (keyed k) items p))"
proof (induction items arbitrary: p)
  case Nil
  then show ?case using writes_refl by auto
next
  case (Cons item items)
  let ?e = "sealed k MsgTypeDataStream (pb_sessionID p) (sm_SeqNum item) (PadPayload (payload_bytes item) DefaultPaddingTargetSize)"
  have sid: "length (pb_sessionID p) = 16" using Cons.prems(1) by (simp add: base_inv_def)
  obtain r p1 where s: "sendFrame ?e p = (r, p1)" by fastforce
  have it: "item_ok asg (pb_seqCounter p) (msg_of item)" using Cons.prems(3) by simp
  then have "length (PadPayload (payload_bytes item) DefaultPaddingTargetSize) + 24 < 2 ^ 32"
    by (simp add: item_ok_def msg_of_def length_PadPayload DefaultPaddingTargetSize_def lenPrefixSize_def)
  from sendFrame_sealed [OF sid this s] obtain x where x: "writes p x p1" "x = [] \<or> x = [frame_bytes ?e]" by blast
  have "list_all (frame_ok asg (pb_sessionID p) (pb_seqCounter p)) x"
    using x(2) item_frame_ok [OF it] by (metis list.pred_inject)
  then have p1: "log_inv asg p1" by (rule log_inv_writes [OF Cons.prems(2) x(1)])
  have "pb_seqCounter p1 = pb_seqCounter p" using x(1) by (simp add: writes_def)
  then have "log_inv asg (replay_loop (keyed k) items p1) \<and> (\<exists>y. writes p1 y (replay_loop (keyed k) items p1))"
    using Cons.IH [OF base_inv_writes [OF Cons.prems(1) x(1)] p1] Cons.prems(3) by simp
  moreover have "replay_loop (keyed k) (item # items) p = replay_loop (keyed k) items p1"
    using s sid by (simp add: seal_frame_eq)
  ultimately show ?case using writes_trans [OF x(1)] by auto
qed

lemma put_all_inv: "pool_inv pool \<Longrightarrow> list_all occupied_ok items \<Longrightarrow> pool_inv (fold (\<lambda>item. putBuffer (sm_Payload item)) items pool)"
  by (induction items arbitrary: pool) (auto simp: occupied_ok_def putBuffer_inv)

lemma put_items_nonce:
  "base_inv p \<Longrightarrow> log_inv asg p \<Longrightarrow> list_all occupied_ok items \<Longrightarrow> nonce_inv (put_items items p)"
  by (auto simp: nonce_inv_def base_inv_def log_inv_def put_items_def ring_inv_def ring_items_def put_all_inv sent_def wire_def)

lemma replaySync_nonce:
  assumes "nonce_inv p"
  shows "nonce_inv (replaySyncForSubscriber l p)"
proof -
  obtain asg where i: "base_inv p" "log_inv asg p" using assms by (auto simp: nonce_inv_def)
  obtain rb items where g: "GetAfter l (pb_replayBuffer p) = (rb, items)" by fastforce
  have "ring_inv (pb_replayBuffer p)" using i(1) by (simp add: base_inv_def)
  note g' = GetAfter_spec [OF this g]
  let ?p = "p\<lparr>pb_replayBuffer := rb\<rparr>"
  have p: "base_inv ?p" "log_inv asg ?p"
    using i g' by (auto simp: base_inv_def log_inv_def ring_items_def sent_def wire_def)
  have "list_all (item_ok asg (pb_seqCounter p)) (map msg_of items)"
    using i(2) unfolding g'(4) by (auto simp: log_inv_def list_all_iff)
  then have it: "list_all (\<lambda>item. item_ok asg (pb_seqCounter ?p) (msg_of item)) items" by (simp add: list.pred_map comp_def)
  show ?thesis
  proof (cases "pb_cipher p = None \<or> pb_conn p = None")
    case True
    then show ?thesis
      using put_items_nonce [OF p g'(3)] g by (auto simp: replaySyncForSubscriber_def Let_def split: option.splits)
  next
    case False
    then obtain k c where c: "pb_cipher p = Some (keyed k)" "pb_conn p = Some c" using i(1) by (auto simp: base_inv_def)
    obtain x where "log_inv asg (replay_loop (keyed k) items ?p)" "writes ?p x (replay_loop (keyed k) items ?p)"
      using replay_loop_nonce [OF p it, of k] by blast
    then show ?thesis
      using put_items_nonce [OF base_inv_writes [OF p(1)] _ g'(3)] g c by (simp add: replaySyncForSubscriber_def)
  qed
qed

text \<open>Reading leaves what was written.\<close>

lemma DecodeWithMax_out: "DecodeWithMax c mx = (r, c') \<Longrightarrow> cn_out c' = cn_out c"
  by (auto simp: DecodeWithMax_def Let_def dest!: ReadFull_writes split: prod.splits sum.splits if_splits)

lemma Decode_out: "Decode c = (r, c') \<Longrightarrow> cn_out c' = cn_out c"
  unfolding Decode_def by (rule DecodeWithMax_out)

lemma confirm_loop_out: "confirm_loop n peer c = (r, c') \<Longrightarrow> cn_out c' = cn_out c"
  by (induction n arbitrary: c) (auto dest: Decode_out split: prod.splits sum.splits if_splits)

lemma writes_read: "pb_conn p = Some c \<Longrightarrow> cn_out c' = cn_out c \<Longrightarrow> writes p [] (p\<lparr>pb_conn := Some c'\<rparr>)"
  by (simp add: writes_def sent_def wire_def)

lemma plain_wf: "length sid = 16 \<Longrightarrow> wf_env (plain_env ty sid b)"
  by (simp add: plain_env_def wf_env_def SessionIDSize_def NonceSize_def zero_nonce_def)

lemma answer_peer_plain: "answer_peer rnd sid mk peer = Inr e \<Longrightarrow> \<exists>b. e = plain_env MsgTypePAKEStep2 sid b"
  by (auto simp: answer_peer_def step2_env_def plain_env_def split: sum.splits)

lemma plain_not_encrypted:
  "list_all (\<lambda>b. type_of b = ty) x \<Longrightarrow> ty \<noteq> MsgTypeDataStream \<Longrightarrow> ty \<noteq> MsgTypeRekey \<Longrightarrow> list_all (\<lambda>b. \<not> encrypted b) x"
  by (auto simp: encrypted_def list_all_iff)

lemma send_plain_nonce:
  assumes "nonce_inv p" "ty \<noteq> MsgTypeDataStream" "ty \<noteq> MsgTypeRekey"
  shows "nonce_inv (snd (sendFrame (plain_env ty (pb_sessionID p) b) p))"
proof -
  have "length (pb_sessionID p) = 16" using assms(1) by (simp add: nonce_inv_def base_inv_def)
  then show ?thesis
    using sendFrame_writes [OF plain_wf, of "pb_sessionID p" ty b p] assms nonce_inv_plain plain_not_encrypted
    by (metis plain_env_sel(2) prod.collapse)
qed

lemma rejoin_nonce: "nonce_inv p \<Longrightarrow> nonce_inv (rejoin P prnd rnd b p)"
  using send_plain_nonce [of p MsgTypePAKEStep2]
  by (auto simp: rejoin_def Let_def msgtype_defs dest!: answer_peer_plain split: option.splits sum.splits)

lemma handleSync_nonce:
  assumes "nonce_inv p"
  shows "nonce_inv (snd (handleSync_step P prnd rnd p))"
proof (cases "pb_conn p")
  case None
  then show ?thesis using assms by (simp add: handleSync_step_def)
next
  case (Some c)
  obtain r c' where d: "Decode c = (r, c')" by fastforce
  have p: "nonce_inv (p\<lparr>pb_conn := Some c'\<rparr>)"
    using nonce_inv_plain [OF assms writes_read [OF Some Decode_out [OF d]]] by simp
  have "nonce_inv (p\<lparr>pb_conn := Some c', pb_chunkAckChan := a\<rparr>)" for a
    using p by (simp add: nonce_inv_def base_inv_def log_inv_def sent_def wire_def)
  then show ?thesis
    using Some d p rejoin_nonce [OF p] replaySync_nonce [OF p]
    by (auto simp: handleSync_step_def Let_def split: sum.splits option.splits)
qed

lemma close_nonce:
  assumes "nonce_inv p"
  shows "nonce_inv (Publisher_Close p)"
proof -
  obtain asg where i: "base_inv p" "log_inv asg p" using assms by (auto simp: nonce_inv_def)
  have sid: "length (pb_sessionID p) = 16" "ring_inv (pb_replayBuffer p)" using i(1) by (simp_all add: base_inv_def)
  note w = Wipe_spec [OF sid(2)]
  have "\<exists>x. list_all (\<lambda>b. \<not> encrypted b) x \<and> sent (Publisher_Close p) = sent p @ x"
  proof (cases "pb_closed p \<or> pb_conn p = None")
    case True
    then show ?thesis by (intro exI [of _ "[]"]) (auto simp: Publisher_Close_def sent_def wire_def Let_def)
  next
    case False
    then obtain c where c: "pb_conn p = Some c" by auto
    let ?e = "plain_env MsgTypeClose (pb_sessionID p) []"
    obtain r c' where e: "Encode framePool_New c ?e = (r, c')" by fastforce
    from Encode_shape [OF plain_wf [OF sid(1)] this] obtain x
      where x: "c' = c\<lparr>cn_out := cn_out c @ x\<rparr>" "list_all (\<lambda>b. type_of b = MsgTypeClose) x" by auto
    then have "list_all (\<lambda>b. \<not> encrypted b) x" by (intro plain_not_encrypted) (auto simp: msgtype_defs)
    then show ?thesis
      using False c e x(1) unfolding plain_env_def
      by (intro exI [of _ x]) (simp add: Publisher_Close_def sent_def wire_def Let_def conn_Close_def)
  qed
  then obtain x where x: "list_all (\<lambda>b. \<not> encrypted b) x" "sent (Publisher_Close p) = sent p @ x" by blast
  show ?thesis
  proof (cases "pb_closed p")
    case True
    then show ?thesis using assms by (simp add: Publisher_Close_def)
  next
    case False
    then have "pb_replayBuffer (Publisher_Close p) = Wipe (pb_replayBuffer p)" "pb_cipher (Publisher_Close p) = None"
      "pb_sessionID (Publisher_Close p) = pb_sessionID p" "pb_seqCounter (Publisher_Close p) = pb_seqCounter p"
      by (simp_all add: Publisher_Close_def Let_def split: option.split)
    then show ?thesis
      using i sid(1) w x by (auto simp: nonce_inv_def base_inv_def log_inv_def list_all_iff frame_ok_plain intro!: exI [of _ asg])
  qed
qed

text \<open>A network hands out connections to which nothing was written yet.\<close>

definition fresh_net :: "net_env \<Rightarrow> bool" where
  "fresh_net N \<longleftrightarrow> (\<forall>m a f c. dial_transport N m a f = Some c \<longrightarrow> cn_out c = [])"

lemma nonce_inv_pake [simp]:
  "nonce_inv (p\<lparr>pb_pakePeer := q\<rparr>) = nonce_inv p"
  "nonce_inv (p\<lparr>pb_pakePeer := q, pb_conn := c\<rparr>) = nonce_inv (p\<lparr>pb_conn := c\<rparr>)"
  "nonce_inv (p\<lparr>pb_conn := c, pb_pakePeer := q, pb_conn := d\<rparr>) = nonce_inv (p\<lparr>pb_conn := d\<rparr>)"
  by (simp_all add: nonce_inv_def base_inv_def log_inv_def sent_def wire_def)

lemma connect_nonce:
  assumes "nonce_inv p" "fresh_net N"
  shows "nonce_inv (snd (Publisher_Connect P N rnd p))"
proof (cases "dial_transport N (pb_transportMode p) (pb_relayAddr p) (pb_expectedFingerprint p)")
  case None
  then show ?thesis using assms(1) by (simp add: Publisher_Connect_def)
next
  case (Some c)
  let ?p = "p\<lparr>pb_gone := pb_gone p @ gone (pb_conn p), pb_conn := Some c\<rparr>"
  have c: "cn_out c = []" using assms(2) Some by (simp add: fresh_net_def)
  then have p: "nonce_inv ?p"
    using nonce_inv_plain [OF assms(1), of "[]" ?p] by (auto simp: writes_def sent_def wire_def gone_def split: option.split)
  have sid: "length (pb_sessionID p) = 16" using assms(1) by (simp add: nonce_inv_def base_inv_def)
  have closed: "nonce_inv (?p\<lparr>pb_conn := Some (c'\<lparr>cn_closed := b\<rparr>)\<rparr>) = nonce_inv (?p\<lparr>pb_conn := Some c'\<rparr>)" for b c'
    by (simp add: nonce_inv_def base_inv_def log_inv_def sent_def wire_def)
  have step: "nonce_inv (?p\<lparr>pb_conn := Some c'\<rparr>)"
    if "Encode framePool_New c (plain_env MsgTypePAKEInitPub (pb_sessionID p) b) = (r, c')" for b r c'
  proof -
    from Encode_shape [OF plain_wf [OF sid] that] obtain x
      where x: "c' = c\<lparr>cn_out := cn_out c @ x\<rparr>" "list_all (\<lambda>b. type_of b = MsgTypePAKEInitPub) x" by auto
    then have "list_all (\<lambda>b. \<not> encrypted b) x" by (intro plain_not_encrypted) (auto simp: msgtype_defs)
    then show ?thesis
      using nonce_inv_plain [OF p, of x] x(1) by (simp add: writes_def sent_def wire_def)
  qed
  have eq: "Publisher_Connect P N rnd p =
      (case (case pb_pakePeer p of Some peer \<Rightarrow> Inr peer | None \<Rightarrow> NewPAKEPublisher P rnd (payload_of (pb_passphrase p))) of
         Inl e \<Rightarrow> (Inl (ErrCrypto e), ?p\<lparr>pb_conn := Some (conn_Close c)\<rparr>)
       | Inr peer \<Rightarrow>
           (case Encode framePool_New c (plain_env MsgTypePAKEInitPub (pb_sessionID p) (payload_of (Bytes (Some peer)))) of
              (Inl e, c') \<Rightarrow> (Inl (ErrProto e), ?p\<lparr>pb_pakePeer := Some peer, pb_conn := Some (conn_Close c')\<rparr>)
            | (Inr _, c') \<Rightarrow> (Inr (), ?p\<lparr>pb_pakePeer := Some peer, pb_conn := Some c'\<rparr>)))"
    using Some by (simp add: Publisher_Connect_def Let_def plain_env_def split: option.split sum.split)
  have "nonce_inv (?p\<lparr>pb_conn := Some (conn_Close c)\<rparr>)" using p closed [of _ c] by (simp add: conn_Close_def)
  then show ?thesis
    using step closed unfolding eq conn_Close_def
    by (auto split: option.split sum.split prod.split)
qed

lemma handshake_nonce:
  assumes "nonce_inv p"
  shows "nonce_inv (snd (Publisher_CompleteHandshake P rnd p))"
proof (cases "pb_conn p")
  case None
  then show ?thesis using assms by (simp add: Publisher_CompleteHandshake_def)
next
  case (Some c)
  obtain r c' where d: "Decode c = (r, c')" by fastforce
  let ?p = "p\<lparr>pb_conn := Some c'\<rparr>"
  have p: "nonce_inv ?p"
    using nonce_inv_plain [OF assms writes_read [OF Some Decode_out [OF d]]] by simp
  have sid: "length (pb_sessionID p) = 16" using assms by (simp add: nonce_inv_def base_inv_def)
  have enc: "nonce_inv (p\<lparr>pb_conn := Some c2\<rparr>)"
    if "Encode framePool_New c' (plain_env MsgTypePAKEStep2 (pb_sessionID p) b) = (r', c1)" "cn_out c2 = cn_out c1" for b r' c1 c2
  proof -
    from Encode_shape [OF plain_wf [OF sid] that(1)] obtain x
      where x: "c1 = c'\<lparr>cn_out := cn_out c' @ x\<rparr>" "list_all (\<lambda>b. type_of b = MsgTypePAKEStep2) x" by auto
    then have "list_all (\<lambda>b. \<not> encrypted b) x" by (intro plain_not_encrypted) (auto simp: msgtype_defs)
    then show ?thesis
      using nonce_inv_plain [OF p, of x "p\<lparr>pb_conn := Some c2\<rparr>"] x(1) that(2) by (simp add: writes_def sent_def wire_def)
  qed
  show ?thesis
    using Some d p confirm_loop_out
    by (auto simp: Publisher_CompleteHandshake_def Let_def dest!: answer_peer_plain
        intro: enc split: sum.split prod.split option.split)
qed

section \<open>Runs\<close>

text \<open>
  The operations on an engine, at the granularity at which they can interleave. The key and salt
  of a commit are free, so that any number of rekeys may overlap.
\<close>

datatype pub_op =
    PoCount time bytes
  | PoRekeySend "bytes option"
  | PoRekeyCommit time bytes bytes
  | PoPublish bytes
  | PoTick
  | PoSync prims pake_rnd hs_rnd
  | PoConnect prims net_env pake_rnd
  | PoHandshake prims hs_rnd
  | PoClose

fun pub_step :: "pub_op \<Rightarrow> publisher \<Rightarrow> publisher" where
  "pub_step (PoCount now m) p = snd (count_payload now m p)"
| "pub_step (PoRekeySend rnd) p = snd (rekey_send rnd p)"
| "pub_step (PoRekeyCommit now k salt) p = snd (rekey_commit now k salt p)"
| "pub_step (PoPublish m) p = snd (publish_sealed m p)"
| "pub_step PoTick p = snd (sendFrame (heartbeat_env (pb_sessionID p)) p)"
| "pub_step (PoSync P prnd rnd) p = snd (handleSync_step P prnd rnd p)"
| "pub_step (PoConnect P N rnd) p = snd (Publisher_Connect P N rnd p)"
| "pub_step (PoHandshake P rnd) p = snd (Publisher_CompleteHandshake P rnd p)"
| "pub_step PoClose p = Publisher_Close p"

text \<open>Payloads shorter than 4 GiB, and connections that are new.\<close>

fun op_ok :: "pub_op \<Rightarrow> bool" where
  "op_ok (PoPublish m) = (length m + 28 < 2 ^ 32)"
| "op_ok (PoConnect P N rnd) = fresh_net N"
| "op_ok _ = True"

lemma pub_step_nonce:
  assumes "nonce_inv p" "op_ok op" "unat (pb_seqCounter p) + 1 < 2 ^ 64"
  shows "nonce_inv (pub_step op p)"
proof (cases op)
  case (PoCount now m)
  then show ?thesis
    using assms(1) by (simp add: count_payload_def Let_def nonce_inv_def base_inv_def log_inv_def sent_def wire_def)
next
  case PoTick
  then show ?thesis
    using send_plain_nonce [OF assms(1), of MsgTypeHeartbeat "[]"] by (simp add: heartbeat_env_def plain_env_def msgtype_defs)
qed (use assms in \<open>simp_all add: rekey_send_nonce rekey_commit_nonce publish_sealed_nonce handleSync_nonce connect_nonce
  handshake_nonce close_nonce\<close>)

lemma sendFrame_seq [simp]: "pb_seqCounter (snd (sendFrame e p)) = pb_seqCounter p"
  by (simp add: sendFrame_def split: option.split prod.split sum.split)

lemma replay_loop_seq [simp]: "pb_seqCounter (replay_loop c items p) = pb_seqCounter p"
  by (induction items arbitrary: p) (simp_all split: sum.split)

lemma pub_step_seq: "pb_seqCounter (pub_step op p) = pb_seqCounter p \<or> pb_seqCounter (pub_step op p) = pb_seqCounter p + 1"
proof -
  have s: "pb_seqCounter p' = pb_seqCounter q" if "sendFrame e q = (r, p')" for e q r p'
    using sendFrame_seq [of e q] that by simp
  show ?thesis
  proof (cases op)
    case (PoSync P prnd rnd)
    have "pb_seqCounter (replaySyncForSubscriber l q) = pb_seqCounter q" for l q
      by (simp add: replaySyncForSubscriber_def put_items_def Let_def split: prod.split option.split)
    moreover have "pb_seqCounter (rejoin P prnd rnd b q) = pb_seqCounter q" for b q
      by (simp add: rejoin_def Let_def split: option.split sum.split)
    ultimately show ?thesis
      using PoSync by (simp add: handleSync_step_def Let_def split: option.split prod.split sum.split)
  qed (auto simp: count_payload_def rekey_send_def rekey_commit_def publish_sealed_def Publisher_Connect_def
      Publisher_CompleteHandshake_def Publisher_Close_def Let_def dest!: s split: option.split sum.split prod.split)
qed

lemma unat_suc_le: "unat (n + 1 :: u64) \<le> unat n + 1"
  using unat_word_ariths(1) [of n 1] by (simp add: mod_le_divisor order.trans [OF mod_less_eq_dividend])

lemma run_nonce:
  "nonce_inv p \<Longrightarrow> list_all op_ok ops \<Longrightarrow> unat (pb_seqCounter p) + length ops < 2 ^ 64 \<Longrightarrow> nonce_inv (fold pub_step ops p)"
proof (induction ops arbitrary: p)
  case (Cons op ops)
  have "nonce_inv (pub_step op p)" using Cons.prems by (intro pub_step_nonce) auto
  moreover have "unat (pb_seqCounter (pub_step op p)) \<le> unat (pb_seqCounter p) + 1"
    using pub_step_seq [of op p] unat_suc_le [of "pb_seqCounter p"] by auto
  ultimately show ?case using Cons.IH [of "pub_step op p"] Cons.prems by simp
qed simp

lemma new_publisher_nonce:
  assumes "NewPublisherEngine P now rnd mk me pw addr reg = (Inr p, reg')"
  shows "nonce_inv p" "pb_seqCounter p = 0" "pb_sessionID p = DeriveSessionID P pw"
proof -
  have p: "pb_replayBuffer p = ([], NewRingBuffer 100)" "sent p = []"
    using assms by (auto simp: NewPublisherEngine_def Let_def sent_def wire_def split: sum.splits option.splits prod.splits)
  obtain k where "pb_cipher p = Some (keyed k)" "pb_sessionID p = DeriveSessionID P pw" "pb_seqCounter p = 0"
    using NewPublisherEngine_fields [OF assms] by blast
  then show "nonce_inv p" "pb_seqCounter p = 0" "pb_sessionID p = DeriveSessionID P pw"
    using p NewRingBuffer_inv [of "[]" 100]
    by (auto simp: nonce_inv_def base_inv_def log_inv_def SessionIDSize_def pool_inv_def)
qed

text \<open>C3: an AEAD nonce is never used for two plaintexts. Take a new publisher and any sequence of its
  operations, in any interleaving: payloads, key changes (also overlapping ones), heartbeats,
  replays and handshakes for returning subscribers, reconnections and \<open>Close\<close>, fewer than
  \<open>2^64\<close> of them. If two encrypted frames that were ever written carry the same nonce then
  they have the same type and the same plaintext, and so are equal if the key is the same.\<close>

theorem nonces_never_reused:
  assumes "NewPublisherEngine P now rnd mk me pw addr reg = (Inr p0, reg')"
    and "list_all op_ok ops" and "length ops < 2 ^ 64" and "p = fold pub_step ops p0"
    and "b1 \<in> set (sent p)" "b2 \<in> set (sent p)" and "encrypted b1" "encrypted b2" and "nonce_of b1 = nonce_of b2"
  shows "\<exists>k1 k2 ty n pt. b1 = frame_bytes (sealed k1 ty (pb_sessionID p) n pt)
     \<and> b2 = frame_bytes (sealed k2 ty (pb_sessionID p) n pt)"
proof -
  have "nonce_inv p"
    unfolding assms(4) using assms(2,3) new_publisher_nonce [OF assms(1)] by (intro run_nonce) auto
  then obtain asg where i: "length (pb_sessionID p) = 16"
      "list_all (frame_ok asg (pb_sessionID p) (pb_seqCounter p)) (sent p)"
    by (auto simp: nonce_inv_def base_inv_def log_inv_def)
  obtain k1 s1 where b1: "b1 = frame_bytes (sealed k1 (fst (asg s1)) (pb_sessionID p) s1 (snd (asg s1)))"
    using i(2) assms(5,7) by (auto simp: list_all_iff frame_ok_def)
  obtain k2 s2 where b2: "b2 = frame_bytes (sealed k2 (fst (asg s2)) (pb_sessionID p) s2 (snd (asg s2)))"
    using i(2) assms(6,8) by (auto simp: list_all_iff frame_ok_def)
  have "nonce_of (frame_bytes (sealed k ty (pb_sessionID p) s pt)) = frame_nonce (pb_sessionID p) s" for k ty s pt
    using i(1) by (simp add: nonce_of_frame wf_env_def SessionIDSize_def NonceSize_def)
  then have "PutUint64 s1 = PutUint64 s2" using assms(9) b1 b2 by (simp add: frame_nonce_def)
  then have "s1 = s2" using u64be.get_put by metis
  then show ?thesis using b1 b2 by blast
qed

lemma sample_fresh_net: "fresh_net sample_net"
  by (auto simp: fresh_net_def dial_transport_def DialRelayWithPin_def tls_dial_def sample_net_def fresh_conn_def Let_def
      split: option.splits prod.splits if_splits)

lemma sample_run:
  "\<exists>p0 reg' b. NewPublisherEngine sample_prims 0 sample_rnd (Some [2]) 1 [7] ''relay:9000'' sample_mem = (Inr p0, reg')
     \<and> b \<in> set (sent (fold pub_step [PoConnect sample_prims sample_net sample_rnd, PoPublish [1]] p0)) \<and> encrypted b"
proof -
  obtain p0 reg1 where e: "NewPublisherEngine sample_prims 0 sample_rnd (Some [2]) 1 [7] ''relay:9000'' sample_mem = (Inr p0, reg1)"
    "pb_transportMode p0 = ''''" "pb_relayAddr p0 = ''relay:9000''" "pb_expectedFingerprint p0 = ''''"
    using sample_engines by blast
  obtain pub k where f: "NewPAKEPublisher sample_prims sample_rnd [7] = Inr pub" "length k = 32" "pb_pakePeer p0 = Some pub"
    "pb_cipher p0 = Some (keyed k)" "pb_sessionID p0 = DeriveSessionID sample_prims [7]"
    using NewPublisherEngine_fields [OF e(1)] by blast
  have pb: "pk_pubBytes pub = None" using newPAKEPeer_pub [of "[7]" sample_rnd "[1, 2]"] f(1) by (auto simp: sample_rnd_def)
  have sid: "length (pb_sessionID p0) = 16" using f(5) by (simp add: SessionIDSize_def)
  obtain p1 where p1: "Publisher_Connect sample_prims sample_net sample_rnd p0 = (Inr (), p1)"
    using sample_connected [OF e(2-4) f(3) pb sid] by blast
  obtain c g where "open_conn c" "p1 = p0\<lparr>pb_conn := Some c, pb_gone := g\<rparr>"
    using Publisher_Connect_fields [OF p1 f(3) pb sid] by blast
  then have "pub_ready k p1" using f sid by (simp add: pub_ready_def)
  from publish_sealed_ok [OF this, of "[1]"] obtain p2 where p2: "publish_sealed [1] p1 = (Inr (), p2)"
    "wire p2 = wire p1 @ [frame_bytes (sealed k MsgTypeDataStream (pb_sessionID p1) (pb_seqCounter p1 + 1)
      (PadPayload [1] DefaultPaddingTargetSize))]" by (auto simp: payload_ok_def)
  then show ?thesis
    using e(1) p1
    by (intro exI [of _ p0] exI [of _ reg1] exI [of _ "frame_bytes (sealed k MsgTypeDataStream (pb_sessionID p1) (pb_seqCounter p1 + 1)
      (PadPayload [1] DefaultPaddingTargetSize))"]) (simp add: sent_def encrypted_def)
qed

theorem nonces_never_reused_witness:
  "\<exists>p0 reg' b k1 k2 ty n pt. NewPublisherEngine sample_prims 0 sample_rnd (Some [2]) 1 [7] ''relay:9000'' sample_mem = (Inr p0, reg')
     \<and> b \<in> set (sent (fold pub_step [PoConnect sample_prims sample_net sample_rnd, PoPublish [1]] p0)) \<and> encrypted b
     \<and> b = frame_bytes (sealed k1 ty (pb_sessionID (fold pub_step [PoConnect sample_prims sample_net sample_rnd, PoPublish [1]] p0)) n pt)
     \<and> b = frame_bytes (sealed k2 ty (pb_sessionID (fold pub_step [PoConnect sample_prims sample_net sample_rnd, PoPublish [1]] p0)) n pt)"
proof -
  obtain p0 reg' b where s: "NewPublisherEngine sample_prims 0 sample_rnd (Some [2]) 1 [7] ''relay:9000'' sample_mem = (Inr p0, reg')"
    "b \<in> set (sent (fold pub_step [PoConnect sample_prims sample_net sample_rnd, PoPublish [1]] p0))" "encrypted b"
    using sample_run by blast
  have "list_all op_ok [PoConnect sample_prims sample_net sample_rnd, PoPublish [1]]" using sample_fresh_net by simp
  moreover have "length [PoConnect sample_prims sample_net sample_rnd, PoPublish [1]] < 2 ^ 64" by simp
  ultimately show ?thesis using nonces_never_reused [OF s(1) _ _ refl s(2) s(2) s(3) s(3) refl] s by blast
qed

end
