(* ===== verification/Feed_Replay.thy ===== *)
theory Feed_Replay
  imports Feed_Props Feed_Nonce
begin

text \<open>
  Catching up: what a subscriber that comes back asks for, what the publisher replays, and
  that nothing is missed as long as the replay buffer has not overflowed.
\<close>

section \<open>The publisher replays\<close>

definition data_frame :: "bytes \<Rightarrow> bytes \<Rightarrow> u64 \<times> bytes \<Rightarrow> envelope" where
  "data_frame k sid = (\<lambda>(n, m). sealed k MsgTypeDataStream sid n (PadPayload m DefaultPaddingTargetSize))"

lemma data_frame_sendable: "length sid = 16 \<Longrightarrow> payload_ok (snd x) \<Longrightarrow> sendable (data_frame k sid x)"
  by (cases x) (simp add: data_frame_def padded_sendable)

lemma replay_loop_ok:
  "pub_ready k p \<Longrightarrow> list_all payload_ok (map payload_bytes items) \<Longrightarrow>
   pub_ready k (replay_loop (keyed k) items p)
   \<and> wire (replay_loop (keyed k) items p) = wire p @ map (frame_bytes \<circ> data_frame k (pb_sessionID p) \<circ> msg_of) items
   \<and> same_session p (replay_loop (keyed k) items p)
   \<and> pb_replayBuffer (replay_loop (keyed k) items p) = pb_replayBuffer p"
proof (induction items arbitrary: p)
  case Nil
  then show ?case by (simp add: same_session_def)
next
  case (Cons item items)
  obtain c where c: "pb_cipher p = Some (keyed k)" "length (pb_sessionID p) = 16" "pb_conn p = Some c" "open_conn c"
    using Cons.prems(1) by (auto simp: pub_ready_def)
  let ?e = "data_frame k (pb_sessionID p) (msg_of item)"
  let ?p = "p\<lparr>pb_conn := Some (c\<lparr>cn_out := cn_out c @ [frame_bytes ?e]\<rparr>)\<rparr>"
  have "sendable ?e" using c(2) Cons.prems(2) by (intro data_frame_sendable) (auto simp: msg_of_def)
  then have "sendFrame ?e p = (Inr (), ?p)" by (rule sendFrame_open [OF c(3,4)])
  then have s: "replay_loop (keyed k) (item # items) p = replay_loop (keyed k) items ?p"
    using c(2) by (simp add: seal_frame_eq data_frame_def msg_of_def)
  have "pub_ready k ?p" "wire ?p = wire p @ [frame_bytes ?e]" "same_session p ?p"
    using Cons.prems(1) c by (simp_all add: pub_ready_def wire_def same_session_def)
  then show ?case
    using Cons.IH [of ?p] Cons.prems(2) unfolding s by (auto simp: same_session_def)
qed

lemma replaySync_ok:
  assumes "pub_ready k p" "ring_inv (pb_replayBuffer p)" "list_all (payload_ok \<circ> snd) (ring_items (pb_replayBuffer p))"
  shows "\<exists>p'. replaySyncForSubscriber l p = p' \<and> pub_ready k p' \<and> same_session p p'
     \<and> wire p' = wire p @ map (frame_bytes \<circ> data_frame k (pb_sessionID p)) (filter (\<lambda>x. l < fst x) (ring_items (pb_replayBuffer p)))"
proof -
  obtain rb items where g: "GetAfter l (pb_replayBuffer p) = (rb, items)" by fastforce
  note g' = GetAfter_spec [OF assms(2) g]
  let ?p = "p\<lparr>pb_replayBuffer := rb\<rparr>"
  have p: "pub_ready k ?p" using assms(1) by (simp add: pub_ready_def)
  have "list_all (payload_ok \<circ> snd) (map msg_of items)" using assms(3) unfolding g'(4) by (auto simp: list_all_iff)
  then have "list_all payload_ok (map payload_bytes items)" by (simp add: list.pred_map comp_def msg_of_def)
  note r = replay_loop_ok [OF p this]
  obtain c where c: "pb_cipher p = Some (keyed k)" "pb_conn p = Some c" "length (pb_sessionID p) = 16"
    using assms(1) by (auto simp: pub_ready_def)
  then have "replaySyncForSubscriber l p = put_items items (replay_loop (keyed k) items ?p)"
    using g by (simp add: replaySyncForSubscriber_def)
  then show ?thesis
    using r g'(4) c(3) by (simp add: put_items_def pub_ready_def wire_def same_session_def comp_assoc flip: map_map)
qed

section \<open>The subscriber catches up\<close>

text \<open>The payloads a subscriber that has seen \<open>l\<close> takes from numbered messages.\<close>

fun catch_up :: "u64 \<Rightarrow> (u64 \<times> bytes) list \<Rightarrow> bytes list" where
  "catch_up l [] = []"
| "catch_up l ((n, m) # xs) = (if n \<le> l then catch_up l xs else m # catch_up n xs)"

lemma catch_up_sorted:
  "sorted_wrt (<) (map fst xs) \<Longrightarrow> list_all (\<lambda>x. l < fst x) xs \<Longrightarrow> catch_up l xs = map snd xs"
  by (induction l xs rule: catch_up.induct) (auto simp: list_all_iff not_le)

definition seen :: "bytes \<Rightarrow> u64 \<Rightarrow> subscriber \<Rightarrow> bool" where
  "seen k n s \<longleftrightarrow> sb_cipher s = Some (keyed k) \<and> sb_lastSeqNum s = n"

lemma process_data_frame:
  assumes "length sid = 16" "payload_ok m" "seen k l s"
  shows "\<exists>s'. process_frame (data_frame k sid (n, m)) (s, st)
        = (Next, s', if n \<le> l then st else delivered m st)
     \<and> reading (sb_conn s') = reading (sb_conn s) \<and> seen k (max l n) s'"
proof -
  let ?s = "s\<lparr>sb_lastSeqNum := n, sb_ringBuffer := Push n m (sb_ringBuffer s)\<rparr>"
  have c: "sb_cipher s = Some (keyed k)" "length m + 4 < 2 ^ 32" "sb_lastSeqNum s = l"
    using assms(2,3) by (auto simp: seen_def payload_ok_def)
  have p: "process_frame (data_frame k sid (n, m)) (s, st) = (if n \<le> l then (Next, s, st) else (Next, deliver m (?s, st)))"
    using process_data [OF assms(1) c(1,2), of n st] c(3) by (simp add: data_frame_def)
  show ?thesis
  proof (cases "n \<le> l")
    case True
    then show ?thesis using p assms(3) by (simp add: max_def)
  next
    case False
    then show ?thesis
      using p c deliver_stream [of m ?s st]
      by (intro exI [of _ "fst (deliver m (?s, st))"]) (auto simp: seen_def prod_eq_iff max_def)
  qed
qed

lemma SubscribeStream_replay:
  "length sid = 16 \<Longrightarrow> list_all (payload_ok \<circ> snd) xs \<Longrightarrow> list_all undisturbed its \<Longrightarrow> length its = length xs \<Longrightarrow>
   seen k (sb_lastSeqNum (sl_sub l)) (sl_sub l) \<Longrightarrow>
   reading (sb_conn (sl_sub l)) = Some (concat (map (frame_bytes \<circ> data_frame k sid) xs) @ r, t, False) \<Longrightarrow>
   \<exists>l'. SubscribeStream P its l = (Next, l') \<and> sl_stream l' = fold delivered (catch_up (sb_lastSeqNum (sl_sub l)) xs) (sl_stream l)
     \<and> seen k (fold (\<lambda>x. max (fst x)) xs (sb_lastSeqNum (sl_sub l))) (sl_sub l')
     \<and> reading (sb_conn (sl_sub l')) = Some (r, t, False)"
proof (induction xs arbitrary: l its)
  case Nil
  then show ?case by simp
next
  case (Cons x xs)
  obtain n m where x: "x = (n, m)" by (cases x)
  obtain it its' where it: "its = it # its'" "undisturbed it" using Cons.prems(3,4) by (cases its) auto
  let ?l = "sb_lastSeqNum (sl_sub l)" and ?st = "if n \<le> sb_lastSeqNum (sl_sub l) then sl_stream l else delivered m (sl_stream l)"
  have "\<exists>s'. process_frame (data_frame k sid (n, m)) ((sl_sub l)\<lparr>sb_conn := Some c\<rparr>, sl_stream l) = (Next, s', ?st)
      \<and> reading (sb_conn s') = reading (Some c) \<and> seen k (max ?l n) s'" for c
    using process_data_frame [OF Cons.prems(1), of m k ?l "(sl_sub l)\<lparr>sb_conn := Some c\<rparr>" n "sl_stream l"] Cons.prems(2,5) x
    by (simp add: seen_def)
  moreover have "sendable (data_frame k sid (n, m))" using Cons.prems(1,2) x by (intro data_frame_sendable) auto
  moreover have "reading (sb_conn (sl_sub l)) = Some (frame_bytes (data_frame k sid (n, m))
      @ (concat (map (frame_bytes \<circ> data_frame k sid) xs) @ r), t, False)"
    using Cons.prems(6) x by (simp add: comp_def)
  ultimately obtain l1 where l1: "SubscribeStream P (it # its') l = SubscribeStream P its' l1" "seen k (max ?l n) (sl_sub l1)"
      "sl_stream l1 = ?st" "reading (sb_conn (sl_sub l1)) = Some (concat (map (frame_bytes \<circ> data_frame k sid) xs) @ r, t, False)"
    using SubscribeStream_frame [OF it(2), of "data_frame k sid (n, m)" l "concat (map (frame_bytes \<circ> data_frame k sid) xs) @ r" t ?st
        "seen k (max ?l n)" P its'] by blast
  then have s: "sb_lastSeqNum (sl_sub l1) = max ?l n" by (simp add: seen_def)
  have "\<exists>l'. SubscribeStream P its' l1 = (Next, l') \<and> sl_stream l' = fold delivered (catch_up (max ?l n) xs) (sl_stream l1)
     \<and> seen k (fold (\<lambda>x. max (fst x)) xs (max ?l n)) (sl_sub l') \<and> reading (sb_conn (sl_sub l')) = Some (r, t, False)"
    using Cons.IH [of its' l1] Cons.prems(1-4) it l1(2,4) s by (simp add: comp_def)
  moreover have "max ?l n = (if n \<le> ?l then ?l else n)" "max n ?l = max ?l n" by (simp_all add: max.commute)
  ultimately show ?case
    using l1(1,3) it(1) x by auto
qed

section \<open>Nothing is missed\<close>

text \<open>\<open>xs\<close>: everything published so far; the buffer keeps the most recent part.\<close>

definition history :: "(u64 \<times> bytes) list \<Rightarrow> bufpool \<times> ringbuffer \<Rightarrow> bool" where
  "history xs st \<longleftrightarrow> ring_inv st \<and> sorted_wrt (<) (map fst xs)
     \<and> ring_items st = drop (length xs - rb_capacity (snd st)) xs"

lemma history_new: "history [] ([], NewRingBuffer n)"
  by (simp add: history_def NewRingBuffer_inv pool_inv_def)

text \<open>Publishing extends the history, replaying leaves it.\<close>

lemma history_Push:
  assumes "history xs st" "list_all (\<lambda>x. fst x < n) xs"
  shows "history (xs @ [(n, m)]) (Push n m st)"
proof -
  let ?c = "rb_capacity (snd st)"
  have st: "ring_inv st" "sorted_wrt (<) (map fst xs)" "ring_items st = drop (length xs - ?c) xs"
    using assms(1) by (simp_all add: history_def)
  have "ring_items (Push n m st) = drop (length xs + 1 - ?c) (xs @ [(n, m)])"
  proof (cases "length xs < ?c")
    case True
    then show ?thesis using st Push_refines(3) [OF st(1), of n m] by simp
  next
    case False
    then have "length (ring_items st) = ?c" using st(3) by simp
    then have "ring_items (Push n m st) = drop 1 (drop (length xs - ?c) (xs @ [(n, m)]))"
      using st(3) Push_refines(3) [OF st(1), of n m] False by simp
    then show ?thesis using False by (simp add: Suc_diff_le)
  qed
  moreover have "sorted_wrt (<) (map fst (xs @ [(n, m)]))"
    using st(2) assms(2) by (auto simp: sorted_wrt_append list_all_iff)
  ultimately show ?thesis using Push_refines(1,2) [OF st(1), of n m] by (simp add: history_def)
qed

lemma history_after:
  assumes "history xs st" "0 < l" "\<not> IsOverflow (snd st) l"
  shows "filter (\<lambda>x. l < fst x) (ring_items st) = filter (\<lambda>x. l < fst x) xs"
proof -
  have st: "ring_inv st" "sorted_wrt (<) (map fst xs)" "ring_items st = drop (length xs - rb_capacity (snd st)) xs"
    using assms(1) by (simp_all add: history_def)
  show ?thesis
    using no_overflow_oldest [OF st(1) assms(2,3)] ring_cap_bound(2) [OF st(1)] unfolding st(3)
    by (intro kept_complete [OF st(2)]) auto
qed

lemma SendSyncRequest_ok:
  assumes "sb_conn s = Some c" "open_conn c" "length (sb_sessionID s) = 16"
  shows "SendSyncRequest s = (Inr (), s\<lparr>sb_conn := Some (c\<lparr>cn_out := cn_out c
       @ [frame_bytes (plain_env MsgTypeSyncReq (sb_sessionID s) (PutUint64 (sb_lastSeqNum s)))]\<rparr>)\<rparr>)"
proof -
  have "sendable (plain_env MsgTypeSyncReq (sb_sessionID s) (PutUint64 (sb_lastSeqNum s)))"
    using assms(3) by (rule plain_sendable) simp
  from Encode_open [OF this assms(2)] show ?thesis
    using assms(1) unfolding plain_env_def by (simp add: SendSyncRequest_def)
qed

text \<open>The publisher's listener takes the request.\<close>

lemma handleSync_request:
  assumes "pub_ready k p" "pb_conn p = Some c" "length sid = 16"
  shows "handleSync_step P prnd rnd (p\<lparr>pb_conn := Some (c\<lparr>cn_in := frame_bytes (plain_env MsgTypeSyncReq sid (PutUint64 n)) @ r\<rparr>)\<rparr>)
     = (True, replaySyncForSubscriber n (p\<lparr>pb_conn := Some (c\<lparr>cn_in := r\<rparr>)\<rparr>))"
proof -
  let ?e = "plain_env MsgTypeSyncReq sid (PutUint64 n)"
  have "Decode (c\<lparr>cn_in := frame_bytes ?e @ r\<rparr>) = (Inr ?e, c\<lparr>cn_in := r\<rparr>)"
    using assms by (subst Decode_frame [where r = r]) (auto simp: pub_ready_def open_conn_def intro: plain_sendable)
  moreover have "Uint64 (go_slice (PutUint64 n) 0 8) = n" by (simp add: go_slice_def u64be.get_put)
  ultimately show ?thesis by (simp add: handleSync_step_def Let_def msgtype_defs)
qed

text \<open>C5: a subscriber that reconnects misses nothing. \<open>xs\<close> is everything the publisher has published,
  numbered in increasing order; the subscriber, which has the publisher's key again and has seen
  everything up to its last number, sends its request; the publisher's listener reads it and
  replays. If the replay buffer has not overflowed for that number, then the subscriber, which
  reads what the publisher wrote, delivers exactly the messages it had missed, in order and each
  once, and its last number is that of the newest message.\<close>

theorem replay_catches_up:
  assumes "pub_ready k p" "pb_conn p = Some cp" and "history xs (pb_replayBuffer p)" and "list_all (payload_ok \<circ> snd) xs"
    and "sb_cipher s = Some (keyed k)" "sb_conn s = Some cs" "open_conn cs" "length (sb_sessionID s) = 16"
    and "0 < sb_lastSeqNum s" and "\<not> IsOverflow (snd (pb_replayBuffer p)) (sb_lastSeqNum s)"
    and "list_all undisturbed its" and "length its = length (filter (\<lambda>x. sb_lastSeqNum s < fst x) xs)"
  shows "\<exists>s1 cs1 w p1 new l1. SendSyncRequest s = (Inr (), s1) \<and> sb_conn s1 = Some cs1 \<and> cn_out cs1 = cn_out cs @ [w]
     \<and> handleSync_step P prnd rnd (p\<lparr>pb_conn := Some (cp\<lparr>cn_in := w @ r\<rparr>)\<rparr>) = (True, p1) \<and> wire p1 = wire p @ new
     \<and> SubscribeStream P its \<lparr>sl_sub = s1\<lparr>sb_conn := Some (cs1\<lparr>cn_in := concat new @ r'\<rparr>)\<rparr>, sl_stream = st, sl_backoff = b\<rparr> = (Next, l1)
     \<and> sl_stream l1 = fold delivered (map snd (filter (\<lambda>x. sb_lastSeqNum s < fst x) xs)) st
     \<and> sb_lastSeqNum (sl_sub l1) = fold (\<lambda>x. max (fst x)) (filter (\<lambda>x. sb_lastSeqNum s < fst x) xs) (sb_lastSeqNum s)"
proof -
  let ?n = "sb_lastSeqNum s" and ?w = "frame_bytes (plain_env MsgTypeSyncReq (sb_sessionID s) (PutUint64 (sb_lastSeqNum s)))"
  let ?ys = "filter (\<lambda>x. ?n < fst x) xs" and ?sid = "pb_sessionID p"
  let ?p = "p\<lparr>pb_conn := Some (cp\<lparr>cn_in := r\<rparr>)\<rparr>"
  have sid: "length ?sid = 16" and p: "pub_ready k ?p" using assms(1,2) by (simp_all add: pub_ready_def)
  have ys: "filter (\<lambda>x. ?n < fst x) (ring_items (pb_replayBuffer p)) = ?ys"
    using history_after [OF assms(3,9,10)] .
  have "set (ring_items (pb_replayBuffer p)) \<subseteq> set xs"
    using assms(3) by (auto simp: history_def dest: in_set_dropD)
  then have ok: "list_all (payload_ok \<circ> snd) (ring_items (pb_replayBuffer ?p))"
    using assms(4) by (auto simp: list_all_iff)
  have ri: "ring_inv (pb_replayBuffer ?p)" using assms(3) by (simp add: history_def)
  obtain p1 where p1: "replaySyncForSubscriber ?n ?p = p1"
    "wire p1 = wire p @ map (frame_bytes \<circ> data_frame k ?sid) ?ys"
    using replaySync_ok [OF p ri ok, of ?n] ys assms(2) by (auto simp: wire_def)
  let ?cs = "cs\<lparr>cn_out := cn_out cs @ [?w]\<rparr>"
  let ?l = "\<lparr>sl_sub = s\<lparr>sb_conn := Some (?cs\<lparr>cn_in := concat (map (frame_bytes \<circ> data_frame k ?sid) ?ys) @ r'\<rparr>)\<rparr>, sl_stream = st, sl_backoff = b\<rparr>"
  have "sorted_wrt (<) (map fst ?ys)" using assms(3) by (simp add: history_def sorted_wrt_map sorted_wrt_filter)
  then have c: "catch_up ?n ?ys = map snd ?ys" by (rule catch_up_sorted) (simp add: list_all_iff)
  have "list_all (payload_ok \<circ> snd) ?ys" using assms(4) by (auto simp: list_all_iff)
  from SubscribeStream_replay [OF sid this assms(11,12), of k ?l r' "cn_end cs" P] obtain l1
    where "SubscribeStream P its ?l = (Next, l1)" "sl_stream l1 = fold delivered (map snd ?ys) st"
      "sb_lastSeqNum (sl_sub l1) = fold (\<lambda>x. max (fst x)) ?ys ?n"
    using assms(5,7) c by (auto simp: seen_def reading_def open_conn_def)
  then show ?thesis
    using SendSyncRequest_ok [OF assms(6-8)] handleSync_request [OF assms(1,2,8), of P prnd rnd ?n r] p1
    by (intro exI [of _ "s\<lparr>sb_conn := Some ?cs\<rparr>"] exI [of _ ?cs] exI [of _ ?w] exI [of _ p1]
        exI [of _ "map (frame_bytes \<circ> data_frame k ?sid) ?ys"] exI [of _ l1]) simp
qed

lemma no_overflow_from_start:
  assumes "ring_inv st" "ring_items st = (1, m) # rest"
  shows "\<not> IsOverflow (snd st) l"
proof -
  obtain p rb where st: "st = (p, rb)" by (cases st)
  have "0 < rb_size rb" "rb_wf rb" using assms st ring_items_length [of st] by (auto simp: ring_inv_def)
  then have "OldestSeqNum rb = 1" using ring_items_hd [of rb p] assms(2) st by simp
  then show ?thesis using st by (auto simp: IsOverflow_def OldestSeqNum_def split: if_splits)
qed

theorem replay_catches_up_witness:
  "\<exists>p s s1 cs1 w p1 new l1. SendSyncRequest s = (Inr (), s1) \<and> sb_conn s1 = Some cs1 \<and> cn_out cs1 = [] @ [w]
     \<and> handleSync_step sample_prims sample_rnd sample_hs (p\<lparr>pb_conn := Some ((fresh_conn [] EOF)\<lparr>cn_in := w @ []\<rparr>)\<rparr>) = (True, p1)
     \<and> wire p1 = wire p @ new
     \<and> SubscribeStream sample_prims [sample_iter]
         \<lparr>sl_sub = s1\<lparr>sb_conn := Some (cs1\<lparr>cn_in := concat new @ []\<rparr>)\<rparr>, sl_stream = sample_stream, sl_backoff = 0\<rparr> = (Next, l1)
     \<and> sl_stream l1 = fold delivered [[1, 50]] sample_stream \<and> sb_lastSeqNum (sl_sub l1) = 2"
proof -
  let ?xs = "[(1, [1, 49]), (2, [1, 50])] :: (u64 \<times> bytes) list"
  let ?rb = "Push 2 [1, 50] (Push 1 [1, 49] ([], NewRingBuffer 100))"
  let ?p = "sample_pub\<lparr>pb_replayBuffer := ?rb\<rparr>"
  let ?s = "sample_sub\<lparr>sb_conn := Some (fresh_conn [] EOF), sb_lastSeqNum := 1\<rparr>"
  have h: "history ?xs ?rb"
    using history_Push [OF history_Push [OF history_new [of 100], of 1 "[1, 49]"], of 2 "[1, 50]"] by simp
  have c: "rb_capacity (snd ?rb) = 100" by (simp add: Push_refines NewRingBuffer_inv pool_inv_def)
  then have "ring_items ?rb = (1, [1, 49]) # [(2, [1, 50])]" using h by (simp add: history_def)
  then have o: "\<not> IsOverflow (snd ?rb) 1" using h no_overflow_from_start by (simp add: history_def)
  have p: "pub_ready (replicate 32 1) ?p" using sample_pub_ready by (simp add: pub_ready_def)
  have flt: "filter (\<lambda>x. sb_lastSeqNum ?s < fst x) ?xs = [(2, [1, 50])]" by (simp add: sample_sub_def)
  have f: "pb_conn ?p = Some (fresh_conn [] EOF)" "history ?xs (pb_replayBuffer ?p)" "list_all (payload_ok \<circ> snd) ?xs"
    "sb_cipher ?s = Some (keyed (replicate 32 1))" "sb_conn ?s = Some (fresh_conn [] EOF)" "open_conn (fresh_conn [] EOF)"
    "length (sb_sessionID ?s) = 16" "0 < sb_lastSeqNum ?s" "\<not> IsOverflow (snd (pb_replayBuffer ?p)) (sb_lastSeqNum ?s)"
    "list_all undisturbed [sample_iter]" "length [sample_iter] = length (filter (\<lambda>x. sb_lastSeqNum ?s < fst x) ?xs)"
    using h o by (simp_all add: sample_pub_def sample_sub_def payload_ok_def open_conn_def fresh_conn_def undisturbed_def sample_iter_def)
  have e: "cn_out (fresh_conn [] EOF) = []" "fold (\<lambda>x. max (fst x)) [(2, [1, 50])] (sb_lastSeqNum ?s) = 2"
    by (simp_all add: fresh_conn_def sample_sub_def max_def word_le_nat_alt)
  show ?thesis
    using replay_catches_up [OF p f, of sample_prims sample_rnd sample_hs "[]" "[]" sample_stream 0]
    unfolding flt e list.map snd_conv by (rule exI [of _ ?p, OF exI [of _ ?s]])
qed

end
