(* ===== verification/Feed_Files.thy ===== *)
theory Feed_Files
  imports Feed_Replay
begin

text \<open>
  Files: where a subscriber can be made to write, and that a file that is sent arrives whole.
\<close>

section \<open>Where files are written\<close>

definition confined :: "string \<Rightarrow> bool" where
  "confined path \<longleftrightarrow> (\<exists>e. path = ''downloads/'' @ e \<and> e \<noteq> '''' \<and> CHR ''/'' \<notin> set e \<and> e \<noteq> ''.'' \<and> e \<noteq> ''..'')"

lemma clean_name_element: "clean_name fn \<noteq> '''' \<and> CHR ''/'' \<notin> set (clean_name fn) \<and> clean_name fn \<noteq> ''.''"
  using Base_element [of fn] by (auto simp: clean_name_def Let_def)

text \<open>The path of a received file: below the download directory, or the working directory itself.\<close>

lemma out_path_eq: "out_path fn = (if clean_name fn = ''..'' then ''.'' else ''downloads/'' @ clean_name fn)"
  using Join_dot_element [of "''downloads''" "clean_name fn"] clean_name_element [of fn] by (simp add: out_path_def)

lemma out_path_confined: "out_path fn = ''.'' \<or> confined (out_path fn)"
  using clean_name_element [of fn] by (auto simp: out_path_eq confined_def)

text \<open>Files that differ from those of \<open>fs0\<close> are confined, and so are those being received.\<close>

definition files_inv :: "fsys \<Rightarrow> sstream \<Rightarrow> bool" where
  "files_inv fs0 st \<longleftrightarrow>
     (\<forall>path. map_of (fl_files (ss_fs st)) path = map_of (fl_files fs0) path \<or> confined path)
     \<and> list_all (\<lambda>(_, af). confined (af_path af)) (ss_files st)"

lemma set_update: "set (AList.update k v al) \<subseteq> insert (k, v) (set al)"
  by (induction al) auto

lemma file_start_inv:
  assumes "files_inv fs0 st"
  shows "files_inv fs0 (file_start data st)"
proof (cases "\<exists>h fs. Unmarshal_FileHeader data = Some h \<and> fh_TransferID h \<noteq> '''' \<and> fs_create (out_path (fh_Filename h)) (ss_fs st) = Some fs")
  case False
  then show ?thesis using assms by (auto simp: file_start_def Let_def split: option.split)
next
  case True
  then obtain h fs where h: "Unmarshal_FileHeader data = Some h" "fh_TransferID h \<noteq> ''''" "fs_create (out_path (fh_Filename h)) (ss_fs st) = Some fs"
    by blast
  then have "out_path (fh_Filename h) \<noteq> ''.''" and fs: "fs = (ss_fs st)\<lparr>fl_files := AList.update (out_path (fh_Filename h)) [] (fl_files (ss_fs st))\<rparr>"
    by (auto simp: fs_create_def split: if_splits)
  then have c: "confined (out_path (fh_Filename h))" using out_path_confined by blast
  have "\<forall>path. map_of (fl_files fs) path = map_of (fl_files fs0) path \<or> confined path"
    using assms c fs by (auto simp: files_inv_def update_conv)
  moreover have "list_all (\<lambda>(_, af). confined (af_path af)) (AList.update t af (ss_files st))"
    if "af_path af = out_path (fh_Filename h)" for t af
    using assms c that set_update [of t af "ss_files st"] by (fastforce simp: files_inv_def list_all_iff)
  ultimately show ?thesis using h by (simp add: file_start_def files_inv_def Let_def)
qed

lemma delivered_chunk:
  "delivered (TagFileChunk # data) st =
     (if length data \<le> 16 then st
      else case map_of (ss_files st) (string_of (take 16 data)) of
             None \<Rightarrow> st
           | Some af \<Rightarrow>
               (case fs_write (af_path af) (af_off af) (drop 16 data) (ss_fs st) of
                  (n, fs) \<Rightarrow> st\<lparr>ss_fs := fs, ss_files := AList.update (string_of (take 16 data))
                     (af\<lparr>af_off := af_off af + n, af_received := af_received af + int n, af_chunkCount := af_chunkCount af + 1\<rparr>) (ss_files st)\<rparr>))"
  by (auto simp: delivered_def deliver_def file_chunk_def tag_defs Let_def split: option.split prod.split)

lemma delivered_end:
  "delivered (TagFileEnd # data) st =
     (if length data < 16 then st
      else case map_of (ss_files st) (string_of (take 16 data)) of
             None \<Rightarrow> st
           | Some af \<Rightarrow> st\<lparr>ss_notices := ss_notices st @ verify_file af (ss_fs st),
               ss_files := AList.delete (string_of (take 16 data)) (ss_files st)\<rparr>)"
  by (auto simp: delivered_def deliver_def file_end_def tag_defs Let_def split: option.split)

lemma delivered_start: "delivered (TagFileStart # data) st = file_start data st"
  by (simp add: delivered_def deliver_def tag_defs)

lemma file_chunk_inv:
  assumes "files_inv fs0 st"
  shows "files_inv fs0 (delivered (TagFileChunk # data) st)"
proof (cases "length data \<le> 16 \<or> map_of (ss_files st) (string_of (take 16 data)) = None")
  case True
  then show ?thesis using assms by (auto simp: delivered_chunk)
next
  case False
  then obtain af where af: "map_of (ss_files st) (string_of (take 16 data)) = Some af" "16 < length data" by auto
  have c: "confined (af_path af)"
    using assms map_of_SomeD [OF af(1)] by (auto simp: files_inv_def list_all_iff)
  obtain n fs where w: "fs_write (af_path af) (af_off af) (drop 16 data) (ss_fs st) = (n, fs)" by fastforce
  then have "\<forall>path. map_of (fl_files fs) path = map_of (fl_files fs0) path \<or> confined path"
    using assms c by (auto simp: files_inv_def fs_write_def update_conv split: if_splits)
  moreover have "list_all (\<lambda>(_, af). confined (af_path af)) (AList.update t af' (ss_files st))" if "af_path af' = af_path af" for t af'
    using assms c that set_update [of t af' "ss_files st"] by (fastforce simp: files_inv_def list_all_iff)
  ultimately show ?thesis using af w by (simp add: delivered_chunk files_inv_def)
qed

lemma set_delete: "set (AList.delete k al) \<subseteq> set al"
  by (auto simp: AList.delete_eq)

lemma delivered_inv: "files_inv fs0 st \<Longrightarrow> files_inv fs0 (delivered m st)"
proof (cases m)
  case (Cons tag data)
  assume i: "files_inv fs0 st"
  have e: "files_inv fs0 (emit t st)" for t using i by (simp add: files_inv_def emit_def)
  have "files_inv fs0 (delivered (TagFileEnd # data) st)"
    using i set_delete [of _ "ss_files st"] by (fastforce simp: delivered_end files_inv_def list_all_iff split: option.split)
  moreover have "files_inv fs0 (delivered (TagFileStart # data) st)"
    using file_start_inv [OF i] by (simp add: delivered_start)
  moreover have "delivered (tag # data) st = emit (if tag = TagText then sanitizeTextOutput data else tag # data) st"
    if "tag \<noteq> TagFileStart" "tag \<noteq> TagFileChunk" "tag \<noteq> TagFileEnd"
    using that by (simp add: delivered_def deliver_def)
  ultimately show ?thesis
    using Cons e file_chunk_inv [OF i] by (cases "tag = TagFileStart \<or> tag = TagFileChunk \<or> tag = TagFileEnd") auto
qed (simp add: delivered_def deliver_def)

text \<open>The stream of a subscriber changes only by delivering payloads.\<close>

lemma process_frame_stream:
  assumes "process_frame e (s, st) = (f, s', st')"
  shows "st' = st \<or> (\<exists>m. st' = delivered m st)"
proof -
  have "st' = st" if "deliver m (q, st) = (s', st')" "\<not> (\<exists>m. st' = delivered m st)" for m q
    using that deliver_stream [of m q st] by auto
  then show ?thesis
    using assms
    by (auto simp: process_frame_def on_data_def Let_def split: if_splits prod.splits option.splits sum.splits)
qed

lemma SubscribeStream_step_stream:
  assumes "SubscribeStream_step P it l = (f, l')"
  shows "sl_stream l' = sl_stream l \<or> (\<exists>m. sl_stream l' = delivered m (sl_stream l))"
proof -
  have r: "sl_stream l2 = sl_stream l1 \<or> (\<exists>m. sl_stream l2 = delivered m (sl_stream l1))"
    if "read_and_process P it l1 = (f2, l2)" for l1 l2 f2
    using that
    by (auto simp: read_and_process_def Let_def dest!: process_frame_stream split: option.splits prod.splits sum.splits if_splits)
  show ?thesis
    using assms
    by (fastforce simp: SubscribeStream_step_def Let_def dest!: r split: if_splits prod.splits)
qed

lemma SubscribeStream_inv:
  "SubscribeStream P its l = (f, l') \<Longrightarrow> files_inv fs0 (sl_stream l) \<Longrightarrow> files_inv fs0 (sl_stream l')"
proof (induction its arbitrary: l)
  case (Cons it its)
  obtain f1 l1 where s: "SubscribeStream_step P it l = (f1, l1)" by fastforce
  have i: "files_inv fs0 (sl_stream l1)"
    using SubscribeStream_step_stream [OF s] Cons.prems(2) delivered_inv by auto
  then show ?case using Cons s by (cases f1) auto
qed simp

text \<open>C7: a publisher can make a subscriber write below its download directory only. Whatever frames a
  subscriber reads from whatever connections, the only paths whose content changes are those of
  plain files directly in \<open>downloads\<close>: no separators, no parent directory.\<close>

theorem downloads_confined:
  assumes "SubscribeStream P its l = (f, l')" and "ss_files (sl_stream l) = []"
    and "map_of (fl_files (ss_fs (sl_stream l'))) path \<noteq> map_of (fl_files (ss_fs (sl_stream l))) path"
  shows "\<exists>e. path = ''downloads/'' @ e \<and> e \<noteq> '''' \<and> CHR ''/'' \<notin> set e \<and> e \<noteq> ''.'' \<and> e \<noteq> ''..''"
proof -
  have "files_inv (ss_fs (sl_stream l)) (sl_stream l)" using assms(2) by (simp add: files_inv_def)
  from SubscribeStream_inv [OF assms(1) this] show ?thesis using assms(3) by (auto simp: files_inv_def confined_def)
qed

section \<open>A file arrives whole: the publisher\<close>

text \<open>What the reads of a file return, from the \<open>i\<close>-th on.\<close>

function chunks :: "(nat \<Rightarrow> nat) \<Rightarrow> nat \<Rightarrow> nat \<Rightarrow> bytes \<Rightarrow> bytes list" where
  "chunks rd n i bs =
     (if bs = [] \<or> n = 0 then []
      else take (read_len (rd i) n) bs # chunks rd n (Suc i) (drop (read_len (rd i) n) bs))"
  by pat_completeness auto
termination
  by (relation "measure (\<lambda>(rd, n, i, bs). length bs)") auto

declare chunks.simps [simp del]

lemma concat_chunks: "0 < n \<Longrightarrow> concat (chunks rd n i bs) = bs"
proof (induction rd n i bs rule: chunks.induct)
  case (1 rd n i bs)
  then show ?case by (subst chunks.simps) simp
qed

lemma chunks_bounds: "c \<in> set (chunks rd n i bs) \<Longrightarrow> c \<noteq> [] \<and> length c \<le> n"
proof (induction rd n i bs rule: chunks.induct)
  case (1 rd n i bs)
  show ?case
  proof (cases "bs = [] \<or> n = 0")
    case True
    then show ?thesis using "1.prems" by (subst (asm) chunks.simps) simp
  next
    case False
    then have "c = take (read_len (rd i) n) bs \<or> c \<in> set (chunks rd n (Suc i) (drop (read_len (rd i) n) bs))"
      using "1.prems" by (subst (asm) chunks.simps) auto
    moreover have "length (take (read_len (rd i) n) bs) \<le> n" "take (read_len (rd i) n) bs \<noteq> []"
      using False read_len_bounds(2) [of n "rd i"] by (auto simp: min_le_iff_disj)
    ultimately show ?thesis using "1.IH" [OF False] by metis
  qed
qed

definition chunk_payload :: "string \<Rightarrow> bytes \<Rightarrow> bytes" where
  "chunk_payload tid c = [TagFileChunk] @ bytes_of tid @ c"

text \<open>Several payloads, one after the other.\<close>

definition published :: "bytes \<Rightarrow> publisher \<Rightarrow> bytes list \<Rightarrow> publisher \<Rightarrow> bool" where
  "published k p ms p' \<longleftrightarrow> (\<exists>fs k'. pub_ready k' p' \<and> same_session p p'
     \<and> stream_frames (pb_sessionID p) k (pb_seqCounter p) ms fs k' (pb_seqCounter p') \<and> wire p' = wire p @ map frame_bytes fs
     \<and> length fs \<le> 2 * length ms)"

lemma published_nil: "pub_ready k p \<Longrightarrow> published k p [] p"
  unfolding published_def
  by (intro exI [of _ "[]"] exI [of _ k]) (simp add: same_session_def stream_frames.stop)

lemma published_ack: "published k p ms (p'\<lparr>pb_chunkAckChan := a\<rparr>) = published k p ms p'"
  "published k (p\<lparr>pb_chunkAckChan := a\<rparr>) ms p' = published k p ms p'"
  by (simp_all add: published_def pub_ready_def same_session_def wire_def)

lemma pub_ready_ack [simp]: "pub_ready k (p\<lparr>pb_chunkAckChan := a\<rparr>) = pub_ready k p"
  by (simp add: pub_ready_def)

lemma published_trans:
  assumes "published k p ms p1" "\<And>k1. pub_ready k1 p1 \<Longrightarrow> published k1 p1 ms' p2"
  shows "published k p (ms @ ms') p2"
proof -
  obtain fs k1 where 1: "pub_ready k1 p1" "same_session p p1" "wire p1 = wire p @ map frame_bytes fs"
    "stream_frames (pb_sessionID p) k (pb_seqCounter p) ms fs k1 (pb_seqCounter p1)" "length fs \<le> 2 * length ms"
    using assms(1) by (auto simp: published_def)
  obtain fs' k2 where 2: "pub_ready k2 p2" "same_session p1 p2" "wire p2 = wire p1 @ map frame_bytes fs'"
    "stream_frames (pb_sessionID p1) k1 (pb_seqCounter p1) ms' fs' k2 (pb_seqCounter p2)" "length fs' \<le> 2 * length ms'"
    using assms(2) [OF 1(1)] by (auto simp: published_def)
  have "pb_sessionID p1 = pb_sessionID p" using 1(2) by (simp add: same_session_def)
  then show ?thesis
    using 1 2 stream_frames_append [OF 1(4)] same_session_trans [OF 1(2) 2(2)] unfolding published_def
    by (intro exI [of _ "fs @ fs'"] exI [of _ k2]) simp
qed

lemma PublishPayload_published:
  "pub_ready k p \<Longrightarrow> payload_ok m \<Longrightarrow> \<exists>p'. PublishPayload now rnd m p = (Inr (), p') \<and> published k p [m] p' \<and> (\<exists>k'. pub_ready k' p')"
  using PublishPayload_ok [of k p m now rnd] unfolding published_def by force

lemma send_chunks_ok:
  "pub_ready k p \<Longrightarrow> 0 < n \<Longrightarrow> n \<le> 524288 \<Longrightarrow> length tid = 16 \<Longrightarrow> (\<And>i. ack i \<noteq> AckDone) \<Longrightarrow>
   \<exists>p' i'. send_chunks tm ack rd tid n False i u rest p = (Inr i', p') \<and> published k p (map (chunk_payload tid) (chunks rd n i rest)) p'"
proof (induction "length rest" arbitrary: k p i u rest rule: less_induct)
  case less
  show ?case
  proof (cases "rest = []")
    case True
    then show ?thesis
      using published_nil [OF less.prems(1)] by (simp add: send_chunks.simps chunks.simps)
  next
    case False
    let ?r = "read_len (rd i) n"
    let ?m = "chunk_payload tid (take ?r rest)"
    have r: "0 < ?r" "?r \<le> 524288" using less.prems(2,3) read_len_bounds(1) [of "rd i" n] by (simp, linarith)
    have "payload_ok ?m" using r(2) less.prems(4) by (simp add: payload_ok_def chunk_payload_def)
    from PublishPayload_published [OF less.prems(1) this, of "fst (tm i)" "snd (tm i)"] obtain p1 k1
      where p1: "PublishPayload (fst (tm i)) (snd (tm i)) ?m p = (Inr (), p1)" "published k p [?m] p1" "pub_ready k1 p1" by blast
    have lt: "length (drop ?r rest) < length rest" using False r(1) by simp
    have IH: "\<exists>p' i'. send_chunks tm ack rd tid n False (Suc i) v (drop ?r rest) q = (Inr i', p')
        \<and> published k p (?m # map (chunk_payload tid) (chunks rd n (Suc i) (drop ?r rest))) p'"
      if "q = p1 \<or> (\<exists>a. q = p1\<lparr>pb_chunkAckChan := a\<rparr>)" for v q
    proof -
      have q: "pub_ready k2 q = pub_ready k2 p1" "published k2 q ms p' = published k2 p1 ms p'" for k2 ms p'
        using that by (auto simp: published_ack)
      obtain p' i' where s: "send_chunks tm ack rd tid n False (Suc i) v (drop ?r rest) q = (Inr i', p')"
        using less.hyps [OF lt _ less.prems(2-5), of k1 q "Suc i" v] p1(3) q by auto
      have "published k2 p1 (map (chunk_payload tid) (chunks rd n (Suc i) (drop ?r rest))) p'" if "pub_ready k2 p1" for k2
        using less.hyps [OF lt _ less.prems(2-5), of k2 q "Suc i" v] that q s by auto
      then show ?thesis using s published_trans [OF p1(2)] by auto
    qed
    have c: "chunks rd n i rest = take ?r rest # chunks rd n (Suc i) (drop ?r rest)" using False less.prems(2) by (subst chunks.simps) simp
    show ?thesis
    proof (cases "16 \<le> u + 1")
      case True
      show ?thesis
      proof (cases "ack i")
        case AckRecv
        then show ?thesis
          using IH [of "p1\<lparr>pb_chunkAckChan := map_option (\<lambda>k. k - 1) (pb_chunkAckChan p1)\<rparr>" "u + 1 - 1"] p1(1) False True less.prems(2) c
          by (subst send_chunks.simps) (auto simp: chunk_payload_def)
      next
        case AckTimeout
        then show ?thesis
          using IH [of p1 0] p1(1) False True less.prems(2) c by (subst send_chunks.simps) (auto simp: chunk_payload_def)
      qed (use less.prems(5) in simp)
    next
      case f: False
      then show ?thesis
        using IH [of p1 "u + 1"] p1(1) False less.prems(2) c by (subst send_chunks.simps) (auto simp: chunk_payload_def)
    qed
  qed
qed

definition transfer_bytes :: "bytes option \<Rightarrow> bytes" where
  "transfer_bytes rnd = (case rnd of None \<Rightarrow> replicate 8 0 | Some r \<Rightarrow> go_copy (replicate 8 0) 0 8 r)"

lemma length_transfer_id [simp]: "length (hex_encode (transfer_bytes rnd)) = 16"
proof -
  have "length (hex_encode b) = 2 * length b" for b by (induction b) (simp_all add: hex_encode_def)
  then show ?thesis by (simp add: transfer_bytes_def split: option.split)
qed

text \<open>The payloads of a transfer.\<close>

definition file_payloads :: "file_header \<Rightarrow> (nat \<Rightarrow> nat) \<Rightarrow> nat \<Rightarrow> bytes \<Rightarrow> bytes list" where
  "file_payloads h rd n content =
     ([TagFileStart] @ Marshal_FileHeader h) # map (chunk_payload (fh_TransferID h)) (chunks rd n 1 content)
     @ [[TagFileEnd] @ bytes_of (fh_TransferID h)]"

lemma chunk_size_bounds: "0 < chunk_size s \<and> chunk_size s \<le> 524288"
  by (simp add: chunk_size_def)

lemma SendFile_ok:
  assumes "pub_ready k p" "fs_hashed f = Some content" "\<not> fs_rderr f" "\<And>i. ack i \<noteq> AckDone"
    and "length (Marshal_FileHeader (file_header_of (transfer_bytes rnd) f content)) < 33554404"
  shows "\<exists>p'. SendFile tm ack rnd (Some f) p = (Inr (), p')
     \<and> published k p (file_payloads (file_header_of (transfer_bytes rnd) f content) (fs_reads f) (chunk_size (fs_size f)) (fs_sent f)) p'"
proof -
  let ?h = "file_header_of (transfer_bytes rnd) f content" and ?n = "chunk_size (fs_size f)"
  let ?tid = "fh_TransferID ?h" and ?start = "[TagFileStart] @ Marshal_FileHeader (file_header_of (transfer_bytes rnd) f content)"
  have tid: "?tid = hex_encode (transfer_bytes rnd)" "length ?tid = 16" by (simp_all add: file_header_of_def)
  have n: "0 < ?n" "?n \<le> 524288" using chunk_size_bounds by auto
  have "payload_ok ?start" using assms(5) by (simp add: payload_ok_def)
  from PublishPayload_published [OF assms(1) this, of "fst (tm 0)" "snd (tm 0)"] obtain p1 k1
    where p1: "PublishPayload (fst (tm 0)) (snd (tm 0)) ?start p = (Inr (), p1)" "published k p [?start] p1" "pub_ready k1 p1" by blast
  let ?p1 = "p1\<lparr>pb_chunkAckChan := Some 0\<rparr>"
  obtain p2 i where s: "send_chunks tm ack (fs_reads f) ?tid ?n False 1 0 (fs_sent f) ?p1 = (Inr i, p2)"
    using send_chunks_ok [of k1 ?p1 ?n ?tid ack tm "fs_reads f" 1 0 "fs_sent f"] p1(3) n tid(2) assms(4) by auto
  have p2: "published k2 ?p1 (map (chunk_payload ?tid) (chunks (fs_reads f) ?n 1 (fs_sent f))) p2" if "pub_ready k2 ?p1" for k2
    using send_chunks_ok [of k2 ?p1 ?n ?tid ack tm "fs_reads f" 1 0 "fs_sent f"] that n tid(2) assms(4) s by auto
  then obtain k3 where k3: "pub_ready k3 p2" using p1(3) by (fastforce simp: published_def)
  let ?last = "[TagFileEnd] @ bytes_of ?tid"
  have e: "payload_ok ?last" using tid(2) by (simp add: payload_ok_def)
  from PublishPayload_published [OF k3 e, of "fst (tm i)" "snd (tm i)"] obtain p3
    where p3: "PublishPayload (fst (tm i)) (snd (tm i)) ?last p2 = (Inr (), p3)" by blast
  have "published k p ([?start] @ map (chunk_payload ?tid) (chunks (fs_reads f) ?n 1 (fs_sent f))) p2"
    using published_trans [OF p1(2), of "map (chunk_payload ?tid) (chunks (fs_reads f) ?n 1 (fs_sent f))" p2] p2 by (simp add: published_ack)
  then have "published k p (([?start] @ map (chunk_payload ?tid) (chunks (fs_reads f) ?n 1 (fs_sent f))) @ [?last]) p3"
    by (rule published_trans) (use PublishPayload_published [OF _ e, of _ p2 "fst (tm i)" "snd (tm i)"] p3 in force)
  then show ?thesis
    using p1(1) s p3 assms(2,3) tid(1)
    by (intro exI [of _ "p3\<lparr>pb_chunkAckChan := None\<rparr>"])
      (simp add: SendFile_def Let_def transfer_bytes_def [symmetric] published_ack file_payloads_def)
qed

section \<open>A file arrives whole: the subscriber\<close>

text \<open>The file of a transfer is open, and \<open>content\<close> has been written to it so far.\<close>

definition receiving :: "file_header \<Rightarrow> bytes \<Rightarrow> sstream \<Rightarrow> bool" where
  "receiving h content st \<longleftrightarrow> \<not> fl_full (ss_fs st)
     \<and> map_of (fl_files (ss_fs st)) (out_path (fh_Filename h)) = Some content
     \<and> (\<exists>af. map_of (ss_files st) (fh_TransferID h) = Some af \<and> af_path af = out_path (fh_Filename h)
          \<and> af_filename af = clean_name (fh_Filename h) \<and> af_header af = h
          \<and> af_off af = length content \<and> af_received af = int (length content))"

lemma receiving_start:
  assumes "header_ok h" "fh_TransferID h \<noteq> ''''" "\<not> fl_full (ss_fs st)"
    and "fl_can (ss_fs st) (out_path (fh_Filename h))" "out_path (fh_Filename h) \<noteq> ''.''"
  shows "receiving h [] (delivered ([TagFileStart] @ Marshal_FileHeader h) st)"
  using assms
  by (simp add: delivered_start file_start_def Unmarshal_Marshal fs_create_def Let_def receiving_def update_conv)

lemma receiving_chunk:
  assumes "receiving h content st" "length (fh_TransferID h) = 16" "c \<noteq> []"
  shows "receiving h (content @ c) (delivered (chunk_payload (fh_TransferID h) c) st)"
proof -
  obtain af where af: "map_of (ss_files st) (fh_TransferID h) = Some af" "af_path af = out_path (fh_Filename h)"
    "af_filename af = clean_name (fh_Filename h)" "af_header af = h" "af_off af = length content" "af_received af = int (length content)"
    using assms(1) by (auto simp: receiving_def)
  have t: "take 16 (bytes_of (fh_TransferID h) @ c) = bytes_of (fh_TransferID h)" "drop 16 (bytes_of (fh_TransferID h) @ c) = c"
    using assms(2) by simp_all
  have f: "map_of (fl_files (ss_fs st)) (out_path (fh_Filename h)) = Some content" "\<not> fl_full (ss_fs st)"
    using assms(1) by (simp_all add: receiving_def)
  have w: "fs_write (af_path af) (af_off af) c (ss_fs st)
      = (length c, (ss_fs st)\<lparr>fl_files := AList.update (out_path (fh_Filename h)) (content @ c) (fl_files (ss_fs st))\<rparr>)"
    using f af(2,5) by (simp add: fs_write_def write_at_def payload_of_def)
  show ?thesis
    unfolding chunk_payload_def append_Cons append_Nil delivered_chunk t
    using assms(2,3) af f w by (simp add: receiving_def update_conv)
qed

lemma receiving_chunks:
  "receiving h content st \<Longrightarrow> length (fh_TransferID h) = 16 \<Longrightarrow> list_all (\<lambda>c. c \<noteq> []) cs \<Longrightarrow>
   receiving h (content @ concat cs) (fold delivered (map (chunk_payload (fh_TransferID h)) cs) st)"
proof (induction cs arbitrary: content st)
  case (Cons c cs)
  show ?case using Cons.IH [OF receiving_chunk [OF Cons.prems(1,2)]] Cons.prems by simp
qed simp

lemma receiving_end:
  assumes "receiving h content st" "length (fh_TransferID h) = 16" "fh_SHA256 h = hex_encode (sha256 content)"
  shows "delivered ([TagFileEnd] @ bytes_of (fh_TransferID h)) st
     = st\<lparr>ss_notices := ss_notices st @ [NoteVerified (clean_name (fh_Filename h)) (int (length content))],
          ss_files := AList.delete (fh_TransferID h) (ss_files st)\<rparr>"
proof -
  obtain af where af: "map_of (ss_files st) (fh_TransferID h) = Some af" "af_path af = out_path (fh_Filename h)"
    "af_filename af = clean_name (fh_Filename h)" "af_header af = h" "af_received af = int (length content)"
    using assms(1) by (auto simp: receiving_def)
  have "length (sha256 content) = 32" by simp
  then have "hex_encode (sha256 content) \<noteq> ''''" by (cases "sha256 content") (auto simp: hex_encode_def)
  then have "verify_file af (ss_fs st) = [NoteVerified (clean_name (fh_Filename h)) (int (length content))]"
    using assms(1,3) af by (simp add: verify_file_def out_path_def receiving_def)
  then show ?thesis using af(1) assms(2) by (simp add: delivered_end)
qed

lemma file_received:
  assumes "header_ok h" "length (fh_TransferID h) = 16" "fh_SHA256 h = hex_encode (sha256 content)" "0 < n"
    and "\<not> fl_full (ss_fs st)" "fl_can (ss_fs st) (out_path (fh_Filename h))" "out_path (fh_Filename h) \<noteq> ''.''"
  shows "\<exists>st'. fold delivered (file_payloads h rd n content) st = st'
     \<and> map_of (fl_files (ss_fs st')) (out_path (fh_Filename h)) = Some content
     \<and> last (ss_notices st') = NoteVerified (clean_name (fh_Filename h)) (int (length content))"
proof -
  have t: "fh_TransferID h \<noteq> ''''" using assms(2) by auto
  have "list_all (\<lambda>c. c \<noteq> []) (chunks rd n 1 content)" using chunks_bounds by (auto simp: list_all_iff)
  from receiving_chunks [OF receiving_start [OF assms(1) t assms(5-7)] assms(2) this]
  have r: "receiving h content (fold delivered (map (chunk_payload (fh_TransferID h)) (chunks rd n 1 content))
      (delivered ([TagFileStart] @ Marshal_FileHeader h) st))"
    using concat_chunks [OF assms(4)] by simp
  show ?thesis
    using receiving_end [OF r assms(2,3)] r by (simp add: file_payloads_def receiving_def)
qed

section \<open>A file arrives whole: both ends\<close>

lemma valid_utf8_ascii: "list_all (\<lambda>b. b < 0x80) s \<Longrightarrow> valid_utf8 s"
proof (induction s)
  case (Cons a s)
  then show ?case by (subst valid_utf8.simps) (simp add: rune_len.simps)
qed (simp add: valid_utf8.simps)

lemma hex_utf8: "valid_utf8 (bytes_of (hex_encode b))"
proof (rule valid_utf8_ascii)
  have "(of_char c :: byte) < 0x80" if "c \<in> hex_alphabet" for c
    using that by (auto simp: hex_alphabet_def)
  then show "list_all (\<lambda>b. b < 0x80) (bytes_of (hex_encode b))"
    using hex_encode_set [of b] by (auto simp: list_all_iff bytes_of_def)
qed

lemma file_payloads_ok:
  assumes "length (Marshal_FileHeader h) < 33554404" "length (fh_TransferID h) = 16" "n \<le> 524288"
  shows "list_all payload_ok (file_payloads h rd n content)"
proof -
  have "payload_ok (chunk_payload (fh_TransferID h) c)" if "c \<in> set (chunks rd n 1 content)" for c
    using chunks_bounds [OF that] assms(2,3) by (simp add: payload_ok_def chunk_payload_def)
  then show ?thesis using assms(1,2) by (auto simp: file_payloads_def list_all_iff payload_ok_def)
qed

text \<open>Headers are short.\<close>

lemma length_quote_body: "length (quote_body s) \<le> 6 * length s"
proof (induction s rule: quote_body.induct)
  case (1 s)
  show ?case
  proof (cases s)
    case (Cons a r)
    let ?n = "rune_size s"
    have n: "0 < ?n" "?n \<le> length s" using rune_size_pos rune_size_le [of s] Cons by auto
    have "length (quote_ascii b) \<le> 6" for b by (simp add: quote_ascii_def u_escape_def hex4_def)
    then have "length (quote_body s) \<le> 6 * ?n + length (quote_body (drop ?n s))"
      using n Cons by (subst quote_body.simps) (auto simp: Let_def u_escape_def hex4_def intro: order.trans)
    moreover have "length (quote_body (drop ?n s)) \<le> 6 * (length s - ?n)" using 1 Cons by simp
    ultimately show ?thesis using n by linarith
  qed (simp add: quote_body.simps)
qed

lemma length_print_nat: "n < 10 ^ Suc k \<Longrightarrow> length (print_nat n) \<le> Suc k"
proof (induction k arbitrary: n)
  case 0
  then show ?case by (subst print_nat.simps) simp
next
  case (Suc k)
  show ?case
  proof (cases "n < 10")
    case False
    have "n div 10 < 10 ^ Suc k" using Suc.prems by auto
    then show ?thesis using Suc.IH [of "n div 10"] False by (subst print_nat.simps) simp
  qed (subst print_nat.simps, simp)
qed

lemma header_short:
  assumes "0 \<le> fs_size f" "fs_size f < 2 ^ 63" "length (Base (fs_path f)) \<le> 65535"
  shows "length (Marshal_FileHeader (file_header_of (transfer_bytes rnd) f content)) < 33554404"
proof -
  let ?h = "file_header_of (transfer_bytes rnd) f content"
  have q: "length (quote (bytes_of s)) \<le> 6 * length s + 2" for s
    using length_quote_body [of "bytes_of s"] by (simp add: quote_def)
  have "nat (fs_size f) < 10 ^ Suc 18" using assms(1,2) by simp
  then have "length (print_int (fs_size f)) \<le> 19" using length_print_nat [of "nat (fs_size f)" 18] assms(1) by (simp add: print_int_def)
  moreover have "length (hex_encode (sha256 content)) = 64"
  proof -
    have "length (hex_encode b) = 2 * length b" for b by (induction b) (simp_all add: hex_encode_def)
    then show ?thesis by simp
  qed
  ultimately show ?thesis
    using q [of "''transfer_id''"] q [of "''filename''"] q [of "''file_size''"] q [of "''sha256''"] q [of "fh_TransferID ?h"]
      q [of "fh_Filename ?h"] q [of "fh_SHA256 ?h"] assms(3)
    by (simp add: Marshal_FileHeader_def file_header_of_def)
qed

text \<open>C6: a file arrives whole. The two engines hold the same key and the publisher sends a file that
  does not change meanwhile, in reads of any sizes, with acknowledgements or time-outs in any order; the subscriber
  reads the frames the publisher wrote, through any key changes. Then \<open>SendFile\<close> succeeds, the
  subscriber's file has exactly the sent bytes, and the subscriber reports it as verified.\<close>

theorem file_transfer_complete:
  assumes "pub_ready k p" and "sub_ready k (pb_seqCounter p) (sl_sub l)"
    and "fs_hashed f = Some (fs_sent f)" "\<not> fs_rderr f" and "\<And>i. ack i \<noteq> AckDone"
    and "valid_utf8 (bytes_of (Base (fs_path f)))" "0 \<le> fs_size f" "fs_size f < 2 ^ 63"
    and "length (Base (fs_path f)) \<le> 65535"
    and "SendFile tm ack rnd (Some f) p = (res, p')" and "wire p' = wire p @ new"
    and "unat (pb_seqCounter p) + length new < 2 ^ 64"
    and "reading (sb_conn (sl_sub l)) = Some (concat new @ r, t, False)"
    and "list_all undisturbed its" and "length its = length new"
    and "\<not> fl_full (ss_fs (sl_stream l))" "fl_can (ss_fs (sl_stream l)) (out_path (Base (fs_path f)))"
    and "out_path (Base (fs_path f)) \<noteq> ''.''"
  shows "res = Inr () \<and> (\<exists>l'. SubscribeStream P its l = (Next, l')
     \<and> map_of (fl_files (ss_fs (sl_stream l'))) (out_path (Base (fs_path f))) = Some (fs_sent f)
     \<and> last (ss_notices (sl_stream l')) = NoteVerified (clean_name (Base (fs_path f))) (int (length (fs_sent f))))"
proof -
  let ?h = "file_header_of (transfer_bytes rnd) f (fs_sent f)" and ?n = "chunk_size (fs_size f)"
  let ?ms = "file_payloads ?h (fs_reads f) ?n (fs_sent f)"
  have h: "fh_TransferID ?h = hex_encode (transfer_bytes rnd)" "fh_Filename ?h = Base (fs_path f)"
    "fh_SHA256 ?h = hex_encode (sha256 (fs_sent f))" "fh_FileSize ?h = fs_size f"
    by (simp_all add: file_header_of_def)
  then have ok: "header_ok ?h" using assms(6-8) hex_utf8 by (simp add: header_ok_def)
  have n: "0 < ?n" "?n \<le> 524288" using chunk_size_bounds by auto
  have short: "length (Marshal_FileHeader ?h) < 33554404" using assms(7-9) by (rule header_short)
  obtain fs k' where fs: "res = Inr ()" "wire p' = wire p @ map frame_bytes fs"
    "stream_frames (pb_sessionID p) k (pb_seqCounter p) ?ms fs k' (pb_seqCounter p')"
    using SendFile_ok [OF assms(1,3,4) _ short, where ack = ack and tm = tm] assms(5,10) by (auto simp: published_def)
  have new: "new = map frame_bytes fs" using fs(2) assms(11) by simp
  have k: "length (pb_sessionID p) = 16" "length k = 32" using assms(1) by (auto simp: pub_ready_def)
  have "list_all payload_ok ?ms" using short n(2) by (intro file_payloads_ok) (simp_all add: h)
  then obtain l' where "SubscribeStream P its l = (Next, l')" "sl_stream l' = fold delivered ?ms (sl_stream l)"
    using SubscribeStream_stream [OF fs(3) k assms(2) _ _ assms(14)] assms(12,13,15) new by auto
  then show ?thesis
    using fs(1) file_received [OF ok _ h(3) n(1) assms(16)] assms(17,18) by (auto simp: h)
qed

section \<open>Witnesses\<close>

definition sample_file :: file_src where
  "sample_file = \<lparr>fs_path = ''a'', fs_size = 2, fs_hashed = Some [1, 2], fs_sent = [1, 2], fs_rderr = False, fs_reads = (\<lambda>_. 1)\<rparr>"

definition sample_loop :: "bytes \<Rightarrow> sloop" where
  "sample_loop i = \<lparr>sl_sub = sample_sub\<lparr>sb_conn := Some (fresh_conn i EOF)\<rparr>, sl_stream = sample_stream, sl_backoff = 0\<rparr>"

lemma sample_loop_ready: "sub_ready (replicate 32 1) 0 (sl_sub (sample_loop i))"
  "reading (sb_conn (sl_sub (sample_loop i))) = Some (i, EOF, False)" "sl_stream (sample_loop i) = sample_stream"
  by (simp_all add: sample_loop_def sub_ready_def sample_sub_def reading_def fresh_conn_def)

lemma sample_name: "Base ''a'' = ''a''" "clean_name ''a'' = ''a''" "out_path ''a'' = ''downloads/a''"
proof -
  show b: "Base ''a'' = ''a''" by (simp add: Base_def)
  then show c: "clean_name ''a'' = ''a''" by (simp add: clean_name_def)
  then show "out_path ''a'' = ''downloads/a''" by (simp add: out_path_eq)
qed

lemma sample_name_utf8: "valid_utf8 (bytes_of ''a'')"
  by (simp add: valid_utf8_ascii bytes_of_def)

lemma undisturbed_replicate: "list_all undisturbed (replicate n sample_iter)"
  by (simp add: list_all_iff undisturbed_def sample_iter_def)

theorem file_transfer_complete_witness:
  "\<exists>res p' new l'. SendFile (\<lambda>_. (0, None)) (\<lambda>_. AckTimeout) (Some [9]) (Some sample_file) sample_pub = (res, p')
     \<and> wire p' = wire sample_pub @ new \<and> res = Inr ()
     \<and> SubscribeStream sample_prims (replicate (length new) sample_iter) (sample_loop (concat new)) = (Next, l')
     \<and> map_of (fl_files (ss_fs (sl_stream l'))) ''downloads/a'' = Some [1, 2]
     \<and> last (ss_notices (sl_stream l')) = NoteVerified ''a'' 2"
proof -
  let ?h = "file_header_of (transfer_bytes (Some [9])) sample_file [1, 2]"
  have f: "fs_hashed sample_file = Some (fs_sent sample_file)" "\<not> fs_rderr sample_file" "fs_sent sample_file = [1, 2]"
    "length (Base (fs_path sample_file)) \<le> 65535" "0 \<le> fs_size sample_file" "fs_size sample_file < 2 ^ 63"
    "valid_utf8 (bytes_of (Base (fs_path sample_file)))" "fs_path sample_file = ''a''"
    by (simp_all add: sample_file_def sample_name sample_name_utf8)
  have "length (Marshal_FileHeader ?h) < 33554404" using f(4-6) by (intro header_short)
  then obtain p' fs k' where p': "SendFile (\<lambda>_. (0, None)) (\<lambda>_. AckTimeout) (Some [9]) (Some sample_file) sample_pub = (Inr (), p')"
    "wire p' = wire sample_pub @ map frame_bytes fs" "length fs \<le> 2 * length (file_payloads ?h (fs_reads sample_file) (chunk_size (fs_size sample_file)) [1, 2])"
    using SendFile_ok [OF sample_pub_ready f(1,2), of "\<lambda>_. AckTimeout" "Some [9]" "\<lambda>_. (0, None)"] f(3)
    by (auto simp: published_def)
  have "length (file_payloads ?h (fs_reads sample_file) (chunk_size (fs_size sample_file)) [1, 2]) = 4"
    by (simp add: file_payloads_def chunk_size_def sample_file_def chunks.simps read_len_def)
  then have l: "length (map frame_bytes fs) \<le> 8" using p'(3) by simp
  have s: "pb_seqCounter sample_pub = 0" "\<not> fl_full (ss_fs sample_stream)" "fl_can (ss_fs sample_stream) x" for x
    by (simp_all add: sample_pub_def sample_stream_def sample_fsys_def)
  show ?thesis
    using file_transfer_complete [OF sample_pub_ready _ f(1,2) _ f(7,5,6,4) p'(1,2), of "sample_loop (concat (map frame_bytes fs))" "[]" EOF
        "replicate (length (map frame_bytes fs)) sample_iter" sample_prims] p'(1,2) l s f(3,8)
    by (auto simp: sample_loop_ready sample_name undisturbed_replicate)
qed

theorem downloads_confined_witness:
  "\<exists>l f l' path e. SubscribeStream sample_prims [sample_iter] l = (f, l') \<and> ss_files (sl_stream l) = []
     \<and> map_of (fl_files (ss_fs (sl_stream l'))) path \<noteq> map_of (fl_files (ss_fs (sl_stream l))) path
     \<and> path = ''downloads/'' @ e \<and> e \<noteq> '''' \<and> CHR ''/'' \<notin> set e \<and> e \<noteq> ''.'' \<and> e \<noteq> ''..''"
proof -
  let ?h = "file_header_of (transfer_bytes (Some [9])) sample_file [1, 2]"
  let ?m = "[TagFileStart] @ Marshal_FileHeader ?h" and ?k = "replicate 32 1 :: bytes" and ?sid = "replicate 16 5 :: bytes"
  have h: "header_ok ?h" "fh_Filename ?h = ''a''" "fh_TransferID ?h \<noteq> ''''"
    using length_transfer_id [of "Some [9]"] sample_name_utf8
    by (auto simp: header_ok_def file_header_of_def hex_utf8 sample_file_def sample_name simp del: length_transfer_id)
  have m: "payload_ok ?m" using header_short [of sample_file "Some [9]" "[1, 2]"]
    by (simp add: payload_ok_def sample_file_def sample_name)
  let ?fs = "[sealed ?k MsgTypeDataStream ?sid (0 + 1) (PadPayload ?m DefaultPaddingTargetSize)]"
  let ?l = "sample_loop (concat (map frame_bytes ?fs))"
  have "stream_frames ?sid ?k 0 [?m] ?fs ?k (0 + 1)" by (intro stream_frames.data stream_frames.stop)
  from SubscribeStream_stream [OF this _ _ sample_loop_ready(1), of "[sample_iter]" "concat (map frame_bytes ?fs)" "[]" EOF sample_prims]
  obtain l' where l': "SubscribeStream sample_prims [sample_iter] ?l = (Next, l')" "sl_stream l' = delivered ?m sample_stream"
    using m by (auto simp: sample_loop_ready undisturbed_def sample_iter_def)
  have "receiving ?h [] (delivered ?m sample_stream)"
    using h by (intro receiving_start) (simp_all add: sample_stream_def sample_fsys_def sample_name)
  then have d: "map_of (fl_files (ss_fs (sl_stream l'))) ''downloads/a'' \<noteq> map_of (fl_files (ss_fs (sl_stream ?l))) ''downloads/a''"
    using h(2) l'(2) by (simp add: receiving_def sample_name sample_loop_ready sample_stream_def sample_fsys_def)
  have e: "ss_files (sl_stream ?l) = []" by (simp add: sample_loop_ready sample_stream_def)
  show ?thesis using downloads_confined [OF l'(1) e d] l'(1) e d by blast
qed

end
