(* ===== verification/Feed_Limits.thy ===== *)
theory Feed_Limits
  imports Feed_Files
begin

text \<open>
  The limits of the stream: what a relay can do with sequence numbers, what happens between the
  two halves of a key change, how long a subscriber tries to come back, and what is left after
  \<open>Close\<close>.
\<close>

section \<open>Sequence numbers are not authenticated\<close>

text \<open>A frame with another sequence number in front of the ciphertext.\<close>

definition renumber :: "u64 \<Rightarrow> envelope \<Rightarrow> envelope" where
  "renumber n e = e\<lparr>env_Payload := PutUint64 n @ drop 8 (env_Payload e)\<rparr>"

lemma renumber_sel [simp]:
  "env_Version (renumber n e) = env_Version e" "env_MsgType (renumber n e) = env_MsgType e"
  "env_SessionID (renumber n e) = env_SessionID e" "env_Nonce (renumber n e) = env_Nonce e"
  "drop 8 (env_Payload (renumber n e)) = drop 8 (env_Payload e)"
  "Uint64 (go_slice (env_Payload (renumber n e)) 0 8) = n"
  by (simp_all add: renumber_def go_slice_def u64be.get_put)

lemma length_renumber: "8 \<le> length (env_Payload e) \<Longrightarrow> length (env_Payload (renumber n e)) = length (env_Payload e)"
  by (simp add: renumber_def)

text \<open>C38: the relay can renumber frames. Take a data frame that the publisher sealed, under any number,
  and write another number larger than the subscriber's last one into its first eight payload
  bytes: the subscriber authenticates it, delivers the payload (again, if it has seen it before)
  and takes the forged number as its last. With the largest number, no later frame is ever
  delivered.\<close>

theorem sequence_number_not_authenticated:
  assumes "length sid = 16" "payload_ok m" and "seen k l s" and "l < n'"
  shows "process_frame (renumber n' (data_frame k sid (n, m))) (s, st)
      = (Next, deliver m (s\<lparr>sb_lastSeqNum := n', sb_ringBuffer := Push n' m (sb_ringBuffer s)\<rparr>, st))
    \<and> (seen k (-1) s' \<longrightarrow> process_frame (data_frame k sid (n, m)) (s', st) = (Next, s', st))"
proof -
  let ?e = "data_frame k sid (n, m)"
  have c: "sb_cipher s = Some (keyed k)" "sb_lastSeqNum s = l" using assms(3) by (simp_all add: seen_def)
  have len: "8 \<le> length (env_Payload ?e)" by (simp add: data_frame_def)
  have aad: "frame_aad (renumber n' ?e) = frame_aad ?e" using len by (simp add: frame_aad_def length_renumber)
  have d: "Decrypt (keyed k) (drop 8 (env_Payload ?e)) (env_Nonce ?e) (payload_of (frame_aad ?e))
      = Inr (PadPayload m DefaultPaddingTargetSize)"
    using Decrypt_sealed [OF assms(1)] by (simp add: data_frame_def)
  have u: "UnpadPayload (PadPayload m DefaultPaddingTargetSize) = Inr m"
    using assms(2) by (simp add: UnpadPayload_Pad lenPrefixSize_def payload_ok_def)
  have "process_frame (renumber n' ?e) (s, st)
      = (Next, deliver m (s\<lparr>sb_lastSeqNum := n', sb_ringBuffer := Push n' m (sb_ringBuffer s)\<rparr>, st))"
    using c len aad d u assms(4) [folded not_le]
    by (simp add: process_frame_def on_data_def Let_def length_renumber) (simp add: data_frame_def)
  moreover have "process_frame ?e (s', st) = (Next, s', st)" if "seen k (-1) s'"
    using process_data [OF assms(1), of s' k m n st] that assms(2) by (simp add: seen_def data_frame_def payload_ok_def)
  ultimately show ?thesis by blast
qed

theorem sequence_number_not_authenticated_witness:
  "process_frame (renumber (-1) (data_frame (replicate 32 1) (replicate 16 5) (1, [1, 49]))) (sample_sub\<lparr>sb_lastSeqNum := 7\<rparr>, sample_stream)
     = (Next, deliver [1, 49] (sample_sub\<lparr>sb_lastSeqNum := 7\<rparr>\<lparr>sb_lastSeqNum := -1, sb_ringBuffer := Push (-1) [1, 49] (sb_ringBuffer (sample_sub\<lparr>sb_lastSeqNum := 7\<rparr>))\<rparr>, sample_stream))
   \<and> process_frame (data_frame (replicate 32 1) (replicate 16 5) (1, [1, 49])) (sample_sub\<lparr>sb_lastSeqNum := -1\<rparr>, sample_stream)
     = (Next, sample_sub\<lparr>sb_lastSeqNum := -1\<rparr>, sample_stream)"
proof -
  have "length (replicate 16 5 :: bytes) = 16" "payload_ok [1, 49]" "seen (replicate 32 1) 7 (sample_sub\<lparr>sb_lastSeqNum := 7\<rparr>)"
    "(7 :: u64) < -1" "seen (replicate 32 1) (-1) (sample_sub\<lparr>sb_lastSeqNum := -1\<rparr>)"
    by (simp_all add: payload_ok_def seen_def sample_sub_def word_less_nat_alt unsigned_minus_1_eq_mask mask_eq_exp_minus_1)
  then show ?thesis
    using sequence_number_not_authenticated [of "replicate 16 5" "[1, 49]" "replicate 32 1" 7 "sample_sub\<lparr>sb_lastSeqNum := 7\<rparr>" "-1" 1
        sample_stream "sample_sub\<lparr>sb_lastSeqNum := -1\<rparr>"] by blast
qed

section \<open>Between the two halves of a key change\<close>

text \<open>The tag that the key \<open>j\<close> gives the ciphertext that the key \<open>k\<close> makes of a payload frame.\<close>

definition tag_under :: "bytes \<Rightarrow> bytes \<Rightarrow> bytes \<Rightarrow> u64 \<Rightarrow> bytes \<Rightarrow> bytes" where
  "tag_under j k sid n pt =
     gcm_tag j (frame_nonce sid n)
       (header_bytes Version MsgTypeDataStream sid (frame_nonce sid n) (of_nat (24 + length pt)))
       (gcm_ctr k (frame_nonce sid n) pt)"

lemma gcm_open_seal:
  "gcm_open j n (gcm_seal k n pt aad) aad =
     (if gcm_tag j n aad (gcm_ctr k n pt) = gcm_tag k n aad (gcm_ctr k n pt)
      then Some (gcm_ctr j n (gcm_ctr k n pt)) else None)"
  by (auto simp: gcm_open_def gcm_seal_def Let_def)

lemma process_other_key:
  assumes "length sid = 16" "sb_cipher s = Some (keyed j)"
  shows "process_frame (sealed k MsgTypeDataStream sid n pt) (s, st) = (Return (Inl (ErrCrypto ErrDecryptionFailed)), s, st)
     \<longleftrightarrow> tag_under j k sid n pt \<noteq> tag_under k k sid n pt"
proof -
  have "drop 8 (env_Payload (sealed k MsgTypeDataStream sid n pt)) = gcm_seal k (frame_nonce sid n) pt
      (header_bytes Version MsgTypeDataStream sid (frame_nonce sid n) (of_nat (24 + length pt)))"
    by (simp add: sealed_def)
  then show ?thesis
    using assms by (simp add: process_frame_def on_data_def frame_aad_sealed payload_of_def Decrypt_def
        crypto_NonceSize_def gcm_open_seal tag_under_def Let_def)
qed

text \<open>C37: a payload published between the two halves of \<open>TriggerRekey\<close> ends the stream of every
  subscriber. The publisher sends the rekey frame; before it changes its key, another goroutine
  (\<open>SendFile\<close> beside \<open>PublishStream\<close>) publishes a payload; then it changes its key. Both succeed for the
  publisher. On the wire the rekey frame comes first, and the payload after it is sealed with the old
  key. A subscriber follows the rekey frame to the new key, and then refuses the payload: it
  delivers nothing and returns the authentication error, exactly when the new key does not
  happen to give that ciphertext the very tag of 16 bytes the old key gave it.\<close>

theorem rekey_race:
  assumes "pub_ready k p" "rnd = Some r" "payload_ok m" and "seen k l s"
  shows "\<exists>salt k' p1 p2 p3 s'. rekey_send rnd p = (Inr (Some (k, salt)), p1) \<and> publish_sealed m p1 = (Inr (), p2)
     \<and> rekey_commit now k salt p2 = (Inr (), p3) \<and> RatchetKey k salt = Inr k' \<and> pub_ready k' p3
     \<and> wire p3 = wire p @ [frame_bytes (sealed k MsgTypeRekey (pb_sessionID p) (pb_seqCounter p + 1) salt),
          frame_bytes (sealed k MsgTypeDataStream (pb_sessionID p) (pb_seqCounter p + 2) (PadPayload m DefaultPaddingTargetSize))]
     \<and> process_frame (sealed k MsgTypeRekey (pb_sessionID p) (pb_seqCounter p + 1) salt) (s, st) = (Next, s', st) \<and> seen k' l s'
     \<and> (process_frame (sealed k MsgTypeDataStream (pb_sessionID p) (pb_seqCounter p + 2) (PadPayload m DefaultPaddingTargetSize)) (s', st)
            = (Return (Inl (ErrCrypto ErrDecryptionFailed)), s', st)
          \<longleftrightarrow> tag_under k' k (pb_sessionID p) (pb_seqCounter p + 2) (PadPayload m DefaultPaddingTargetSize)
            \<noteq> tag_under k k (pb_sessionID p) (pb_seqCounter p + 2) (PadPayload m DefaultPaddingTargetSize))"
proof -
  let ?sid = "pb_sessionID p" and ?pt = "PadPayload m DefaultPaddingTargetSize"
  obtain p1 salt where p1: "rekey_send rnd p = (Inr (Some (k, salt)), p1)" "pub_ready k p1" "same_session p p1"
    "wire p1 = wire p @ [frame_bytes (sealed k MsgTypeRekey ?sid (pb_seqCounter p + 1) salt)]"
    "pb_seqCounter p1 = pb_seqCounter p + 1"
    using rekey_send_ok [OF assms(1,2)] by blast
  have sid: "pb_sessionID p1 = ?sid" "length ?sid = 16" "length k = 32"
    using p1(3) assms(1) by (auto simp: same_session_def pub_ready_def)
  obtain p2 where p2: "publish_sealed m p1 = (Inr (), p2)" "pub_ready k p2"
    "wire p2 = wire p1 @ [frame_bytes (sealed k MsgTypeDataStream ?sid (pb_seqCounter p1 + 1) ?pt)]"
    using publish_sealed_ok [OF p1(2) assms(3)] sid(1) by auto
  have n: "pb_seqCounter p1 + 1 = pb_seqCounter p + 2" using p1(5) by (simp add: add.assoc)
  obtain p3 k' where p3: "rekey_commit now k salt p2 = (Inr (), p3)" "RatchetKey k salt = Inr k'" "pub_ready k' p3" "wire p3 = wire p2"
    using rekey_commit_ok [OF p2(2), of now salt] by blast
  obtain s' where s': "process_frame (sealed k MsgTypeRekey ?sid (pb_seqCounter p + 1) salt) (s, st) = (Next, s', st)" "seen k' l s'"
    using process_rekey [OF sid(2) _ sid(3) p3(2)] assms(4) by (auto simp: seen_def)
  then have "sb_cipher s' = Some (keyed k')" by (simp add: seen_def)
  note lost = process_other_key [OF sid(2) this, of k "pb_seqCounter p + 2" ?pt st]
  have "wire p3 = wire p @ [frame_bytes (sealed k MsgTypeRekey ?sid (pb_seqCounter p + 1) salt),
      frame_bytes (sealed k MsgTypeDataStream ?sid (pb_seqCounter p + 2) ?pt)]"
    using p1(4) p2(3) p3(4) n by simp
  then show ?thesis using p1(1) p2(1) p3(1-3) s' lost by blast
qed

theorem rekey_race_witness:
  "\<exists>salt k' p1 p2 p3 s'. rekey_send (Some [3]) sample_pub = (Inr (Some (replicate 32 1, salt)), p1)
     \<and> publish_sealed [1, 49] p1 = (Inr (), p2) \<and> rekey_commit 0 (replicate 32 1) salt p2 = (Inr (), p3)
     \<and> RatchetKey (replicate 32 1) salt = Inr k' \<and> pub_ready k' p3 \<and> seen k' 0 s'
     \<and> (process_frame (sealed (replicate 32 1) MsgTypeDataStream (pb_sessionID sample_pub) (pb_seqCounter sample_pub + 2)
            (PadPayload [1, 49] DefaultPaddingTargetSize)) (s', sample_stream)
            = (Return (Inl (ErrCrypto ErrDecryptionFailed)), s', sample_stream)
          \<longleftrightarrow> tag_under k' (replicate 32 1) (pb_sessionID sample_pub) (pb_seqCounter sample_pub + 2) (PadPayload [1, 49] DefaultPaddingTargetSize)
            \<noteq> tag_under (replicate 32 1) (replicate 32 1) (pb_sessionID sample_pub) (pb_seqCounter sample_pub + 2) (PadPayload [1, 49] DefaultPaddingTargetSize))"
proof -
  have "payload_ok [1, 49]" "seen (replicate 32 1) 0 sample_sub" by (simp_all add: payload_ok_def seen_def sample_sub_def)
  from rekey_race [OF sample_pub_ready refl this, of "[3]" 0 sample_stream] show ?thesis by blast
qed

section \<open>Coming back\<close>

text \<open>The waiting times a subscriber uses: 100 ms, doubled up to six times.\<close>

definition backoffs :: "time set" where
  "backoffs = {100000000, 200000000, 400000000, 800000000, 1600000000, 3200000000, 6400000000}"

lemma reconnect_once_doubles:
  "reconnect_once P a (b, s) = (r, b', s') \<Longrightarrow> b' = b \<or> b' = (if b < 5 * 1000000000 then b * 2 else b)"
  unfolding reconnect_once_def Let_def by (simp split: if_split_asm option.split_asm sum.split_asm prod.split_asm)

lemma reconnect_once_backoff:
  "reconnect_once P a (b, s) = (r, b', s') \<Longrightarrow> b \<in> backoffs \<Longrightarrow> b' \<in> backoffs"
  using reconnect_once_doubles [of P a b s r b' s'] by (auto simp: backoffs_def)

lemma reconnectLoop_backoff:
  "reconnectLoop P as n (b, s) = (r, b', s') \<Longrightarrow> b \<in> backoffs \<Longrightarrow> b' \<in> backoffs"
proof (induction "10 - n" arbitrary: n b s)
  case 0
  then show ?case by (subst (asm) reconnectLoop.simps) simp
next
  case (Suc m)
  obtain r1 b1 s1 where o: "reconnect_once P (as n) (b, s) = (r1, b1, s1)" by (cases "reconnect_once P (as n) (b, s)") auto
  have b1: "b1 \<in> backoffs" using reconnect_once_backoff [OF o] Suc.prems(2) .
  have n: "\<not> 10 \<le> n" using Suc.hyps(2) by simp
  show ?case
  proof (cases r1)
    case None
    then have "reconnectLoop P as (Suc n) (b1, s1) = (r, b', s')"
      using Suc.prems(1) o n by (subst (asm) reconnectLoop.simps) simp
    then show ?thesis using Suc.hyps b1 by (intro Suc.hyps(1) [of "Suc n" b1 s1]) auto
  next
    case (Some x)
    then show ?thesis using Suc.prems(1) o n b1 by (subst (asm) reconnectLoop.simps) simp
  qed
qed

lemma SubscribeStream_backoff:
  "SubscribeStream P its l = (f, l') \<Longrightarrow> sl_backoff l \<in> backoffs \<Longrightarrow> sl_backoff l' \<in> backoffs"
proof (induction its arbitrary: l)
  case (Cons it its)
  obtain f1 l1 where s: "SubscribeStream_step P it l = (f1, l1)" by fastforce
  have r: "sl_backoff l2 \<in> backoffs" if "read_and_process P it q = (g, l2)" "sl_backoff q \<in> backoffs" for q g l2
    using that
    by (auto simp: read_and_process_def Let_def dest: reconnectLoop_backoff split: option.splits prod.splits sum.splits if_splits)
      (simp_all add: backoffs_def)
  have "sl_backoff l1 \<in> backoffs"
    using s Cons.prems(2) reconnectLoop_backoff r
    by (fastforce simp: SubscribeStream_step_def Let_def split: if_splits prod.splits)
  then show ?case using Cons s by (cases f1) auto
qed simp

lemma reconnectLoop_ten:
  "reconnectLoop P as n bs = reconnectLoop P (\<lambda>i. if i < 10 then as i else a) n bs"
proof (induction "10 - n" arbitrary: n bs)
  case 0
  then show ?case by (subst (1 2) reconnectLoop.simps) simp
next
  case (Suc m)
  then have n: "n < 10" "m = 10 - Suc n" by simp_all
  show ?case
    using Suc.hyps(1) [OF n(2)] n(1) by (subst (1 2) reconnectLoop.simps) (auto split: prod.split option.split)
qed

text \<open>C30: reconnecting is bounded. Whatever happens during a subscription, the time a subscriber waits
  before an attempt stays between 100 ms and 6.4 s; and what a reconnection comes to depends on
  its first ten attempts only.\<close>

theorem reconnect_bounds:
  assumes "SubscribeStream P its l = (f, l')" and "sl_backoff l = 100 * 1000000"
  shows "100 * 1000000 \<le> sl_backoff l' \<and> sl_backoff l' \<le> 6400 * 1000000
     \<and> reconnectLoop P as 0 (sl_backoff l', s) = reconnectLoop P (\<lambda>i. if i < 10 then as i else a) 0 (sl_backoff l', s)"
proof -
  have "sl_backoff l' \<in> backoffs" using SubscribeStream_backoff [OF assms(1)] assms(2) by (simp add: backoffs_def)
  then have "100 * 1000000 \<le> sl_backoff l' \<and> sl_backoff l' \<le> 6400 * 1000000" by (auto simp: backoffs_def)
  then show ?thesis using reconnectLoop_ten by blast
qed

text \<open>An attempt that cannot dial.\<close>

definition unreachable :: "attempt \<Rightarrow> bool" where
  "unreachable a \<longleftrightarrow> (\<forall>m addr fp. dial_transport (at_net a) m addr fp = None)"

lemma reconnect_once_unreachable:
  assumes "unreachable a"
  shows "\<exists>r b' q. reconnect_once P a (b, s) = (r, b', s\<lparr>sb_pakePeer := q\<rparr>) \<and> r \<noteq> Some True
     \<and> (\<not> at_done a \<longrightarrow> sb_passphrase s \<noteq> None \<longrightarrow> r = None)"
proof -
  have c: "Subscriber_Connect P (at_net a) rnd q = (Inl ErrDial, q)" for rnd q
    using assms by (simp add: Subscriber_Connect_def unreachable_def)
  have same: "s = s\<lparr>sb_pakePeer := sb_pakePeer s\<rparr>" by simp
  show ?thesis
  proof (cases "at_done a \<or> sb_passphrase s = None")
    case True
    then show ?thesis using same by (auto simp: reconnect_once_def Let_def intro!: exI [of _ "sb_pakePeer s"] split: option.split)
  next
    case False
    then obtain pw where pw: "sb_passphrase s = Some pw" "\<not> at_done a" by auto
    show ?thesis
    proof (cases "NewPAKESubscriber P (at_rnd a) pw")
      case (Inl e)
      then show ?thesis using pw same by (auto simp: reconnect_once_def Let_def intro!: exI [of _ "sb_pakePeer s"])
    next
      case (Inr peer)
      then show ?thesis using pw c by (auto simp: reconnect_once_def Let_def intro!: exI [of _ "Some peer"])
    qed
  qed
qed

lemma reconnectLoop_unreachable:
  "list_all (\<lambda>i. unreachable (as i)) [n..<10] \<Longrightarrow> \<exists>bs'. reconnectLoop P as n bs = (False, bs')"
proof (induction "10 - n" arbitrary: n bs)
  case 0
  then show ?case by (subst reconnectLoop.simps) simp
next
  case (Suc m)
  then have n: "n < 10" "m = 10 - Suc n" by simp_all
  then have u: "unreachable (as n)" "list_all (\<lambda>i. unreachable (as i)) [Suc n..<10]"
    using Suc.prems by (simp_all add: upt_conv_Cons)
  obtain b s where bs: "bs = (b, s)" by (cases bs)
  obtain r b' q where o: "reconnect_once P (as n) (b, s) = (r, b', s\<lparr>sb_pakePeer := q\<rparr>)" "r \<noteq> Some True"
    using reconnect_once_unreachable [OF u(1), of P b s] by blast
  show ?case
    using Suc.hyps(1) [OF n(2) u(2), of "(b', s\<lparr>sb_pakePeer := q\<rparr>)"] o n(1) bs
    by (subst reconnectLoop.simps) (auto split: option.split)
qed

text \<open>Attempts that find no relay change the waiting time and the pending exchange only.\<close>

lemma reconnectLoop_skip:
  "j \<le> n \<Longrightarrow> n < 10 \<Longrightarrow> list_all (\<lambda>i. unreachable (as i) \<and> \<not> at_done (as i)) [j..<n] \<Longrightarrow> sb_passphrase s \<noteq> None \<Longrightarrow>
   \<exists>b' q. reconnectLoop P as j (b, s) = reconnectLoop P as n (b', s\<lparr>sb_pakePeer := q\<rparr>)"
proof (induction "n - j" arbitrary: j b s)
  case 0
  then have "j = n" by simp
  then show ?case by (intro exI [of _ b] exI [of _ "sb_pakePeer s"]) simp
next
  case (Suc m)
  then have j: "j < n" "m = n - Suc j" by simp_all
  then have u: "unreachable (as j)" "\<not> at_done (as j)" "list_all (\<lambda>i. unreachable (as i) \<and> \<not> at_done (as i)) [Suc j..<n]"
    using Suc.prems(3) by (simp_all add: upt_conv_Cons)
  obtain b1 q1 where o: "reconnect_once P (as j) (b, s) = (None, b1, s\<lparr>sb_pakePeer := q1\<rparr>)"
    using reconnect_once_unreachable [OF u(1), of P b s] u(2) Suc.prems(4) by auto
  obtain b' q where "reconnectLoop P as (Suc j) (b1, s\<lparr>sb_pakePeer := q1\<rparr>) = reconnectLoop P as n (b', s\<lparr>sb_pakePeer := q\<rparr>)"
    using Suc.hyps(1) [OF j(2) _ Suc.prems(2) u(3), of "s\<lparr>sb_pakePeer := q1\<rparr>" b1] j(1) Suc.prems(4) by auto
  moreover have "reconnectLoop P as j (b, s) = reconnectLoop P as (Suc j) (b1, s\<lparr>sb_pakePeer := q1\<rparr>)"
    using o j(1) Suc.prems(2) by (subst reconnectLoop.simps) simp
  ultimately show ?case by metis
qed

text \<open>C31: a subscriber gives up after ten attempts, and not before. When reading fails and the next ten
  attempts cannot dial, \<open>SubscribeStream\<close> returns in that very iteration. When fewer than ten attempts
  cannot dial and the context is not done meanwhile, the attempt after them is made, the tenth at the
  latest, with the subscriber unchanged but for the pending exchange; if it reconnects, so does the loop.\<close>

theorem subscriber_gives_up:
  assumes "sb_conn (sl_sub l) = Some c" "Decode c = (Inl e, c')"
    and "list_all (\<lambda>i. unreachable (it_attempts it i)) [0..<10]"
    and "n < 10" "list_all (\<lambda>i. unreachable (as i) \<and> \<not> at_done (as i)) [0..<n]" "sb_passphrase s \<noteq> None"
  shows "(\<exists>r l'. SubscribeStream P (it # its) l = (Return r, l'))
    \<and> (\<exists>b' q. \<forall>r bs. reconnect_once P (as n) (b', s\<lparr>sb_pakePeer := q\<rparr>) = (Some r, bs) \<longrightarrow>
          reconnectLoop P as 0 (b, s) = (r, bs))"
proof -
  have r: "\<exists>bs'. reconnectLoop P (it_attempts it) 0 bs = (False, bs')" for bs
    using reconnectLoop_unreachable [OF assms(3)] by blast
  have read: "\<exists>r l'. read_and_process P it l = (Return r, l')"
    using assms(1,2) r [of "(sl_backoff l, (sl_sub l)\<lparr>sb_conn := Some c'\<rparr>)"]
    by (auto simp: read_and_process_def Let_def split: prod.split)
  obtain r' l' where "SubscribeStream_step P it l = (Return r', l')"
  proof (cases "it_close it \<and> \<not> sb_closed (sl_sub l)")
    case True
    then have "sb_conn (Subscriber_Close (sl_sub l)) = None" "sb_closed (Subscriber_Close (sl_sub l))"
      by (simp_all add: Subscriber_Close_def)
    then have "SubscribeStream_step P it l
        = (Return (if it_done it then Inl ErrCtxDone else Inr ()), l\<lparr>sl_sub := Subscriber_Close (sl_sub l)\<rparr>)"
      using True by (simp add: SubscribeStream_step_def isClosed_def)
    then show ?thesis by (rule that)
  next
    case False
    then have "(if it_close it then l\<lparr>sl_sub := Subscriber_Close (sl_sub l)\<rparr> else l) = l"
      by (simp add: Subscriber_Close_def)
    then have "SubscribeStream_step P it l = (if it_done it then (Return (Inl ErrCtxDone), l) else read_and_process P it l)"
      using assms(1) by (simp add: SubscribeStream_step_def)
    then show ?thesis using that read by (cases "it_done it") auto
  qed
  then have returns: "\<exists>r l'. SubscribeStream P (it # its) l = (Return r, l')" by simp
  obtain b' q where l: "reconnectLoop P as 0 (b, s) = reconnectLoop P as n (b', s\<lparr>sb_pakePeer := q\<rparr>)"
    using reconnectLoop_skip [OF _ assms(4,5,6), of P b] by auto
  have "reconnectLoop P as 0 (b, s) = (r, bs)" if "reconnect_once P (as n) (b', s\<lparr>sb_pakePeer := q\<rparr>) = (Some r, bs)" for r bs
    using l that assms(4) by (subst (asm) (2) reconnectLoop.simps) simp
  then show ?thesis using returns by blast
qed

definition dead_net :: net_env where
  "dead_net = \<lparr>ne_tls = (\<lambda>_ _. None), ne_tcp = (\<lambda>_ _. None), ne_quic = (\<lambda>_. None), ne_getenv = (\<lambda>_. ''''), ne_spki = (\<lambda>_. None)\<rparr>"

definition lonely_iter :: iteration where
  "lonely_iter = sample_iter\<lparr>it_attempts := (\<lambda>_. \<lparr>at_done = False, at_net = dead_net, at_rnd = sample_rnd\<rparr>)\<rparr>"

lemma dead_unreachable: "unreachable (it_attempts lonely_iter i)"
  by (simp add: unreachable_def lonely_iter_def dead_net_def dial_transport_def DialRelayWithPin_def tls_dial_def Let_def
      split: option.split prod.split)

definition fading :: "nat \<Rightarrow> attempt" where
  "fading i = (it_attempts lonely_iter i)\<lparr>at_done := (i = 9)\<rparr>"

theorem subscriber_gives_up_witness:
  "(\<exists>r l'. SubscribeStream sample_prims (lonely_iter # []) (sample_loop []) = (Return r, l'))
   \<and> (\<exists>b' q. \<forall>r bs. reconnect_once sample_prims (fading 9) (b', sample_sub\<lparr>sb_pakePeer := q\<rparr>) = (Some r, bs) \<longrightarrow>
          reconnectLoop sample_prims fading 0 (0, sample_sub) = (r, bs))"
proof (rule subscriber_gives_up)
  show "sb_conn (sl_sub (sample_loop [])) = Some (fresh_conn [] EOF)" by (simp add: sample_loop_def)
  show "Decode (fresh_conn [] EOF) = (Inl (ErrHeader EOF), fresh_conn [] EOF)"
    by (simp add: Decode_def DecodeWithMax_def ReadFull_def fresh_conn_def)
  show "list_all (\<lambda>i. unreachable (it_attempts lonely_iter i)) [0..<10]" using dead_unreachable by (simp add: list_all_iff)
  show "list_all (\<lambda>i. unreachable (fading i) \<and> \<not> at_done (fading i)) [0..<9]"
    using dead_unreachable by (simp add: list_all_iff fading_def unreachable_def)
qed (simp_all add: sample_sub_def)

theorem reconnect_bounds_witness:
  "\<exists>f l'. SubscribeStream sample_prims [lonely_iter, lonely_iter] ((sample_loop [])\<lparr>sl_backoff := 100 * 1000000\<rparr>) = (f, l')
     \<and> 100 * 1000000 \<le> sl_backoff l' \<and> sl_backoff l' \<le> 6400 * 1000000"
proof -
  obtain f l' where s: "SubscribeStream sample_prims [lonely_iter, lonely_iter] ((sample_loop [])\<lparr>sl_backoff := 100 * 1000000\<rparr>) = (f, l')"
    by fastforce
  from reconnect_bounds [OF this] s show ?thesis by simp
qed

end
