(* ===== verification/Feed_Life.thy ===== *)
theory Feed_Life
  imports Feed_Limits
begin

text \<open>
  The life of the engines: a subscriber that lost its connection comes back to a streaming
  publisher, and a publisher that was closed stays silent.
\<close>

section \<open>Coming back to the stream\<close>

text \<open>The publisher's listener answers a returning subscriber with the current key.\<close>

lemma rejoin_ok:
  assumes "pub_ready k p" "pb_masterKey p = Some k" "pb_passphrase p = Some pw" "pb_conn p = Some c"
    and "NewPAKEPublisher P prnd pw = Inr pub" "Update P (hr_enc rnd) (hr_pad rnd) pub w1 = (Inr (), pub')" "length w1 = 1280"
    and "pk_sharedKey pub' = Some key" "length key = 32" "pk_pubBytes pub' = Some w2" "length w2 = 1280" "pk_role pub' = 1"
    and "hr_nonce rnd = Some x" and "length sid = 16"
  shows "\<exists>wr p'. length wr = 60 \<and> UnwrapSessionKey key wr = Inr k
     \<and> handleSync_step P prnd rnd (p\<lparr>pb_conn := Some (c\<lparr>cn_in := frame_bytes (plain_env MsgTypePAKEInitSub sid w1) @ r\<rparr>)\<rparr>) = (True, p')
     \<and> wire p' = wire p @ [frame_bytes (plain_env MsgTypePAKEStep2 (pb_sessionID p) (w2 @ wr @ confirm_mac key 1))]
     \<and> pub_ready k p'"
proof -
  let ?e = "plain_env MsgTypePAKEInitSub sid w1" and ?p = "p\<lparr>pb_conn := Some (c\<lparr>cn_in := r\<rparr>)\<rparr>"
  have c: "open_conn c" "length k = 32" "length (pb_sessionID p) = 16" using assms(1,4) by (auto simp: pub_ready_def)
  have d: "Decode (c\<lparr>cn_in := frame_bytes ?e @ r\<rparr>) = (Inr ?e, c\<lparr>cn_in := r\<rparr>)"
    using c(1) assms(7,14) by (subst Decode_frame [where r = r]) (auto simp: open_conn_def intro: plain_sendable)
  obtain wr where wr: "answer_peer rnd (pb_sessionID p) k pub' = Inr (plain_env MsgTypePAKEStep2 (pb_sessionID p) (w2 @ wr @ confirm_mac key 1))"
    "length wr = 60" "UnwrapSessionKey key wr = Inr k"
    using answer_peer_ok [OF assms(8-10) c(2) assms(13), of "pb_sessionID p"] assms(12) by auto
  let ?f = "plain_env MsgTypePAKEStep2 (pb_sessionID p) (w2 @ wr @ confirm_mac key 1)"
  have f: "sendFrame ?f ?p = (Inr (), ?p\<lparr>pb_conn := Some (c\<lparr>cn_in := r, cn_out := cn_out c @ [frame_bytes ?f]\<rparr>)\<rparr>)"
    using sendFrame_open [of ?p "c\<lparr>cn_in := r\<rparr>" ?f] c assms(11) wr(2) by (simp add: plain_sendable)
  have "rejoin P prnd rnd w1 ?p = snd (sendFrame ?f ?p)"
    using assms(2,3,5,6) wr(1) by (simp add: rejoin_def getPassphrase_def payload_of_def)
  then have h: "handleSync_step P prnd rnd (p\<lparr>pb_conn := Some (c\<lparr>cn_in := frame_bytes ?e @ r\<rparr>)\<rparr>)
      = (True, ?p\<lparr>pb_conn := Some (c\<lparr>cn_in := r, cn_out := cn_out c @ [frame_bytes ?f]\<rparr>)\<rparr>)"
    using d f by (simp add: handleSync_step_def)
  show ?thesis
    using h wr(2,3) assms(1,4) by (intro exI [of _ wr] exI) (auto simp: wire_def pub_ready_def open_conn_def)
qed

text \<open>An attempt whose connection carries the publisher's answer.\<close>

lemma attempt_succeeds:
  assumes "\<not> at_done a" "sb_passphrase s = Some pw" "NewPAKESubscriber P (at_rnd a) pw = Inr sub" "pk_pubBytes sub = Some w1" "length w1 = 1280"
    and "dial_transport (at_net a) (sb_transportMode s) (sb_relayAddr s) (sb_expectedFingerprint s)
       = Some (fresh_conn (frame_bytes (plain_env MsgTypePAKEStep2 sid (w2 @ wr @ confirm_mac key 1)) @ r) t)"
    and "Update P [] None sub w2 = (Inr (), sub')" "length w2 = 1280" "pk_sharedKey sub' = Some key" "pk_role sub' = 2"
    and "length wr = 60" "UnwrapSessionKey key wr = Inr k" "length k = 32" "length sid = 16" "length (sb_sessionID s) = 16"
  shows "\<exists>b' s' c. reconnect_once P a (b, s) = (Some True, b', s') \<and> seen k (sb_lastSeqNum s) s' \<and> sb_conn s' = Some c
     \<and> cn_out c = [frame_bytes (plain_env MsgTypePAKEInitSub (sb_sessionID s) w1),
          frame_bytes (plain_env MsgTypeKeyConfirm (sb_sessionID s) (confirm_mac key 2)),
          frame_bytes (plain_env MsgTypeSyncReq (sb_sessionID s) (PutUint64 (sb_lastSeqNum s)))]
     \<and> cn_in c = r \<and> sb_sasHex s' = fst (CalculateSAS k)"
proof -
  let ?in = "frame_bytes (plain_env MsgTypePAKEStep2 sid (w2 @ wr @ confirm_mac key 1)) @ r"
  let ?b = "if b < 5 * 1000000000 then b * 2 else b"
  let ?i = "frame_bytes (plain_env MsgTypePAKEInitSub (sb_sessionID s) w1)" and ?s = "s\<lparr>sb_pakePeer := Some sub\<rparr>"
  let ?c = "(fresh_conn [] t)\<lparr>cn_out := [?i]\<rparr>"
  have o: "open_conn (fresh_conn ?in t)" "open_conn ?c" by (simp_all add: open_conn_def fresh_conn_def)
  have "sendable (plain_env MsgTypePAKEInitSub (sb_sessionID s) w1)" using assms(15) by (rule plain_sendable) (simp add: assms(5))
  from Encode_open [OF this o(1)] have e: "Encode framePool_New (fresh_conn ?in t) (plain_env MsgTypePAKEInitSub (sb_sessionID s) w1)
      = (Inr (), ?c\<lparr>cn_in := ?in\<rparr>)" by (simp add: fresh_conn_def)
  have 1: "Subscriber_Connect P (at_net a) (at_rnd a) ?s = (Inr (), ?s\<lparr>sb_conn := Some (?c\<lparr>cn_in := ?in\<rparr>)\<rparr>)"
    using assms(4,6) e [unfolded plain_env_def]
    by (simp add: Subscriber_Connect_def Bytes_def payload_of_def Let_def plain_env_def)
  let ?s1 = "?s\<lparr>sb_conn := Some ?c\<rparr>"
  let ?f = "frame_bytes (plain_env MsgTypeKeyConfirm (sb_sessionID s) (confirm_mac key 2))"
  let ?s2 = "?s1\<lparr>sb_conn := Some (?c\<lparr>cn_in := r, cn_out := [?i, ?f]\<rparr>), sb_pakePeer := Some sub', sb_cipher := Some (keyed k),
      sb_sasHex := fst (CalculateSAS k), sb_sasEmoji := snd (CalculateSAS k)\<rparr>"
  have 2: "Subscriber_CompleteHandshake P (?s\<lparr>sb_conn := Some (?c\<lparr>cn_in := ?in\<rparr>)\<rparr>) = (Inr (), ?s2)"
    using Subscriber_handshake_ok [of ?s1 ?c sub P w2 sub' key wr k sid r] o(2) assms(7-15) by simp
  have 3: "SendSyncRequest ?s2 = (Inr (), ?s2\<lparr>sb_conn := Some (?c\<lparr>cn_in := r, cn_out := [?i, ?f,
      frame_bytes (plain_env MsgTypeSyncReq (sb_sessionID s) (PutUint64 (sb_lastSeqNum s)))]\<rparr>)\<rparr>)"
    using SendSyncRequest_ok [of ?s2 "?c\<lparr>cn_in := r, cn_out := [?i, ?f]\<rparr>"] o(2) assms(15) by (simp add: open_conn_def)
  have "reconnect_once P a (b, s) = (Some True, ?b, snd (SendSyncRequest ?s2))"
    using assms(1-3) 1 2 by (simp add: reconnect_once_def)
  then show ?thesis unfolding 3 by (simp add: seen_def)
qed

text \<open>C9: a subscriber that lost its connection comes back. Up to nine attempts find no relay, the next
  one does: the subscriber's message reaches the listener of the streaming publisher, whose answer
  it reads. Then the reconnection succeeds, the subscriber holds the publisher's current key
  (however often it has changed since), still knows the last number it has seen, and has asked
  for what it missed; the publisher streams on.\<close>

theorem subscriber_comes_back:
  assumes "prims_ok P" and "pub_ready k p" "pb_masterKey p = Some k" "pb_passphrase p = Some pw" "pb_conn p = Some c"
    and "sb_passphrase s = Some pw" "length (sb_sessionID s) = 16"
    and "n < 10" "list_all (\<lambda>i. unreachable (as i) \<and> \<not> at_done (as i)) [0..<n]" "\<not> at_done (as n)"
    and "NewPAKEPublisher P prnd pw = Inr pub" "NewPAKESubscriber P (at_rnd (as n)) pw = Inr sub"
    and "x_dh P (pk_privKey pub) (x_pub P (pk_privKey sub)) = Some sec" and "hr_pad rnd = Some pad" "hr_nonce rnd = Some nonce"
    and "w1 = frame_bytes (plain_env MsgTypePAKEInitSub (sb_sessionID s) (payload_of (Bytes (Some sub))))"
    and "handleSync_step P prnd rnd (p\<lparr>pb_conn := Some (c\<lparr>cn_in := w1 @ r\<rparr>)\<rparr>) = (go, p')" "wire p' = wire p @ [w2]"
    and "dial_transport (at_net (as n)) (sb_transportMode s) (sb_relayAddr s) (sb_expectedFingerprint s) = Some (fresh_conn (w2 @ r') t)"
  shows "go \<and> pub_ready k p' \<and> (\<exists>b' s' cs. reconnectLoop P as 0 (b, s) = (True, b', s') \<and> seen k (sb_lastSeqNum s) s'
     \<and> sb_conn s' = Some cs \<and> hd (cn_out cs) = w1 \<and> cn_in cs = r'
     \<and> last (cn_out cs) = frame_bytes (plain_env MsgTypeSyncReq (sb_sessionID s) (PutUint64 (sb_lastSeqNum s))))"
proof -
  obtain pub' sub' m1 m2 key where u: "pk_pubBytes sub = Some m1" "length m1 = 1280"
    "Update P (hr_enc rnd) (hr_pad rnd) pub m1 = (Inr (), pub')" "pk_pubBytes pub' = Some m2" "length m2 = 1280"
    "Update P [] None sub m2 = (Inr (), sub')" "pk_sharedKey pub' = Some key" "pk_sharedKey sub' = Some key" "length key = 32"
    "pk_role pub' = 1" "pk_role sub' = 2"
    using pake_updates [OF assms(1,11-13), of "hr_enc rnd" pad] assms(14) by metis
  have w1: "w1 = frame_bytes (plain_env MsgTypePAKEInitSub (sb_sessionID s) m1)"
    using assms(16) u(1) by (simp add: Bytes_def payload_of_def)
  obtain wr where p': "length wr = 60" "UnwrapSessionKey key wr = Inr k" "go" "pub_ready k p'"
    "w2 = frame_bytes (plain_env MsgTypePAKEStep2 (pb_sessionID p) (m2 @ wr @ confirm_mac key 1))"
    using rejoin_ok [OF assms(2-5,11) u(3,2,7,9,4,5,10) assms(15,7), of r] assms(17,18) w1 by auto
  have k: "length k = 32" "length (pb_sessionID p) = 16" using assms(2) by (auto simp: pub_ready_def)
  obtain b1 q where l: "reconnectLoop P as 0 (b, s) = reconnectLoop P as n (b1, s\<lparr>sb_pakePeer := q\<rparr>)"
    using reconnectLoop_skip [OF _ assms(8,9), of s P b] assms(6) by auto
  let ?s = "s\<lparr>sb_pakePeer := q\<rparr>"
  obtain b' s' cs where s': "reconnect_once P (as n) (b1, ?s) = (Some True, b', s')" "seen k (sb_lastSeqNum s) s'" "sb_conn s' = Some cs"
    "cn_out cs = [w1, frame_bytes (plain_env MsgTypeKeyConfirm (sb_sessionID s) (confirm_mac key 2)),
        frame_bytes (plain_env MsgTypeSyncReq (sb_sessionID s) (PutUint64 (sb_lastSeqNum s)))]" "cn_in cs = r'"
    using attempt_succeeds [OF assms(10) _ assms(12) u(1,2) _ u(6,5,8,11) p'(1,2) k(1), of ?s "pb_sessionID p" r' t b1]
      assms(6,7,19) k(2) p'(5) w1 by auto
  have "reconnectLoop P as n (b1, ?s) = (True, b', s')" using s'(1) assms(8) by (subst reconnectLoop.simps) simp
  then show ?thesis using p'(3,4) l s'(2-5) by auto
qed

text \<open>A network in which every plain dial finds the given connection.\<close>

definition tcp_net :: "conn \<Rightarrow> net_env" where
  "tcp_net c = dead_net\<lparr>ne_tcp := (\<lambda>_ _. Some c)\<rparr>"

lemma tcp_net_dial: "dial_transport (tcp_net c) '''' addr '''' = Some c"
proof -
  have "TrimSpace (ToLower '''') = ''''" by (simp add: ToLower_def TrimSpace_visible)
  then show ?thesis
    by (simp add: dial_transport_def ModeQUIC_def DialRelayWithPin_def tcp_net_def dead_net_def tls_dial_def Let_def split: prod.split)
qed

definition comeback :: "bytes \<Rightarrow> nat \<Rightarrow> attempt" where
  "comeback w i = \<lparr>at_done = False, at_net = (if i = 0 then dead_net else tcp_net (fresh_conn w EOF)), at_rnd = sample_rnd\<lparr>pr_x := Some [9]\<rparr>\<rparr>"

theorem subscriber_comes_back_witness:
  "\<exists>sub p' w1 w2 b' s' cs. NewPAKESubscriber sample_prims (sample_rnd\<lparr>pr_x := Some [9]\<rparr>) [7] = Inr sub
     \<and> w1 = frame_bytes (plain_env MsgTypePAKEInitSub (sb_sessionID sample_sub) (payload_of (Bytes (Some sub))))
     \<and> handleSync_step sample_prims sample_rnd sample_hs (sample_pub\<lparr>pb_conn := Some ((fresh_conn [] EOF)\<lparr>cn_in := w1 @ []\<rparr>)\<rparr>) = (True, p')
     \<and> wire p' = wire sample_pub @ [w2] \<and> pub_ready (replicate 32 1) p'
     \<and> reconnectLoop sample_prims (comeback (w2 @ [])) 0 (0, sample_sub) = (True, b', s') \<and> seen (replicate 32 1) (sb_lastSeqNum sample_sub) s'
     \<and> sb_conn s' = Some cs \<and> hd (cn_out cs) = w1"
proof -
  obtain pub sub where pub: "NewPAKEPublisher sample_prims sample_rnd [7] = Inr pub"
    and sub: "NewPAKESubscriber sample_prims (sample_rnd\<lparr>pr_x := Some [9]\<rparr>) [7] = Inr sub"
    by (rule sample_peers)
  obtain pub' sub' m1 m2 key where u: "pk_pubBytes sub = Some m1" "length m1 = 1280"
    "Update sample_prims (hr_enc sample_hs) (hr_pad sample_hs) pub m1 = (Inr (), pub')" "pk_pubBytes pub' = Some m2" "length m2 = 1280"
    "pk_sharedKey pub' = Some key" "length key = 32" "pk_role pub' = 1"
    using pake_updates [OF sample_prims_ok pub sub sample_dh, of "hr_enc sample_hs" "[6]"] by (auto simp: sample_hs_def)
  have p: "pb_masterKey sample_pub = Some (replicate 32 1)" "pb_passphrase sample_pub = Some [7]"
    "pb_conn sample_pub = Some (fresh_conn [] EOF)" by (simp_all add: sample_pub_def)
  have s: "sb_passphrase sample_sub = Some [7]" "length (sb_sessionID sample_sub) = 16" "sb_transportMode sample_sub = ''''"
    "sb_expectedFingerprint sample_sub = ''''" by (simp_all add: sample_sub_def)
  let ?w1 = "frame_bytes (plain_env MsgTypePAKEInitSub (sb_sessionID sample_sub) (payload_of (Bytes (Some sub))))"
  obtain p' w2 where p': "handleSync_step sample_prims sample_rnd sample_hs (sample_pub\<lparr>pb_conn := Some ((fresh_conn [] EOF)\<lparr>cn_in := ?w1 @ []\<rparr>)\<rparr>) = (True, p')"
    "wire p' = wire sample_pub @ [w2]"
    using rejoin_ok [OF sample_pub_ready p pub u(3,2,6,7,4,5,8) _ s(2), of "[8]" "[]"] u(1)
    by (auto simp: sample_hs_def Bytes_def payload_of_def)
  have a: "list_all (\<lambda>i. unreachable (comeback (w2 @ []) i) \<and> \<not> at_done (comeback (w2 @ []) i)) [0..<1]"
    using dead_unreachable by (simp add: comeback_def unreachable_def lonely_iter_def)
  have "at_rnd (comeback (w2 @ []) 1) = sample_rnd\<lparr>pr_x := Some [9]\<rparr>" "\<not> at_done (comeback (w2 @ []) 1)"
    "dial_transport (at_net (comeback (w2 @ []) 1)) (sb_transportMode sample_sub) (sb_relayAddr sample_sub) (sb_expectedFingerprint sample_sub)
      = Some (fresh_conn (w2 @ []) EOF)"
    using tcp_net_dial s(3,4) by (simp_all add: comeback_def)
  moreover have "hr_pad sample_hs = Some [6]" "hr_nonce sample_hs = Some [8]" by (simp_all add: sample_hs_def)
  ultimately have "True \<and> pub_ready (replicate 32 1) p' \<and> (\<exists>b' s' cs. reconnectLoop sample_prims (comeback (w2 @ [])) 0 (0, sample_sub) = (True, b', s')
      \<and> seen (replicate 32 1) (sb_lastSeqNum sample_sub) s' \<and> sb_conn s' = Some cs \<and> hd (cn_out cs) = ?w1 \<and> cn_in cs = []
      \<and> last (cn_out cs) = frame_bytes (plain_env MsgTypeSyncReq (sb_sessionID sample_sub) (PutUint64 (sb_lastSeqNum sample_sub))))"
    using sub by (intro subscriber_comes_back [OF sample_prims_ok sample_pub_ready p s(1,2) _ a _ pub _ sample_dh _ _ refl p']) simp_all
  then show ?thesis using sub p' by blast
qed

section \<open>A closed publisher stays closed\<close>

text \<open>The state \<open>Close\<close> leaves: no secret, and no connection that can be used.\<close>

definition dead :: "publisher \<Rightarrow> bool" where
  "dead p \<longleftrightarrow> pb_closed p \<and> pb_cipher p = None \<and> pb_pakePeer p = None \<and> pb_masterKey p = None \<and> pb_passphrase p = None
     \<and> (case pb_conn p of None \<Rightarrow> True | Some c \<Rightarrow> cn_closed c)"

lemma Encode_closed [simp]: "cn_closed c \<Longrightarrow> snd (Encode buf c e) = c"
  by (simp add: Encode_def Let_def conn_Write_def split: option.split)

lemma Decode_closed [simp]: "cn_closed c \<Longrightarrow> Decode c = (Inl (ErrHeader ErrClosed), c)"
  by (simp add: Decode_def DecodeWithMax_def ReadFull_def HeaderSize_def)

lemma sendFrame_dead:
  assumes "dead p"
  shows "snd (sendFrame e p) = p"
proof (cases "pb_conn p")
  case (Some c)
  obtain r where "Encode framePool_New c e = (r, c)"
    using Some assms Encode_closed [of c framePool_New e] by (cases "Encode framePool_New c e") (simp add: dead_def)
  moreover have "p\<lparr>pb_conn := Some c\<rparr> = p" using Some by simp
  ultimately show ?thesis using Some by (simp add: sendFrame_def split: sum.split)
qed (simp add: sendFrame_def)

lemma Connect_dead:
  assumes "dead p" "fresh_net N"
  shows "dead (snd (Publisher_Connect P N rnd p)) \<and> sent (snd (Publisher_Connect P N rnd p)) = sent p"
proof (cases "dial_transport N (pb_transportMode p) (pb_relayAddr p) (pb_expectedFingerprint p)")
  case (Some c)
  have "cn_out c = []" using assms(2) Some by (simp add: fresh_net_def)
  moreover have "NewPAKEPublisher P rnd (payload_of None) = Inl ErrEmptySecret"
    by (simp add: payload_of_def NewPAKEPublisher_def newPAKEPeer_def)
  ultimately show ?thesis
    using assms(1) Some by (auto simp: Publisher_Connect_def dead_def sent_def wire_def gone_def conn_Close_def Let_def split: option.splits)
qed (use assms in \<open>simp add: Publisher_Connect_def\<close>)

lemma pub_step_dead:
  assumes "dead p" "op_ok op"
  shows "dead (pub_step op p) \<and> sent (pub_step op p) = sent p"
proof (cases op)
  case (PoConnect P N rnd)
  then show ?thesis using assms Connect_dead by simp
next
  case (PoSync P prnd rnd)
  then show ?thesis
    using assms(1) by (auto simp: handleSync_step_def dead_def sent_def wire_def split: option.splits)
next
  case (PoHandshake P rnd)
  then show ?thesis
    using assms(1) by (auto simp: Publisher_CompleteHandshake_def dead_def sent_def wire_def split: option.splits)
next
  case (PoRekeyCommit now k salt)
  then show ?thesis using assms(1) by (auto simp: rekey_commit_def dead_def split: sum.split)
qed (use assms sendFrame_dead in \<open>auto simp: dead_def count_payload_def rekey_send_def publish_sealed_def Publisher_Close_def sent_def wire_def Let_def\<close>)

lemma Close_dead: "\<not> pb_closed p \<Longrightarrow> dead (Publisher_Close p)"
  by (simp add: Publisher_Close_def dead_def Let_def split: option.split)

text \<open>C10: \<open>Close\<close> is for good. After it the publisher holds neither a key nor the passphrase, whatever is
  called on it in whatever order: later payloads, key changes, heartbeats, a listener that is
  still running, a new \<open>Connect\<close> or a second \<open>Close\<close> write no further byte to any connection.\<close>

theorem closed_for_good:
  assumes "\<not> pb_closed p" "list_all op_ok ops"
  shows "dead (fold pub_step ops (Publisher_Close p)) \<and> sent (fold pub_step ops (Publisher_Close p)) = sent (Publisher_Close p)"
proof -
  have "dead q \<Longrightarrow> dead (fold pub_step ops q) \<and> sent (fold pub_step ops q) = sent q" for q
    using assms(2) by (induction ops arbitrary: q) (use pub_step_dead in \<open>auto split: prod.split\<close>)
  then show ?thesis using Close_dead [OF assms(1)] by simp
qed

theorem closed_for_good_witness:
  "\<not> pb_closed sample_pub \<and> sent (Publisher_Close sample_pub) \<noteq> [] \<and> sent (fold pub_step [PoPublish [1], PoTick] (Publisher_Close sample_pub))
     = sent (Publisher_Close sample_pub)"
proof -
  have "\<not> pb_closed sample_pub" by (simp add: sample_pub_def)
  moreover have "sent (Publisher_Close sample_pub) \<noteq> []"
    using Encode_open [of "plain_env MsgTypeClose (replicate 16 5) []" "fresh_conn [] EOF"] plain_sendable [of "replicate 16 5" "[]" MsgTypeClose]
    by (simp add: sample_pub_def Publisher_Close_def sent_def wire_def plain_env_def open_conn_def fresh_conn_def conn_Close_def)
  ultimately show ?thesis using closed_for_good [of sample_pub "[PoPublish [1], PoTick]"] by simp
qed

end
