(* ===== verification/Wasm.thy ===== *)
theory Wasm
  imports Feed_Life
begin

text \<open>
  \<open>cmd/wasm/main.go\<close>: the functions the browser calls. Their arguments are strings, their results an
  error, a string or an object with string fields; the peer of the running handshake and the
  memory registry are the state. Drawing random bytes is an argument. The JavaScript around them
  is not part of the program.
\<close>

section \<open>Hexadecimal strings\<close>

definition from_hex :: "char \<Rightarrow> nat option" where
  "from_hex c =
     (let n = (of_char c :: nat) in
      if 48 \<le> n \<and> n \<le> 57 then Some (n - 48)
      else if 97 \<le> n \<and> n \<le> 102 then Some (n - 87)
      else if 65 \<le> n \<and> n \<le> 70 then Some (n - 55) else None)"

text \<open>\<open>hex.DecodeString\<close>; \<open>None\<close>: an invalid character or an odd length.\<close>

fun hex_decode :: "string \<Rightarrow> bytes option" where
  "hex_decode [] = Some []"
| "hex_decode [c] = None"
| "hex_decode (c # d # s) =
     (case (from_hex c, from_hex d) of
        (Some h, Some l) \<Rightarrow> map_option (Cons (of_nat (16 * h + l))) (hex_decode s)
      | _ \<Rightarrow> None)"

lemma from_hex_digit:
  assumes "n < 16"
  shows "from_hex (hex_digit n) = Some n"
proof -
  have "list_all (\<lambda>n. from_hex (hex_digit n) = Some n) [0..<16]" by (simp add: upt_rec from_hex_def hex_digit_def)
  then show ?thesis using assms by (simp add: list_all_iff)
qed

lemma hex_decode_encode [simp]: "hex_decode (hex_encode bs) = Some bs"
proof (induction bs)
  case (Cons b bs)
  have "unat b < 256" using unsigned_less [of b] by simp
  then have "from_hex (hex_digit (unat b div 16)) = Some (unat b div 16)" "from_hex (hex_digit (unat b mod 16)) = Some (unat b mod 16)"
    by (simp_all add: from_hex_digit less_mult_imp_div_less)
  then show ?case using Cons by (simp add: hex_encode_def flip: of_nat_mult of_nat_add)
qed (simp add: hex_encode_def)

lemma hex_encode_eq_Nil [simp]: "hex_encode bs = '''' \<longleftrightarrow> bs = []"
  by (cases bs) (simp_all add: hex_encode_def)

section \<open>Stateless functions\<close>

datatype wasm_err = WaArgs | WaHex | WaCrypto crypto_err | WaNoPeer | WaSize | WaPanic

datatype js = JsStr string | JsObj "(string \<times> string) list" | JsTrue

definition sas_fields :: "bytes \<Rightarrow> (string \<times> string) list" where
  "sas_fields key = (let (hexSAS, emojiSAS) = CalculateSAS key in [(''sasHex'', hexSAS), (''sasEmoji'', string_of emojiSAS)])"

definition calculateSAS :: "string list \<Rightarrow> wasm_err + js" where
  "calculateSAS args =
     (case args of
        [] \<Rightarrow> Inl WaArgs
      | a # _ \<Rightarrow>
          (case hex_decode a of
             None \<Rightarrow> Inl WaHex
           | Some keyBytes \<Rightarrow>
               let (hexSAS, emojiSAS) = CalculateSAS keyBytes in
               Inr (JsObj [(''hex'', hexSAS), (''emoji'', string_of emojiSAS)])))"

definition deriveKey :: "string list \<Rightarrow> wasm_err + js" where
  "deriveKey args =
     (case args of
        a # b # _ \<Rightarrow>
          let sessionID = (case hex_decode b of None \<Rightarrow> bytes_of b | Some s \<Rightarrow> s) in
          (case DeriveKey (bytes_of a) sessionID of
             Inl e \<Rightarrow> Inl (WaCrypto e)
           | Inr key \<Rightarrow> Inr (JsStr (hex_encode key)))
      | _ \<Rightarrow> Inl WaArgs)"

definition encryptPayload :: "bytes option \<Rightarrow> string list \<Rightarrow> wasm_err + js" where
  "encryptPayload rnd args =
     (case args of
        a # b # rest \<Rightarrow>
          (case hex_decode a of
             None \<Rightarrow> Inl WaHex
           | Some keyBytes \<Rightarrow>
               let plaintext = bytes_of b;
                   aad = (case rest of s # _ \<Rightarrow> if s \<noteq> '''' then bytes_of s else [] | [] \<Rightarrow> [])
               in case NewCipher keyBytes of
                    Inl e \<Rightarrow> Inl (WaCrypto e)
                  | Inr ciph \<Rightarrow>
                      (case Encrypt ciph rnd plaintext None aad of
                         Inl e \<Rightarrow> Inl (WaCrypto e)
                       | Inr (ciphertext, nonce) \<Rightarrow>
                           Inr (JsObj [(''ciphertextHex'', hex_encode ciphertext), (''nonceHex'', hex_encode nonce)])))
      | _ \<Rightarrow> Inl WaArgs)"

definition decryptPayload :: "string list \<Rightarrow> wasm_err + js" where
  "decryptPayload args =
     (case args of
        a # b # c # rest \<Rightarrow>
          (case hex_decode a of None \<Rightarrow> Inl WaHex | Some keyBytes \<Rightarrow>
          (case hex_decode b of None \<Rightarrow> Inl WaHex | Some ciphertext \<Rightarrow>
          (case hex_decode c of None \<Rightarrow> Inl WaHex | Some nonce \<Rightarrow>
             let aad = (case rest of
                          s # _ \<Rightarrow> if s \<noteq> '''' then (case hex_decode s of None \<Rightarrow> bytes_of s | Some b \<Rightarrow> b) else []
                        | [] \<Rightarrow> [])
             in case NewCipher keyBytes of
                  Inl e \<Rightarrow> Inl (WaCrypto e)
                | Inr ciph \<Rightarrow>
                    (case Decrypt ciph ciphertext nonce aad of
                       Inl e \<Rightarrow> Inl (WaCrypto e)
                     | Inr plaintext \<Rightarrow>
                         (case UnpadPayload plaintext of
                            Inr unpadded \<Rightarrow> Inr (JsStr (hex_encode unpadded))
                          | Inl PanicBounds \<Rightarrow> Inl WaPanic
                          | Inl _ \<Rightarrow> Inr (JsStr (hex_encode plaintext)))))))
      | _ \<Rightarrow> Inl WaArgs)"

definition deriveSessionID :: "prims \<Rightarrow> string list \<Rightarrow> wasm_err + js" where
  "deriveSessionID P args =
     (case args of [] \<Rightarrow> Inl WaArgs | a # _ \<Rightarrow> Inr (JsStr (hex_encode (DeriveSessionID P (bytes_of a)))))"

definition ratchetKey :: "string list \<Rightarrow> wasm_err + js" where
  "ratchetKey args =
     (case args of
        a # b # _ \<Rightarrow>
          (case hex_decode a of None \<Rightarrow> Inl WaHex | Some currentKey \<Rightarrow>
          (case hex_decode b of None \<Rightarrow> Inl WaHex | Some salt \<Rightarrow>
          (case RatchetKey currentKey salt of
             Inl e \<Rightarrow> Inl (WaCrypto e)
           | Inr nextKey \<Rightarrow> Inr (JsObj ((''nextKeyHex'', hex_encode nextKey) # sas_fields nextKey)))))
      | _ \<Rightarrow> Inl WaArgs)"

section \<open>The handshake\<close>

record wasm =
  wa_activePAKESub :: "pakepeer option"
  wa_mem :: mstate

text \<open>The peer of an earlier handshake is closed and dropped.\<close>

definition pakeInitSub :: "prims \<Rightarrow> pake_rnd \<Rightarrow> string list \<Rightarrow> wasm \<Rightarrow> (wasm_err + js) \<times> wasm" where
  "pakeInitSub P rnd args st =
     (case args of
        [] \<Rightarrow> (Inl WaArgs, st)
      | a # _ \<Rightarrow>
          (case NewPAKESubscriber P rnd (bytes_of a) of
             Inl e \<Rightarrow> (Inl (WaCrypto e), st)
           | Inr subPeer \<Rightarrow>
               (Inr (JsObj [(''subWireMsgHex'', hex_encode (payload_of (Bytes (Some subPeer))))]),
                st\<lparr>wa_activePAKESub := Some subPeer\<rparr>)))"

definition pakeUpdateSub :: "prims \<Rightarrow> string list \<Rightarrow> wasm \<Rightarrow> (wasm_err + js) \<times> wasm" where
  "pakeUpdateSub P args st =
     (case wa_activePAKESub st of
        None \<Rightarrow> (Inl WaNoPeer, st)
      | Some subPeer \<Rightarrow>
          (case args of
             [] \<Rightarrow> (Inl WaArgs, st)
           | a # _ \<Rightarrow>
               (case hex_decode a of
                  None \<Rightarrow> (Inl WaHex, st)
                | Some pubMsg \<Rightarrow>
                    if length pubMsg < UniformWireMsgSize + 60 + 32 then (Inl WaSize, st)
                    else
                      let pakeBytes = go_slice pubMsg 0 UniformWireMsgSize;
                          wrappedKeyPayload = go_slice pubMsg UniformWireMsgSize (UniformWireMsgSize + 60);
                          pubConfirmTag = go_slice pubMsg (UniformWireMsgSize + 60) (UniformWireMsgSize + 60 + 32);
                          (r, subPeer) = Update P [] None subPeer pakeBytes;
                          st = st\<lparr>wa_activePAKESub := Some subPeer\<rparr>
                      in (case r of Inl e \<Rightarrow> (Inl (WaCrypto e), st) | Inr _ \<Rightarrow>
                         (case VerifyPeerConfirm (Some subPeer) pubConfirmTag of Inl e \<Rightarrow> (Inl (WaCrypto e), st) | Inr _ \<Rightarrow>
                         (case ConfirmTag (Some subPeer) of Inl e \<Rightarrow> (Inl (WaCrypto e), st) | Inr subConfirmTag \<Rightarrow>
                         (case SessionKey subPeer of Inl e \<Rightarrow> (Inl (WaCrypto e), st) | Inr p2pKey \<Rightarrow>
                         (case UnwrapSessionKey p2pKey wrappedKeyPayload of Inl e \<Rightarrow> (Inl (WaCrypto e), st) | Inr masterSessionKey \<Rightarrow>
                            (Inr (JsObj ([(''sessionKeyHex'', hex_encode masterSessionKey),
                                          (''subConfirmTagHex'', hex_encode subConfirmTag)] @ sas_fields masterSessionKey)), st)))))))))"

definition wasm_wipeAll :: "(nat \<Rightarrow> mstate \<Rightarrow> mstate) \<Rightarrow> wasm \<Rightarrow> js \<times> wasm" where
  "wasm_wipeAll wiper st = (JsTrue, st\<lparr>wa_activePAKESub := None, wa_mem := WipeAll wiper (wa_mem st)\<rparr>)"

section \<open>The browser in a session\<close>

text \<open>What a script cuts out of a frame: ciphertext after header and sequence number, nonce, header.\<close>

definition frame_args :: "bytes \<Rightarrow> bytes \<Rightarrow> string list" where
  "frame_args k f = map hex_encode [k, drop (HeaderSize + 8) f, go_slice f 22 34, take HeaderSize f]"

lemma frame_args_sealed:
  assumes "length sid = 16"
  shows "frame_args k (frame_bytes (sealed k' ty sid n pt)) = map hex_encode [k, drop 8 (env_Payload (sealed k' ty sid n pt)),
     frame_nonce sid n, header_bytes Version ty sid (frame_nonce sid n) (of_nat (24 + length pt))]"
proof -
  let ?h = "header_bytes Version ty sid (frame_nonce sid n) (of_nat (24 + length pt))"
  have l: "length ?h = 38" using assms by (simp add: SessionIDSize_def NonceSize_def)
  have f: "frame_bytes (sealed k' ty sid n pt) = ?h @ env_Payload (sealed k' ty sid n pt)"
    by (simp add: frame_bytes_def)
  have "go_slice ?h 22 34 = frame_nonce sid n" using assms by (simp add: go_slice_def header_bytes_def)
  then have "go_slice (?h @ env_Payload (sealed k' ty sid n pt)) 22 34 = frame_nonce sid n" using l by (simp add: go_slice_def)
  then show ?thesis using l by (simp add: frame_args_def f)
qed

lemma decrypt_frame:
  assumes "length sid = 16" "length k = 32"
  shows "decryptPayload (frame_args k (frame_bytes (sealed k ty sid n pt))) =
     (case UnpadPayload pt of Inr m \<Rightarrow> Inr (JsStr (hex_encode m)) | Inl PanicBounds \<Rightarrow> Inl WaPanic
      | Inl _ \<Rightarrow> Inr (JsStr (hex_encode pt)))"
proof -
  let ?h = "header_bytes Version ty sid (frame_nonce sid n) (of_nat (24 + length pt))"
  have "?h \<noteq> []" by (simp add: header_bytes_def MagicHeader_def)
  moreover have "Decrypt (keyed k) (drop 8 (env_Payload (sealed k ty sid n pt))) (frame_nonce sid n) ?h = Inr pt"
    using Decrypt_sealed [OF assms(1), of k ty n pt] frame_aad_sealed [OF assms(1), of k ty n pt] by (simp add: payload_of_def)
  ultimately show ?thesis
    using assms by (simp add: frame_args_sealed decryptPayload_def NewCipher_eq)
qed

text \<open>C13: what the publisher streams, the browser reads. The frame of a published payload, cut at the
  documented offsets and handed over in hexadecimal with the session key, decrypts to exactly the
  payload, the padding removed.\<close>

theorem browser_reads_stream:
  assumes "pub_ready k p" "payload_ok m"
  shows "\<exists>f p'. publish_sealed m p = (Inr (), p') \<and> wire p' = wire p @ [f]
     \<and> decryptPayload (frame_args k f) = Inr (JsStr (hex_encode m))"
proof -
  have "length (pb_sessionID p) = 16" "length k = 32" using assms(1) by (auto simp: pub_ready_def)
  moreover have "UnpadPayload (PadPayload m DefaultPaddingTargetSize) = Inr m"
    using assms(2) by (simp add: UnpadPayload_Pad lenPrefixSize_def payload_ok_def)
  ultimately show ?thesis using publish_sealed_ok [OF assms] by (auto simp: decrypt_frame)
qed

theorem browser_reads_stream_witness:
  "pub_ready (replicate 32 1) sample_pub \<and> payload_ok [104, 105]
     \<and> (\<exists>f p'. publish_sealed [104, 105] sample_pub = (Inr (), p') \<and> decryptPayload (frame_args (replicate 32 1) f) = Inr (JsStr ''6869''))"
proof -
  have "payload_ok [104, 105]" by (simp add: payload_ok_def)
  moreover have "hex_encode [104, 105] = ''6869''" by (simp add: hex_encode_def hex_digit_def)
  ultimately show ?thesis using browser_reads_stream [OF sample_pub_ready, of "[104, 105]"] sample_pub_ready by auto
qed

text \<open>A key change reaches the browser when the salt does not look like a padded payload; the
  decryption removes padding no salt has.\<close>

lemma browser_follows_rekey:
  assumes "pub_ready k p" "rnd = Some r"
  shows "\<exists>f p' salt k'. TriggerRekey now rnd p = (Inr (), p') \<and> wire p' = wire p @ [f] \<and> pub_ready k' p'
     \<and> (\<not> isl (UnpadPayload salt) \<or> decryptPayload (frame_args k f) = Inr (JsStr (hex_encode salt)))
     \<and> ratchetKey [hex_encode k, hex_encode salt] = Inr (JsObj ((''nextKeyHex'', hex_encode k') # sas_fields k'))"
proof -
  obtain p' k' salt where p': "TriggerRekey now rnd p = (Inr (), p')" "RatchetKey k salt = Inr k'" "length salt = 12" "pub_ready k' p'"
    "wire p' = wire p @ [frame_bytes (sealed k MsgTypeRekey (pb_sessionID p) (pb_seqCounter p + 1) salt)]"
    using TriggerRekey_ok [OF assms, of now] by blast
  have "length (pb_sessionID p) = 16" "length k = 32" using assms(1) by (auto simp: pub_ready_def)
  moreover have "UnpadPayload salt \<noteq> Inl PanicBounds"
    using p'(3) unat_of_nat_small [of "lenPrefixSize + unat (Uint32 (go_slice salt 0 lenPrefixSize))", where 'a = 32]
    by (auto simp: UnpadPayload_def Let_def lenPrefixSize_def)
  ultimately have "\<not> isl (UnpadPayload salt) \<or> decryptPayload (frame_args k
      (frame_bytes (sealed k MsgTypeRekey (pb_sessionID p) (pb_seqCounter p + 1) salt))) = Inr (JsStr (hex_encode salt))"
    by (auto simp: decrypt_frame split: sum.split proto_err.split)
  then show ?thesis using p' by (intro exI [of _ "frame_bytes (sealed k MsgTypeRekey (pb_sessionID p) (pb_seqCounter p + 1) salt)"]
      exI [of _ p'] exI [of _ salt] exI [of _ k']) (simp add: ratchetKey_def)
qed

text \<open>C12: a browser joins a stream. It starts a handshake with the publisher's passphrase; the
  listener of the streaming publisher answers the message; \<open>pakeUpdateSub\<close> takes the answer and
  returns the publisher's current key with its verification code. The publisher streams on.\<close>

theorem browser_joins:
  assumes "prims_ok P" "pub_ready k p" "pb_masterKey p = Some k" "pb_passphrase p = Some (bytes_of pw)" "pb_conn p = Some c"
    and "NewPAKEPublisher P prnd (bytes_of pw) = Inr pub" "NewPAKESubscriber P rnd (bytes_of pw) = Inr sub"
    and "x_dh P (pk_privKey pub) (x_pub P (pk_privKey sub)) = Some sec"
    and "hr_pad hs = Some pad" "hr_nonce hs = Some nonce" "length sid = 16"
  shows "\<exists>m1 m2 p' st1 st2 tag. pakeInitSub P rnd [pw] st = (Inr (JsObj [(''subWireMsgHex'', hex_encode m1)]), st1)
     \<and> handleSync_step P prnd hs (p\<lparr>pb_conn := Some (c\<lparr>cn_in := frame_bytes (plain_env MsgTypePAKEInitSub sid m1) @ r\<rparr>)\<rparr>) = (True, p')
     \<and> wire p' = wire p @ [frame_bytes (plain_env MsgTypePAKEStep2 (pb_sessionID p) m2)] \<and> pub_ready k p'
     \<and> pakeUpdateSub P [hex_encode m2] st1 = (Inr (JsObj ([(''sessionKeyHex'', hex_encode k),
          (''subConfirmTagHex'', hex_encode tag)] @ sas_fields k)), st2)"
proof -
  obtain pub' sub' m1 w2 key where u: "pk_pubBytes sub = Some m1" "length m1 = 1280"
    "Update P (hr_enc hs) (hr_pad hs) pub m1 = (Inr (), pub')" "pk_pubBytes pub' = Some w2" "length w2 = 1280"
    "Update P [] None sub w2 = (Inr (), sub')" "pk_sharedKey pub' = Some key" "pk_sharedKey sub' = Some key" "length key = 32"
    "pk_role pub' = 1" "pk_role sub' = 2"
    using pake_updates [OF assms(1,6-8), of "hr_enc hs" pad] assms(9) by metis
  obtain wr p' where p': "length wr = 60" "UnwrapSessionKey key wr = Inr k"
    "handleSync_step P prnd hs (p\<lparr>pb_conn := Some (c\<lparr>cn_in := frame_bytes (plain_env MsgTypePAKEInitSub sid m1) @ r\<rparr>)\<rparr>) = (True, p')"
    "wire p' = wire p @ [frame_bytes (plain_env MsgTypePAKEStep2 (pb_sessionID p) (w2 @ wr @ confirm_mac key 1))]" "pub_ready k p'"
    using rejoin_ok [OF assms(2-6) u(3,2,7,9,4,5,10) assms(10,11), of r] by auto
  have init: "pakeInitSub P rnd [pw] st = (Inr (JsObj [(''subWireMsgHex'', hex_encode m1)]), st\<lparr>wa_activePAKESub := Some sub\<rparr>)"
    using assms(7) u(1) by (simp add: pakeInitSub_def Bytes_def payload_of_def)
  have "VerifyPeerConfirm (Some sub') (confirm_mac key 1) = Inr ()" "ConfirmTag (Some sub') = Inr (confirm_mac key 2)" "SessionKey sub' = Inr key"
    using confirmed_peer [OF u(8,11)] by simp_all
  moreover have "go_slice (w2 @ wr @ confirm_mac key 1) 1280 1340 = wr" "go_slice (w2 @ wr @ confirm_mac key 1) 1340 1372 = confirm_mac key 1"
    "go_slice (w2 @ wr @ confirm_mac key 1) 0 1280 = w2" using u(5) p'(1) by (simp_all add: go_slice_def)
  ultimately have "pakeUpdateSub P [hex_encode (w2 @ wr @ confirm_mac key 1)] (st\<lparr>wa_activePAKESub := Some sub\<rparr>)
      = (Inr (JsObj ([(''sessionKeyHex'', hex_encode k), (''subConfirmTagHex'', hex_encode (confirm_mac key 2))] @ sas_fields k)),
         st\<lparr>wa_activePAKESub := Some sub'\<rparr>)"
    using u(5,6) p'(1,2) by (simp add: pakeUpdateSub_def UniformWireMsgSize_def)
  then show ?thesis using init p'(3-5) by blast
qed

theorem browser_joins_witness:
  "\<exists>sub m1 m2 p' st1 st2 tag. NewPAKESubscriber sample_prims (sample_rnd\<lparr>pr_x := Some [9]\<rparr>) (bytes_of [CHR 0x07]) = Inr sub
     \<and> pakeInitSub sample_prims (sample_rnd\<lparr>pr_x := Some [9]\<rparr>) [[CHR 0x07]] \<lparr>wa_activePAKESub = None, wa_mem = sample_mem\<rparr> = (Inr (JsObj [(''subWireMsgHex'', hex_encode m1)]), st1)
     \<and> wire p' = wire sample_pub @ [frame_bytes (plain_env MsgTypePAKEStep2 (pb_sessionID sample_pub) m2)]
     \<and> pakeUpdateSub sample_prims [hex_encode m2] st1 = (Inr (JsObj ([(''sessionKeyHex'', hex_encode (replicate 32 1)),
          (''subConfirmTagHex'', hex_encode tag)] @ sas_fields (replicate 32 1))), st2)"
proof -
  have b: "bytes_of [CHR 0x07] = [7]" by (simp add: bytes_of_def)
  obtain pub sub where pub: "NewPAKEPublisher sample_prims sample_rnd (bytes_of [CHR 0x07]) = Inr pub"
    and sub: "NewPAKESubscriber sample_prims (sample_rnd\<lparr>pr_x := Some [9]\<rparr>) (bytes_of [CHR 0x07]) = Inr sub"
    unfolding b by (rule sample_peers)
  have p: "pb_masterKey sample_pub = Some (replicate 32 1)" "pb_passphrase sample_pub = Some (bytes_of [CHR 0x07])"
    "pb_conn sample_pub = Some (fresh_conn [] EOF)" using b by (simp_all add: sample_pub_def)
  let ?st = "\<lparr>wa_activePAKESub = None, wa_mem = sample_mem\<rparr>"
  have l: "length (replicate 16 (5 :: byte)) = 16" by simp
  have h: "hr_pad sample_hs = Some [6]" "hr_nonce sample_hs = Some [8]" by (simp_all add: sample_hs_def)
  show ?thesis
    using browser_joins [OF sample_prims_ok sample_pub_ready p pub sub sample_dh h l, of ?st "[]"] sub by blast
qed

end
