(* ===== verification/Progress.thy ===== *)
theory Progress
  imports Go_Strings "HOL-Library.Log_Nat"
begin

text \<open>
  \<open>progress.go\<close>: byte counts for people and the progress bar of a file transfer. The code computes
  with 64-bit floating point numbers; here they are the rationals they denote, every operation
  followed by rounding to 53 significant bits. The numbers the bar meets are far from the ends of
  the exponent range.
\<close>

section \<open>Floating point numbers\<close>

text \<open>The nearest integer, of two the even one.\<close>

definition round_even :: "rat \<Rightarrow> int" where
  "round_even x =
     (let n = \<lfloor>x\<rfloor>; d = x - of_int n in
      if d < 1 / 2 \<or> (d = 1 / 2 \<and> even n) then n else n + 1)"

text \<open>The exponent of the leading bit of a positive number.\<close>

definition two_to :: "int \<Rightarrow> rat" where
  "two_to e = (if 0 \<le> e then 2 ^ nat e else 1 / 2 ^ nat (- e))"

definition ilog :: "rat \<Rightarrow> int" where
  "ilog x = (case quotient_of x of (a, b) \<Rightarrow> let e = bitlen a - bitlen b in if two_to e \<le> x then e else e - 1)"

definition fl :: "rat \<Rightarrow> rat" where
  "fl x = (if x = 0 then 0 else let u = two_to (ilog \<bar>x\<bar> - 52) in of_int (round_even (x / u)) * u)"

lemma two_to_pos [simp]: "0 < two_to e" "two_to e \<noteq> 0"
  by (simp_all add: two_to_def)

lemma two_to_powi: "two_to e = 2 powi e"
  by (simp add: two_to_def power_int_def inverse_eq_divide power_one_over)

lemma two_to_add: "two_to (d + e) = two_to d * two_to e"
  by (simp add: two_to_powi power_int_add)

lemma two_to_mono: "two_to d < two_to e \<longleftrightarrow> d < e"
  by (auto simp: two_to_powi intro: power_int_strict_increasing)
    (metis linorder_not_less one_less_numeral_iff order_less_imp_le power_int_increasing semiring_norm(76))

lemma round_even_int [simp]: "round_even (of_int n) = n"
  by (simp add: round_even_def)

lemma bitlen_two_to:
  assumes "0 < a"
  shows "two_to (bitlen a - 1) \<le> of_int a" "of_int a < two_to (bitlen a)"
proof -
  have b: "2 ^ nat (bitlen a - 1) \<le> a \<and> a < 2 ^ nat (bitlen a)" using bitlen_bounds [OF assms] .
  have l: "0 < bitlen a" using assms bitlen_eq_zero_iff [of a] bitlen_nonneg [of a] by linarith
  have "of_int (2 ^ nat (bitlen a - 1)) \<le> (of_int a :: rat)" "(of_int a :: rat) < of_int (2 ^ nat (bitlen a))"
    using b by (simp_all only: of_int_le_iff of_int_less_iff)
  then show "two_to (bitlen a - 1) \<le> of_int a" "of_int a < two_to (bitlen a)"
    using l by (simp_all add: two_to_def)
qed

lemma ilog_le:
  assumes "0 < x"
  shows "two_to (ilog x) \<le> x"
proof (cases "quotient_of x")
  case (Pair a b)
  have b: "0 < b" and x: "x = of_int a / of_int b" using Pair quotient_of_denom_pos quotient_of_div by auto
  have a: "0 < a" using assms x b by (simp add: zero_less_divide_iff)
  have "two_to (bitlen a - bitlen b - 1) * two_to (bitlen b) = two_to (bitlen a - 1)" by (simp flip: two_to_add)
  moreover have "two_to (bitlen a - bitlen b - 1) * of_int b \<le> two_to (bitlen a - bitlen b - 1) * two_to (bitlen b)"
    using bitlen_two_to(2) [OF b] by (simp add: less_imp_le)
  ultimately have "two_to (bitlen a - bitlen b - 1) * of_int b \<le> of_int a" using bitlen_two_to(1) [OF a] by linarith
  then have "two_to (bitlen a - bitlen b - 1) \<le> x" using b by (simp add: x pos_le_divide_eq)
  then show ?thesis using Pair by (simp add: ilog_def Let_def)
qed

text \<open>A number of at most 53 bits, scaled by a power of two, is represented exactly.\<close>

lemma fl_exact:
  assumes "x = of_int m * two_to k" "\<bar>m\<bar> < 2 ^ 53"
  shows "fl x = x"
proof (cases "x = 0")
  case False
  define e where "e = ilog \<bar>x\<bar>"
  have "two_to e \<le> \<bar>x\<bar>" unfolding e_def using False by (intro ilog_le) simp
  also have "\<bar>x\<bar> = of_int \<bar>m\<bar> * two_to k" using assms(1) by (simp add: abs_mult less_imp_le)
  also have "\<dots> < two_to 53 * two_to k"
  proof (rule mult_strict_right_mono)
    have "(of_int \<bar>m\<bar> :: rat) < of_int (2 ^ 53)" using assms(2) by (simp only: of_int_less_iff)
    then show "of_int \<bar>m\<bar> < two_to 53" by (simp add: two_to_def)
  qed simp
  finally have "e < 53 + k" by (simp add: two_to_mono flip: two_to_add)
  then have n: "two_to (k - (e - 52)) = of_int (2 ^ nat (k - (e - 52)))" by (simp add: two_to_def)
  have "two_to k = two_to (k - (e - 52)) * two_to (e - 52)" by (simp flip: two_to_add)
  then have "x / two_to (e - 52) = of_int m * two_to (k - (e - 52))" by (simp add: assms(1))
  then have q: "x / two_to (e - 52) = of_int (m * 2 ^ nat (k - (e - 52)))" by (simp add: n)
  have "fl x = of_int (round_even (x / two_to (e - 52))) * two_to (e - 52)" using False by (simp add: fl_def Let_def e_def)
  also have "\<dots> = x / two_to (e - 52) * two_to (e - 52)" unfolding q round_even_int ..
  finally show ?thesis by simp
qed (simp add: fl_def)

lemma fl_of_int: "\<bar>m\<bar> < 2 ^ 53 \<Longrightarrow> fl (of_int m) = of_int m"
  by (rule fl_exact [where k = 0]) (simp_all add: two_to_def)

section \<open>Printing\<close>

text \<open>The verbs \<open>%.nf\<close>, \<open>%wd\<close> and \<open>%0wd\<close>.\<close>

definition pad_left :: "char \<Rightarrow> nat \<Rightarrow> string \<Rightarrow> string" where
  "pad_left c w s = replicate (w - length s) c @ s"

definition fixed :: "nat \<Rightarrow> rat \<Rightarrow> string" where
  "fixed n x =
     (let q = nat (round_even (\<bar>x\<bar> * 10 ^ n)) in
      (if x < 0 then ''-'' else '''') @ print_nat (q div 10 ^ n) @ ''.'' @ pad_left (CHR ''0'') n (print_nat (q mod 10 ^ n)))"

definition zero_pad2 :: "int \<Rightarrow> string" where
  "zero_pad2 i = pad_left (CHR ''0'') 2 (print_int i)"

text \<open>The unit loop of \<open>FormatBytes\<close>: \<open>n\<close>, \<open>div\<close> and \<open>exp\<close>.\<close>

function unit_loop :: "int \<Rightarrow> int \<Rightarrow> nat \<Rightarrow> int \<times> nat" where
  "unit_loop n d e = (if 1024 \<le> n then unit_loop (n div 1024) (signed_take_bit 63 (d * 1024)) (Suc e) else (d, e))"
  by pat_completeness auto
termination
  by (relation "measure (\<lambda>(n, _, _). nat n)") auto

declare unit_loop.simps [simp del]

text \<open>\<open>None\<close>: the index into the unit letters is out of range.\<close>

definition FormatBytes :: "int \<Rightarrow> string option" where
  "FormatBytes b =
     (if b < 1024 then Some (print_int b @ '' B'')
      else
        case unit_loop (b div 1024) 1024 0 of
          (d, e) \<Rightarrow>
            if e < length ''KMGTPE''
            then Some (fixed 2 (fl (fl (of_int b) / fl (of_int d))) @ '' '' @ [''KMGTPE'' ! e] @ ''B'')
            else None)"

section \<open>The progress bar\<close>

record progressbar =
  pg_totalBytes :: int
  pg_currBytes :: int
  pg_startTime :: time
  pg_lastRender :: "time option"
  pg_w :: "string list"
  pg_quiet :: bool

definition NewProgressBar :: "time \<Rightarrow> int \<Rightarrow> bool \<Rightarrow> progressbar" where
  "NewProgressBar now totalBytes quiet =
     \<lparr>pg_totalBytes = totalBytes, pg_currBytes = 0, pg_startTime = now, pg_lastRender = None, pg_w = [], pg_quiet = quiet\<rparr>"

text \<open>\<open>Duration.Seconds\<close>, and the conversion of a float to an integer, whose result the language does
  not define out of range: \<open>bad\<close>.\<close>

definition Seconds :: "int \<Rightarrow> rat" where
  "Seconds d = (let s = sgn d * (\<bar>d\<bar> div 1000000000); n = d - s * 1000000000 in
     fl (fl (of_int s) + fl (fl (of_int n) / 1000000000)))"

definition to_int :: "int \<Rightarrow> rat \<Rightarrow> int" where
  "to_int bad x = (let i = (if x < 0 then - \<lfloor>- x\<rfloor> else \<lfloor>x\<rfloor>) in if - (2 ^ 63) \<le> i \<and> i < 2 ^ 63 then i else bad)"

definition full_cell :: string where "full_cell = [CHR 0xE2, CHR 0x96, CHR 0x88]"

definition empty_cell :: string where "empty_cell = [CHR 0xE2, CHR 0x96, CHR 0x91]"

definition barWidth :: int where "barWidth = 25"

text \<open>The percentage; \<open>None\<close> is \<open>NaN\<close>, the quotient of zero by zero. A quotient of another number by zero
  does not occur: \<open>Add\<close> requires a positive total, \<open>Finish\<close> makes both counts equal.\<close>

definition bar_pct :: "progressbar \<Rightarrow> rat option" where
  "bar_pct p =
     (if pg_totalBytes p = 0 then None
      else let pct = fl (fl (fl (of_int (pg_currBytes p)) / fl (of_int (pg_totalBytes p))) * 100) in
      Some (if 100 < pct then 100 else pct))"

definition bar_filled :: "int \<Rightarrow> rat option \<Rightarrow> int" where
  "bar_filled bad pct =
     (let filled = (case pct of None \<Rightarrow> bad | Some x \<Rightarrow> to_int bad (fl (25 * fl (x / 100))));
          filled = (if barWidth < filled then barWidth else filled)
      in if filled < 0 then 0 else filled)"

definition bar_cells :: "int \<Rightarrow> string" where
  "bar_cells filled = concat (replicate (nat filled) full_cell) @ concat (replicate (nat (barWidth - filled)) empty_cell)"

definition bar_speed :: "time \<Rightarrow> progressbar \<Rightarrow> rat" where
  "bar_speed now p =
     (let elapsed = Seconds (now - pg_startTime p) in
      if 0 < elapsed then fl (fl (of_int (pg_currBytes p)) / elapsed) else 0)"

definition bar_eta :: "int \<Rightarrow> rat \<Rightarrow> progressbar \<Rightarrow> string" where
  "bar_eta bad speed p =
     (if 0 < speed \<and> pg_currBytes p < pg_totalBytes p then
        let remainingBytes = signed_take_bit 63 (pg_totalBytes p - pg_currBytes p);
            etaSec = to_int bad (fl (fl (of_int remainingBytes) / speed));
            m = sgn etaSec * (\<bar>etaSec\<bar> div 60)
        in zero_pad2 m @ '':'' @ zero_pad2 (etaSec - m * 60)
      else ''00:00'')"

definition show_bytes :: "int \<Rightarrow> string" where
  "show_bytes b = (case FormatBytes b of Some s \<Rightarrow> s | None \<Rightarrow> '''')"

text \<open>\<open>render\<close>: one line on the writer and, at the end, its newline.\<close>

definition bar_render :: "int \<Rightarrow> time \<Rightarrow> progressbar \<Rightarrow> progressbar" where
  "bar_render bad now p =
     (let pct = bar_pct p;
          bar = bar_cells (bar_filled bad pct);
          pctStr = pad_left (CHR '' '') 5 (case pct of None \<Rightarrow> ''NaN'' | Some x \<Rightarrow> fixed 1 x);
          speedBytesSec = bar_speed now p;
          line = [CHR 0x0D] @ '' ['' @ bar @ ''] '' @ pctStr @ ''% | '' @ show_bytes (pg_currBytes p) @ '' / ''
            @ show_bytes (pg_totalBytes p) @ '' | '' @ show_bytes (to_int bad speedBytesSec) @ ''/s | ETA ''
            @ bar_eta bad speedBytesSec p
      in p\<lparr>pg_w := pg_w p @ [line] @ (if pg_totalBytes p \<le> pg_currBytes p then [[CHR 0x0A]] else [])\<rparr>)"

definition ProgressBar_Add :: "int \<Rightarrow> time \<Rightarrow> int \<Rightarrow> progressbar option \<Rightarrow> progressbar option" where
  "ProgressBar_Add bad now n pb =
     (case pb of
        None \<Rightarrow> None
      | Some p \<Rightarrow>
          if pg_quiet p \<or> pg_totalBytes p \<le> 0 then Some p
          else
            let p = p\<lparr>pg_currBytes := signed_take_bit 63 (pg_currBytes p + n)\<rparr> in
            if (case pg_lastRender p of None \<Rightarrow> True | Some t \<Rightarrow> 100000000 \<le> now - t) \<or> pg_totalBytes p \<le> pg_currBytes p
            then Some ((bar_render bad now p)\<lparr>pg_lastRender := Some now\<rparr>)
            else Some p)"

definition ProgressBar_Finish :: "int \<Rightarrow> time \<Rightarrow> progressbar option \<Rightarrow> progressbar option" where
  "ProgressBar_Finish bad now pb =
     (case pb of
        None \<Rightarrow> None
      | Some p \<Rightarrow> if pg_quiet p then Some p else Some (bar_render bad now (p\<lparr>pg_currBytes := pg_totalBytes p\<rparr>)))"

section \<open>What is printed\<close>

lemma int_div_bounds:
  assumes "0 < (c :: int)"
  shows "b div c * c \<le> b" "b < b div c * c + c"
  using div_mult_mod_eq [of b c] pos_mod_bound [OF assms, of b] pos_mod_sign [OF assms, of b] by linarith+

lemma unit_loop_spec:
  assumes "0 \<le> b" "b < 2 ^ 63" "n = b div 1024 ^ (Suc e)" "1024 ^ Suc e \<le> b"
  shows "\<exists>e'. unit_loop n (1024 ^ Suc e) e = (1024 ^ Suc e', e') \<and> 1024 ^ Suc e' \<le> b \<and> b < 1024 ^ Suc (Suc e') \<and> e' < 6"
  using assms
proof (induction n "(1024 :: int) ^ Suc e" e rule: unit_loop.induct)
  case (1 n e)
  have e: "e < 6"
  proof (rule ccontr)
    assume "\<not> e < 6"
    then have "(1024 :: int) ^ 7 \<le> 1024 ^ Suc e" by (intro power_increasing) simp_all
    then show False using 1(3,5) by simp
  qed
  have b: "n * 1024 ^ Suc e \<le> b" "b < n * 1024 ^ Suc e + 1024 ^ Suc e"
    unfolding 1(4) by (rule int_div_bounds, simp)+
  show ?case
  proof (cases "1024 \<le> n")
    case True
    then have "1024 * 1024 ^ Suc e \<le> n * 1024 ^ Suc e" by (intro mult_right_mono) simp_all
    then have le: "1024 ^ Suc (Suc e) \<le> b" using b unfolding power_Suc [of _ "Suc e"] by linarith
    have d: "signed_take_bit 63 ((1024 :: int) ^ Suc e * 1024) = 1024 ^ Suc (Suc e)"
    proof (subst signed_take_bit_int_eq_self)
      show "- (2 ^ 63) \<le> (1024 :: int) ^ Suc e * 1024" by (rule order_trans [of _ 0]) simp_all
    qed (use le 1(3) in \<open>simp_all add: mult.commute\<close>)
    have m: "n div 1024 = b div 1024 ^ Suc (Suc e)"
      unfolding 1(4) power_Suc2 [of _ "Suc e"] by (rule zdiv_zmult2_eq [symmetric]) simp
    have "unit_loop n (1024 ^ Suc e) e = unit_loop (n div 1024) (1024 ^ Suc (Suc e)) (Suc e)"
      using True d by (subst unit_loop.simps) (simp del: power_Suc)
    then show ?thesis using 1(1) [OF True d 1(2,3) m le] d by simp
  next
    case False
    then have "(n + 1) * 1024 ^ Suc e \<le> 1024 * 1024 ^ Suc e" by (intro mult_right_mono) simp_all
    then have "b < 1024 ^ Suc (Suc e)" using b unfolding power_Suc [of _ "Suc e"] distrib_right by linarith
    then show ?thesis using False 1(5) e by (subst unit_loop.simps) simp
  qed
qed

lemma two_to_1024: "two_to (10 * int n) = 1024 ^ n"
  by (simp add: two_to_def nat_mult_distrib power_mult)

text \<open>C34: a byte count is shown in the largest unit it reaches: the index into the unit letters is never
  out of range for a 64-bit count, and up to \<open>2 ^ 53\<close> bytes the number in front of the unit is
  the exact quotient, rounded to two decimals.\<close>

theorem FormatBytes_unit:
  assumes "1024 \<le> b" "b < 2 ^ 63"
  shows "\<exists>e x. 1024 ^ Suc e \<le> b \<and> b < 1024 ^ Suc (Suc e) \<and> e < 6
     \<and> FormatBytes b = Some (fixed 2 x @ '' '' @ [''KMGTPE'' ! e] @ ''B'') \<and> (b < 2 ^ 53 \<longrightarrow> x = of_int b / 1024 ^ Suc e)"
proof -
  obtain e where e: "unit_loop (b div 1024) 1024 0 = (1024 ^ Suc e, e)" "1024 ^ Suc e \<le> b" "b < 1024 ^ Suc (Suc e)" "e < 6"
    using unit_loop_spec [of b "b div 1024" 0] assms by auto
  let ?x = "fl (fl (of_int b) / fl (of_int (1024 ^ Suc e)))"
  have "?x = of_int b / 1024 ^ Suc e" if "b < 2 ^ 53"
  proof -
    have b: "fl (of_int b) = of_int b" using that assms(1) by (intro fl_of_int) simp
    have "fl (1024 ^ Suc e) = 1024 ^ Suc e"
      by (rule fl_exact [where m = 1 and k = "10 * int (Suc e)"]) (simp_all only: two_to_1024, simp_all)
    then have d: "fl (of_int (1024 ^ Suc e)) = 1024 ^ Suc e" by simp
    have "fl (of_int b / 1024 ^ Suc e) = of_int b / 1024 ^ Suc e"
    proof (rule fl_exact)
      have "two_to (- (10 * int (Suc e))) = 1 / two_to (10 * int (Suc e))" by (simp add: two_to_def)
      then show "of_int b / 1024 ^ Suc e = of_int b * two_to (- (10 * int (Suc e)))" by (simp only: two_to_1024) simp
    qed (use that assms(1) in simp)
    then show ?thesis by (simp only: b d)
  qed
  moreover have "FormatBytes b = Some (fixed 2 ?x @ '' '' @ [''KMGTPE'' ! e] @ ''B'')"
    using assms(1) e(1,4) by (simp add: FormatBytes_def)
  ultimately show ?thesis using e(2-4) by blast
qed

theorem FormatBytes_unit_witness:
  "\<exists>e x. 1024 ^ Suc e \<le> (1572864 :: int) \<and> e < 6 \<and> FormatBytes 1572864 = Some (fixed 2 x @ '' '' @ [''KMGTPE'' ! e] @ ''B'')
     \<and> x = 1572864 / 1024 ^ Suc e"
  using FormatBytes_unit [of 1572864] by (simp del: power_Suc) blast

lemma bar_pct_full: "0 < t \<Longrightarrow> t < 2 ^ 53 \<Longrightarrow> pg_totalBytes p = t \<Longrightarrow> pg_currBytes p = t \<Longrightarrow> bar_pct p = Some 100"
  using fl_of_int [of t] fl_of_int [of 1] fl_of_int [of 100] by (simp add: bar_pct_def)

text \<open>The end of a transfer fills the bar, except that an empty file ends at \<open>NaN%\<close>.\<close>

lemma Finish_full:
  assumes "\<not> pg_quiet p" "0 < pg_totalBytes p" "pg_totalBytes p < 2 ^ 53"
  shows "\<exists>speed p'. ProgressBar_Finish bad now (Some p) = Some p' \<and> pg_w p' = pg_w p @ [[CHR 0x0D] @ '' ['' @ concat (replicate 25 full_cell)
     @ ''] 100.0% | '' @ show_bytes (pg_totalBytes p) @ '' / '' @ show_bytes (pg_totalBytes p) @ '' | '' @ speed @ ''/s | ETA 00:00'', [CHR 0x0A]]"
proof -
  let ?p = "p\<lparr>pg_currBytes := pg_totalBytes p\<rparr>"
  have pct: "bar_pct ?p = Some 100" using assms(2,3) by (intro bar_pct_full) simp_all
  have "bar_filled bad (Some 100) = 25"
    using fl_of_int [of 1] fl_of_int [of 25] by (simp add: bar_filled_def to_int_def barWidth_def)
  then have c: "bar_cells (bar_filled bad (bar_pct ?p)) = concat (replicate 25 full_cell)" by (simp add: pct bar_cells_def barWidth_def)
  have "pad_left (CHR '' '') 5 (fixed 1 100) = ''100.0''" by code_simp
  moreover have "bar_eta bad s ?p = ''00:00''" for s by (simp add: bar_eta_def)
  ultimately show ?thesis
    using assms(1) c by (simp add: ProgressBar_Finish_def bar_render_def pct Let_def)
qed

lemma Finish_empty:
  assumes "\<not> pg_quiet p" "pg_totalBytes p = 0"
  shows "\<exists>bar rest p'. ProgressBar_Finish bad now (Some p) = Some p' \<and> pg_w p' = pg_w p @ [[CHR 0x0D] @ '' ['' @ bar @ '']   NaN% | '' @ rest, [CHR 0x0A]]"
proof -
  have "pad_left (CHR '' '') 5 ''NaN'' = ''  NaN''" by code_simp
  then show ?thesis
    using assms by (simp add: ProgressBar_Finish_def bar_render_def bar_pct_def Let_def) blast
qed

lemma bar_cells_width: "length (bar_cells (bar_filled bad pct)) = 25 * 3"
proof -
  have f: "0 \<le> bar_filled bad pct" "bar_filled bad pct \<le> 25" by (simp_all add: bar_filled_def barWidth_def Let_def)
  have "length (bar_cells n) = nat n * 3 + nat (25 - n) * 3" for n
    by (simp add: bar_cells_def barWidth_def full_cell_def empty_cell_def length_concat sum_list_replicate)
  then show ?thesis using f by simp
qed

end
