(* ===== verification/Go_Url.thy ===== *)
theory Go_Url
  imports Go_Strings
begin

text \<open>
  The parts of \<open>net/url\<close> the sources use: percent-encoding in its modes, \<open>QueryEscape\<close> and
  \<open>QueryUnescape\<close>, \<open>url.Parse\<close> of an absolute URL with an authority (of which only the raw query
  and the error are used), and \<open>Query().Get\<close>.
\<close>

section \<open>Cutting strings\<close>

text \<open>\<open>strings.Cut\<close>; \<open>None\<close>: the separator does not occur.\<close>

fun Cut :: "string \<Rightarrow> string \<Rightarrow> (string \<times> string) option" where
  "Cut [] sep = (if sep = [] then Some ([], []) else None)"
| "Cut (x # xs) sep =
     (if prefix sep (x # xs) then Some ([], drop (length sep) (x # xs))
      else map_option (\<lambda>(a, b). (x # a, b)) (Cut xs sep))"

lemma Cut_Some: "Cut s sep = Some (a, b) \<Longrightarrow> s = a @ sep @ b"
  by (induction s arbitrary: a) (auto simp: prefix_def split: if_splits)

lemma Cut_char_None: "c \<notin> set s \<Longrightarrow> Cut s [c] = None"
  by (induction s) (auto simp: prefix_def)

lemma Cut_char: "c \<notin> set a \<Longrightarrow> Cut (a @ c # b) [c] = Some (a, b)"
  by (induction a) (auto simp: prefix_def)

lemma Cut_None_hd: "c \<notin> set s \<Longrightarrow> Cut s (c # cs) = None"
  by (induction s) (auto simp: prefix_def)

lemma Cut_hd: "c \<notin> set a \<Longrightarrow> Cut (a @ c # cs @ b) (c # cs) = Some (a, b)"
  by (induction a) (auto simp: prefix_def)

text \<open>\<open>strings.Split\<close> with a non-empty separator.\<close>

function SplitStr :: "string \<Rightarrow> string \<Rightarrow> string list" where
  "SplitStr s sep =
     (if sep = [] then [s]
      else case Cut s sep of None \<Rightarrow> [s] | Some (a, b) \<Rightarrow> a # SplitStr b sep)"
  by pat_completeness auto
termination
  by (relation "measure (\<lambda>(s, _). length s)") (auto dest!: Cut_Some)

declare SplitStr.simps [simp del]

lemma Contains_Cut: "Contains s sep \<longleftrightarrow> Cut s sep \<noteq> None"
  by (induction s) auto

section \<open>Percent-encoding\<close>

datatype url_mode = EncPath | EncHost | EncZone | EncUserPassword | EncQuery | EncFragment

definition is_alnum :: "char \<Rightarrow> bool" where
  "is_alnum c \<longleftrightarrow> (let n = (of_char c :: nat) in 97 \<le> n \<and> n \<le> 122 \<or> 65 \<le> n \<and> n \<le> 90 \<or> 48 \<le> n \<and> n \<le> 57)"

definition should_escape :: "url_mode \<Rightarrow> char \<Rightarrow> bool" where
  "should_escape mode c =
     (if is_alnum c then False
      else if (mode = EncHost \<or> mode = EncZone)
              \<and> c \<in> set (''!$&()*+,;=:[]<>'' @ [CHR 0x27, CHR 0x22]) then False
      else if c \<in> set ''-_.~'' then False
      else if c \<in> set ''$&+,/:;=?@'' \<and> mode = EncPath then c = CHR ''?''
      else if c \<in> set ''$&+,/:;=?@'' \<and> mode = EncUserPassword then c \<in> set ''@/?:''
      else if c \<in> set ''$&+,/:;=?@'' \<and> mode = EncFragment then False
      else if mode = EncFragment \<and> c \<in> set ''!()*'' then False
      else True)"

definition upper_hex :: "nat \<Rightarrow> char" where
  "upper_hex n = ''0123456789ABCDEF'' ! n"

definition QueryEscape :: "string \<Rightarrow> string" where
  "QueryEscape s =
     concat (map (\<lambda>c. if should_escape EncQuery c then
                        (if c = CHR '' '' then ''+''
                         else [CHR ''%'', upper_hex (of_char c div 16), upper_hex (of_char c mod 16)])
                      else [c]) s)"

definition unhex :: "char \<Rightarrow> nat option" where
  "unhex c =
     (let n = (of_char c :: nat) in
      if 48 \<le> n \<and> n \<le> 57 then Some (n - 48)
      else if 97 \<le> n \<and> n \<le> 102 then Some (n - 87)
      else if 65 \<le> n \<and> n \<le> 70 then Some (n - 55) else None)"

text \<open>\<open>unescape\<close>; \<open>None\<close>: an \<open>EscapeError\<close> or an \<open>InvalidHostError\<close>.\<close>

fun unescape :: "url_mode \<Rightarrow> string \<Rightarrow> string option" where
  "unescape mode [] = Some []"
| "unescape mode (c # s) =
     (if c = CHR ''%'' then
        (case s of
           h # l # s' \<Rightarrow>
             (case (unhex h, unhex l) of
                (Some vh, Some vl) \<Rightarrow>
                  let v = char_of (16 * vh + vl) in
                  if mode = EncHost \<and> vh < 8 \<and> [h, l] \<noteq> ''25'' then None
                  else if mode = EncZone \<and> [h, l] \<noteq> ''25'' \<and> v \<noteq> CHR '' '' \<and> should_escape EncHost v then None
                  else map_option (Cons v) (unescape mode s')
              | _ \<Rightarrow> None)
         | _ \<Rightarrow> None)
      else if c = CHR ''+'' \<and> mode = EncQuery then map_option (Cons (CHR '' '')) (unescape mode s)
      else if c \<noteq> CHR ''+'' \<and> (mode = EncHost \<or> mode = EncZone) \<and> (of_char c :: nat) < 128 \<and> should_escape mode c then None
      else map_option (Cons c) (unescape mode s))"

definition QueryUnescape :: "string \<Rightarrow> string option" where
  "QueryUnescape = unescape EncQuery"

lemma unhex_upper:
  assumes "n < 16"
  shows "unhex (upper_hex n) = Some n"
proof -
  have "list_all (\<lambda>n. unhex (upper_hex n) = Some n) [0..<16]" by (simp add: upt_rec upper_hex_def unhex_def)
  then show ?thesis using assms by (simp add: list_all_iff)
qed

lemma char_nibble: "of_char c div 16 < (16 :: nat)"
  by (rule less_mult_imp_div_less) simp

lemma QueryEscape_Nil [simp]: "QueryEscape [] = []"
  by (simp add: QueryEscape_def)

lemma QueryEscape_eq_Nil [simp]: "QueryEscape s = [] \<longleftrightarrow> s = []"
  by (cases s) (auto simp: QueryEscape_def)

lemma QueryUnescape_Escape: "QueryUnescape (QueryEscape s) = Some s"
  unfolding QueryUnescape_def
proof (induction s)
  case (Cons c s)
  have e: "QueryEscape (c # s) = (if should_escape EncQuery c then
      (if c = CHR '' '' then ''+'' else [CHR ''%'', upper_hex (of_char c div 16), upper_hex (of_char c mod 16)])
      else [c]) @ QueryEscape s" by (simp add: QueryEscape_def)
  have n: "\<not> should_escape EncQuery c \<Longrightarrow> c \<noteq> CHR ''%'' \<and> c \<noteq> CHR ''+''"
    by (auto simp: should_escape_def is_alnum_def Let_def split: if_splits)
  have "unhex (upper_hex (of_char c div 16)) = Some (of_char c div 16)"
    by (intro unhex_upper) (rule char_nibble)
  then show ?case using Cons.IH n unhex_upper [of "of_char c mod 16"] unfolding e by (auto simp: Let_def)
qed (simp add: QueryEscape_def)

text \<open>What an escaped string is made of.\<close>

definition escaped_char :: "char \<Rightarrow> bool" where
  "escaped_char c \<longleftrightarrow> is_alnum c \<or> c \<in> set ''-_.~+%''"

lemma upper_hex_escaped:
  assumes "n < 16"
  shows "escaped_char (upper_hex n)"
proof -
  have "list_all (\<lambda>n. escaped_char (upper_hex n)) [0..<16]" by (simp add: upt_rec upper_hex_def escaped_char_def is_alnum_def)
  then show ?thesis using assms by (simp add: list_all_iff)
qed

lemma QueryEscape_chars: "list_all escaped_char (QueryEscape s)"
proof -
  have "escaped_char (upper_hex (of_char c div 16))" "escaped_char (upper_hex (of_char c mod 16))" for c
    by (simp_all add: upper_hex_escaped char_nibble)
  moreover have "escaped_char (CHR ''+'')" "escaped_char (CHR ''%'')" by (simp_all add: escaped_char_def)
  moreover have "escaped_char c" if "\<not> should_escape EncQuery c" for c
    by (rule ccontr) (use that in \<open>simp add: should_escape_def escaped_char_def\<close>)
  ultimately show ?thesis by (auto simp: QueryEscape_def list_all_iff)
qed

lemma escaped_visible: "escaped_char c \<Longrightarrow> visible c"
  by (auto simp: escaped_char_def is_alnum_def visible_def Let_def)

section \<open>Parsing a URL\<close>

definition ctl_byte :: "char \<Rightarrow> bool" where
  "ctl_byte c \<longleftrightarrow> (of_char c :: nat) < 32 \<or> (of_char c :: nat) = 127"

definition valid_userinfo :: "string \<Rightarrow> bool" where
  "valid_userinfo s \<longleftrightarrow> list_all (\<lambda>c. is_alnum c \<or> c \<in> set (''-._:~!$&()*+,;=%@'' @ [CHR 0x27])) s"

definition valid_optional_port :: "string \<Rightarrow> bool" where
  "valid_optional_port s =
     (case s of [] \<Rightarrow> True | c # ds \<Rightarrow> c = CHR '':'' \<and> list_all (\<lambda>c. digit c \<noteq> None) ds)"

definition parse_host :: "string \<Rightarrow> string option" where
  "parse_host host =
     (if HasPrefix host ''['' then
        (case LastIndexByte host (CHR '']'') of
           None \<Rightarrow> None
         | Some i \<Rightarrow>
             if \<not> valid_optional_port (drop (i + 1) host) then None
             else case Cut (take i host) ''%25'' of
                    None \<Rightarrow> unescape EncHost host
                  | Some (h1, z) \<Rightarrow>
                      (case (unescape EncHost h1, unescape EncZone (''%25'' @ z), unescape EncHost (drop i host)) of
                         (Some a, Some b, Some c) \<Rightarrow> Some (a @ b @ c)
                       | _ \<Rightarrow> None))
      else case LastIndexByte host (CHR '':'') of
             Some i \<Rightarrow> if valid_optional_port (drop i host) then unescape EncHost host else None
           | None \<Rightarrow> unescape EncHost host)"

text \<open>Whether \<open>parseAuthority\<close> succeeds.\<close>

definition parse_authority :: "string \<Rightarrow> bool" where
  "parse_authority authority \<longleftrightarrow>
     (case LastIndexByte authority (CHR ''@'') of
        None \<Rightarrow> parse_host authority \<noteq> None
      | Some i \<Rightarrow>
          let userinfo = take i authority in
          parse_host (drop (i + 1) authority) \<noteq> None \<and> valid_userinfo userinfo
          \<and> (case Cut userinfo '':'' of
               None \<Rightarrow> unescape EncUserPassword userinfo \<noteq> None
             | Some (u, p) \<Rightarrow> unescape EncUserPassword u \<noteq> None \<and> unescape EncUserPassword p \<noteq> None))"

text \<open>
  \<open>url.Parse\<close> of a URL with a scheme and an authority. The argument is what follows the scheme and
  its colon, so it begins with two slashes. The result is the raw query, \<open>None\<close> an error.
\<close>

definition url_Parse :: "string \<Rightarrow> string option" where
  "url_Parse s =
     (let (u, frag) = (case Cut s ''#'' of None \<Rightarrow> (s, []) | Some uf \<Rightarrow> uf) in
      if list_ex ctl_byte u then None
      else
        let (rest, rawQuery) =
              (if HasSuffix u ''?'' \<and> length (filter (\<lambda>c. c = CHR ''?'') u) = 1 then (butlast u, [])
               else case Cut u ''?'' of None \<Rightarrow> (u, []) | Some rq \<Rightarrow> rq);
            authority = drop 2 rest;
            (authority, path) =
              (case IndexByte authority (CHR ''/'') of
                 None \<Rightarrow> (authority, [])
               | Some i \<Rightarrow> (take i authority, drop i authority))
        in if parse_authority authority \<and> unescape EncPath path \<noteq> None
              \<and> (frag = [] \<or> unescape EncFragment frag \<noteq> None)
           then Some rawQuery else None)"

text \<open>\<open>ParseQuery\<close> without its error, which \<open>Query\<close> drops: the pairs in their order.\<close>

definition query_pair :: "string \<Rightarrow> (string \<times> string) option" where
  "query_pair part =
     (if CHR '';'' \<in> set part \<or> part = [] then None
      else
        let (key, value) = (case Cut part ''='' of None \<Rightarrow> (part, []) | Some kv \<Rightarrow> kv)
        in case (QueryUnescape key, QueryUnescape value) of
             (Some k, Some v) \<Rightarrow> Some (k, v)
           | _ \<Rightarrow> None)"

definition ParseQuery :: "string \<Rightarrow> (string \<times> string) list" where
  "ParseQuery query = List.map_filter query_pair (Split query (CHR ''&''))"

definition query_Get :: "(string \<times> string) list \<Rightarrow> string \<Rightarrow> string" where
  "query_Get q key = (case map_of q key of None \<Rightarrow> '''' | Some v \<Rightarrow> v)"

text \<open>\<open>strings.Join\<close>\<close>

fun JoinStr :: "string list \<Rightarrow> string \<Rightarrow> string" where
  "JoinStr [] sep = []"
| "JoinStr [s] sep = s"
| "JoinStr (s # t # ts) sep = s @ sep @ JoinStr (t # ts) sep"

lemma Split_plain_char: "c \<notin> set s \<Longrightarrow> Split s c = [s]"
  by (induction s) auto

lemma Split_append_char: "c \<notin> set a \<Longrightarrow> Split (a @ c # b) c = a # Split b c"
  by (induction a) auto

lemma Split_JoinStr: "ps \<noteq> [] \<Longrightarrow> list_all (\<lambda>p. c \<notin> set p) ps \<Longrightarrow> Split (JoinStr ps [c]) c = ps"
  by (induction ps "[c]" rule: JoinStr.induct) (auto simp: Split_plain_char Split_append_char)

lemma set_JoinStr: "set (JoinStr ps sep) \<subseteq> \<Union> (set ` set ps) \<union> set sep"
  by (induction ps sep rule: JoinStr.induct) auto

text \<open>A pair whose key needs no escaping.\<close>

definition plain_key :: "string \<Rightarrow> bool" where
  "plain_key k \<longleftrightarrow> k \<noteq> [] \<and> list_all is_alnum k"

lemma unescape_plain:
  "list_all (\<lambda>c. c \<noteq> CHR ''%'' \<and> c \<noteq> CHR ''+'') s \<Longrightarrow> QueryUnescape s = Some s"
  unfolding QueryUnescape_def by (induction s) auto

lemma query_pair_plain:
  assumes "plain_key k" "CHR '';'' \<notin> set v" "QueryUnescape v = Some w"
  shows "query_pair (k @ ''='' @ v) = Some (k, w)"
proof -
  have k: "\<not> is_alnum (CHR ''='')" "\<not> is_alnum (CHR '';'')" "\<not> is_alnum (CHR ''%'')" "\<not> is_alnum (CHR ''+'')"
    by (simp_all add: is_alnum_def)
  have "Cut (k @ CHR ''='' # v) ''='' = Some (k, v)"
    using assms(1) k by (intro Cut_char) (auto simp: plain_key_def list_all_iff)
  moreover have "QueryUnescape k = Some k"
    using assms(1) k by (intro unescape_plain) (auto simp: plain_key_def list_all_iff)
  moreover have "CHR '';'' \<notin> set k" using assms(1) k by (auto simp: plain_key_def list_all_iff)
  ultimately show ?thesis using assms(2,3) by (simp add: query_pair_def)
qed

text \<open>The URLs \<open>//host?query\<close> with a host of letters and a query without a hash or control characters.\<close>

lemma alnum_special:
  "\<not> is_alnum (CHR ''#'')" "\<not> is_alnum (CHR ''?'')" "\<not> is_alnum (CHR ''@'')" "\<not> is_alnum (CHR ''/'')"
  "\<not> is_alnum (CHR '':'')" "\<not> is_alnum (CHR ''['')" "\<not> is_alnum (CHR ''%'')" "\<not> is_alnum (CHR ''+'')"
  by (simp_all add: is_alnum_def)

lemma unescape_alnum: "list_all is_alnum h \<Longrightarrow> unescape EncHost h = Some h"
proof (induction h)
  case (Cons c h)
  moreover have "c \<noteq> CHR ''%''" "c \<noteq> CHR ''+''" using Cons.prems alnum_special by auto
  moreover have "\<not> should_escape EncHost c" using Cons.prems by (simp add: should_escape_def)
  ultimately show ?case by simp
qed simp

lemma parse_authority_alnum:
  assumes "list_all is_alnum h"
  shows "parse_authority h"
proof -
  have "CHR ''@'' \<notin> set h" "CHR '':'' \<notin> set h" using assms alnum_special by (auto simp: list_all_iff)
  then have "LastIndexByte h (CHR ''@'') = None" "LastIndexByte h (CHR '':'') = None" by simp_all
  moreover have "\<not> HasPrefix h ''[''" using assms alnum_special by (cases h) (auto simp: HasPrefix_def prefix_def)
  ultimately show ?thesis by (simp add: parse_authority_def parse_host_def unescape_alnum [OF assms] del: LastIndexByte_None_iff)
qed

lemma url_Parse_query:
  assumes "list_all is_alnum host" "list_all (\<lambda>c. c \<noteq> CHR ''#'' \<and> \<not> ctl_byte c) query" "query \<noteq> []"
  shows "url_Parse (''//'' @ host @ ''?'' @ query) = Some query"
proof -
  define u where "u = ''//'' @ host @ ''?'' @ query"
  have h: "CHR ''#'' \<notin> set host" "CHR ''?'' \<notin> set host" "CHR ''/'' \<notin> set host"
    using assms(1) alnum_special by (auto simp: list_all_iff)
  have c: "is_alnum c \<Longrightarrow> \<not> ctl_byte c" for c by (auto simp: is_alnum_def ctl_byte_def Let_def)
  have ctl: "\<not> list_ex ctl_byte u"
  proof -
    have "list_all (\<lambda>c. \<not> ctl_byte c) host" using assms(1) by (simp add: list_all_iff c)
    moreover have "list_all (\<lambda>c. \<not> ctl_byte c) query" using assms(2) by (simp add: list_all_iff)
    moreover have "list_all (\<lambda>c. \<not> ctl_byte c) ''//?''" by (simp add: ctl_byte_def)
    ultimately have "list_all (\<lambda>c. \<not> ctl_byte c) u" by (simp add: u_def)
    then show ?thesis by (metis list_all_iff list_ex_iff)
  qed
  have hash: "Cut u ''#'' = None" using h(1) assms(2) unfolding u_def by (intro Cut_char_None) (auto simp: list_all_iff)
  have q: "Cut u ''?'' = Some (''//'' @ host, query)" unfolding u_def using Cut_char [of "CHR ''?''" "''//'' @ host" query] h(2) by simp
  have one: "\<not> (HasSuffix u ''?'' \<and> length (filter (\<lambda>c. c = CHR ''?'') u) = 1)"
  proof
    assume s: "HasSuffix u ''?'' \<and> length (filter (\<lambda>c. c = CHR ''?'') u) = 1"
    then have "last u = CHR ''?''" unfolding HasSuffix_def suffix_def by (metis last_snoc)
    then have "CHR ''?'' \<in> set query" using assms(3) last_in_set [of query] by (simp add: u_def)
    then have "filter (\<lambda>c. c = CHR ''?'') query \<noteq> []" unfolding filter_empty_conv by blast
    then show False using s by (simp add: u_def)
  qed
  have "IndexByte host (CHR ''/'') = None" using h(3) by simp
  then have "url_Parse u = Some query"
    using parse_authority_alnum [OF assms(1)]
    by (simp only: url_Parse_def hash option.case prod.case Let_def if_not_P [OF ctl] if_not_P [OF one] q)
      (simp del: IndexByte_None_iff)
  then show ?thesis by (simp add: u_def)
qed

end
