(* ===== verification/Invite.thy ===== *)
theory Invite
  imports Go_Url Go_Json Cipher
begin

text \<open>
  \<open>pkg/feed/invite.go\<close>: invites as \<open>zerofeed://\<close> URIs and as links to the landing page, and the
  parser for both and for plain codes. Invites survive both ways of writing them.
\<close>

definition DefaultLandingURL :: string where
  "DefaultLandingURL = ''https://nicolainzerillo.github.io/ZeroFeed-Landing/''"

record invite =
  iv_Code :: string
  iv_RelayAddr :: string
  iv_TransportMode :: string
  iv_SPKIFingerprint :: string

definition GenerateInvite :: "string \<Rightarrow> string \<Rightarrow> invite" where
  "GenerateInvite code relayAddr =
     \<lparr>iv_Code = code, iv_RelayAddr = relayAddr, iv_TransportMode = '''', iv_SPKIFingerprint = ''''\<rparr>"

datatype invite_err = ErrEmptyInvite | ErrInvalidURI | ErrMissingCode

text \<open>The fragment of a web link, if there is one.\<close>

definition join_fragment :: "string \<Rightarrow> string" where
  "join_fragment raw =
     (if Contains raw ''#join='' then
        let parts = SplitStr raw ''#join='' in
        if length parts = 2 then
          (case QueryUnescape (parts ! 1) of Some unescapedHash \<Rightarrow> unescapedHash | None \<Rightarrow> parts ! 1)
        else raw
      else raw)"

definition ParseInvite :: "string \<Rightarrow> invite_err + invite" where
  "ParseInvite raw =
     (let raw = TrimSpace raw in
      if raw = '''' then Inl ErrEmptyInvite
      else
        let raw = join_fragment raw in
        if HasPrefix raw ''zerofeed://'' then
          (case url_Parse (drop (length ''zerofeed:'') raw) of
             None \<Rightarrow> Inl ErrInvalidURI
           | Some rawQuery \<Rightarrow>
               let q = ParseQuery rawQuery;
                   code = query_Get q ''code''
               in if code = '''' then Inl ErrMissingCode
                  else Inr \<lparr>iv_Code = code, iv_RelayAddr = query_Get q ''relay'',
                            iv_TransportMode = query_Get q ''transport'',
                            iv_SPKIFingerprint = query_Get q ''fingerprint''\<rparr>)
        else Inr \<lparr>iv_Code = raw, iv_RelayAddr = '''', iv_TransportMode = '''', iv_SPKIFingerprint = ''''\<rparr>)"

definition invite_params :: "invite \<Rightarrow> string list" where
  "invite_params i =
     (if iv_Code i \<noteq> '''' then [''code='' @ QueryEscape (iv_Code i)] else [])
     @ (if iv_RelayAddr i \<noteq> '''' then [''relay='' @ iv_RelayAddr i] else [])
     @ (if iv_TransportMode i \<noteq> '''' then [''transport='' @ QueryEscape (iv_TransportMode i)] else [])
     @ (if iv_SPKIFingerprint i \<noteq> '''' then [''fingerprint='' @ QueryEscape (iv_SPKIFingerprint i)] else [])"

definition ToURI :: "invite \<Rightarrow> string" where
  "ToURI i = ''zerofeed://join?'' @ JoinStr (invite_params i) ''&''"

definition ToWebURL :: "invite \<Rightarrow> string" where
  "ToWebURL i = DefaultLandingURL @ ''#join='' @ QueryEscape (ToURI i)"

definition newline :: string where
  "newline = [CHR 0x0A]"

definition FormatBanner :: "invite \<Rightarrow> string" where
  "FormatBanner i =
     ''===================================================='' @ newline
     @ '' [ZeroFeed Client-Generated Stateless Invite]'' @ newline
     @ '' Passphrase Code : '' @ iv_Code i @ newline
     @ (if iv_RelayAddr i \<noteq> '''' then '' Target Relay   : '' @ iv_RelayAddr i @ newline else '''')
     @ (let (hexSAS, emojiSAS) = CalculateSAS (bytes_of (iv_Code i)) in
        '' Visual SAS      : '' @ string_of emojiSAS @ '' ['' @ hexSAS @ '']'' @ newline)
     @ ''----------------------------------------------------'' @ newline
     @ '' Native URI      : '' @ ToURI i @ newline
     @ '' Web Link        : '' @ ToWebURL i @ newline
     @ ''===================================================='' @ newline"

section \<open>Round trips\<close>

text \<open>
  The relay address is the only part that is written without escaping, so it has to be free of
  the characters that mean something in a query; host names, IP addresses, ports and lists of
  them are.
\<close>

definition relay_char :: "char \<Rightarrow> bool" where
  "relay_char c \<longleftrightarrow> visible c \<and> c \<notin> set ''&;+%#''"

lemma visible_plain: "visible c \<Longrightarrow> \<not> ctl_byte c"
  by (simp add: visible_def ctl_byte_def)

lemma escaped_plain: "escaped_char c \<Longrightarrow> visible c \<and> c \<notin> set ''&;#''"
  using escaped_visible [of c] by (auto simp: escaped_char_def is_alnum_def)

lemma QueryEscape_plain: "c \<in> set (QueryEscape s) \<Longrightarrow> visible c \<and> c \<notin> set ''&;#''"
  using QueryEscape_chars [of s] escaped_plain by (auto simp: list_all_iff)

lemma QueryEscape_semicolon: "CHR '';'' \<notin> set (QueryEscape s)"
  using QueryEscape_plain [of "CHR '';''" s] by auto

lemma relay_query:
  assumes "list_all relay_char r"
  shows "QueryUnescape r = Some r" "CHR '';'' \<notin> set r"
proof -
  show "QueryUnescape r = Some r" using assms by (intro unescape_plain) (auto simp: list_all_iff relay_char_def)
  show "CHR '';'' \<notin> set r" using assms by (auto simp: list_all_iff relay_char_def)
qed

text \<open>The characters of a parameter: none of them ends the parameter, the query or the fragment.\<close>

definition param_char :: "char \<Rightarrow> bool" where
  "param_char c \<longleftrightarrow> visible c \<and> c \<noteq> CHR ''&'' \<and> c \<noteq> CHR ''#''"

lemma params_chars:
  assumes "list_all relay_char (iv_RelayAddr i)"
  shows "list_all (list_all param_char) (invite_params i)"
proof -
  have e: "list_all param_char (QueryEscape s)" for s
    using QueryEscape_plain [of _ s] by (auto simp: list_all_iff param_char_def)
  have r: "list_all param_char (iv_RelayAddr i)"
    using assms by (auto simp: list_all_iff param_char_def relay_char_def)
  have "list_all param_char ''code=''" "list_all param_char ''relay=''" "list_all param_char ''transport=''"
    "list_all param_char ''fingerprint=''" by (simp_all add: param_char_def visible_def)
  then show ?thesis using e r unfolding invite_params_def by simp
qed

lemma query_pairs:
  assumes "list_all relay_char (iv_RelayAddr i)"
  shows "List.map_filter query_pair (invite_params i) =
     (if iv_Code i \<noteq> '''' then [(''code'', iv_Code i)] else [])
     @ (if iv_RelayAddr i \<noteq> '''' then [(''relay'', iv_RelayAddr i)] else [])
     @ (if iv_TransportMode i \<noteq> '''' then [(''transport'', iv_TransportMode i)] else [])
     @ (if iv_SPKIFingerprint i \<noteq> '''' then [(''fingerprint'', iv_SPKIFingerprint i)] else [])"
proof -
  have "plain_key ''code''" "plain_key ''relay''" "plain_key ''transport''" "plain_key ''fingerprint''"
    by (simp_all add: plain_key_def is_alnum_def)
  note q = this [THEN query_pair_plain]
  have "query_pair (''relay='' @ iv_RelayAddr i) = Some (''relay'', iv_RelayAddr i)"
    using q(2) [OF relay_query(2,1) [OF assms]] by simp
  moreover have "query_pair (''code='' @ QueryEscape s) = Some (''code'', s)"
    "query_pair (''transport='' @ QueryEscape s) = Some (''transport'', s)"
    "query_pair (''fingerprint='' @ QueryEscape s) = Some (''fingerprint'', s)" for s
    using q(1,3,4) [OF QueryEscape_semicolon QueryUnescape_Escape, of s] by simp_all
  ultimately show ?thesis unfolding invite_params_def by (simp add: List.map_filter_def)
qed

lemma query_chars:
  assumes "list_all relay_char (iv_RelayAddr i)"
  shows "list_all (\<lambda>c. visible c \<and> c \<noteq> CHR ''#'') (JoinStr (invite_params i) ''&'')"
proof -
  have "visible (CHR ''&'')" by (simp add: visible_def)
  then show ?thesis
    using params_chars [OF assms] set_JoinStr [of "invite_params i" "''&''"] by (fastforce simp: list_all_iff param_char_def)
qed

lemma ParseInvite_URI:
  assumes "iv_Code i \<noteq> ''''" "list_all relay_char (iv_RelayAddr i)"
  shows "HasPrefix (ToURI i) ''zerofeed://''" "list_all (\<lambda>c. visible c \<and> c \<noteq> CHR ''#'') (ToURI i)"
    "url_Parse (drop (length ''zerofeed:'') (ToURI i)) = Some (JoinStr (invite_params i) ''&'')"
    "ParseQuery (JoinStr (invite_params i) ''&'') = List.map_filter query_pair (invite_params i)"
proof -
  let ?q = "JoinStr (invite_params i) ''&''"
  have ne: "invite_params i \<noteq> []" using assms(1) by (simp add: invite_params_def)
  have c: "list_all (\<lambda>c. CHR ''&'' \<notin> set c) (invite_params i)"
    using params_chars [OF assms(2)] by (auto simp: list_all_iff param_char_def)
  show "HasPrefix (ToURI i) ''zerofeed://''" by (simp add: HasPrefix_def ToURI_def)
  show "list_all (\<lambda>c. visible c \<and> c \<noteq> CHR ''#'') (ToURI i)"
    using query_chars [OF assms(2)] by (simp add: ToURI_def visible_def)
  have "?q \<noteq> []" using ne by (cases "invite_params i" rule: list.exhaust [case_product list.exhaust])
     (use assms(1) in \<open>auto simp: invite_params_def split: if_splits\<close>)
  moreover have "list_all (\<lambda>c. c \<noteq> CHR ''#'' \<and> \<not> ctl_byte c) ?q"
    using query_chars [OF assms(2)] visible_plain by (auto simp: list_all_iff)
  moreover have "list_all is_alnum ''join''" by (simp add: is_alnum_def)
  ultimately show "url_Parse (drop (length ''zerofeed:'') (ToURI i)) = Some ?q"
    using url_Parse_query [of "''join''" ?q] by (simp add: ToURI_def)
  show "ParseQuery ?q = List.map_filter query_pair (invite_params i)"
    using Split_JoinStr [OF ne c] by (simp add: ParseQuery_def)
qed

lemma TrimSpace_all_visible: "list_all visible s \<Longrightarrow> TrimSpace s = s"
  by (rule TrimSpace_visible) (auto simp: list_all_iff)

lemma join_fragment_plain: "CHR ''#'' \<notin> set raw \<Longrightarrow> join_fragment raw = raw"
  by (simp add: join_fragment_def Contains_Cut Cut_None_hd)

text \<open>What the parser makes of a URI, however it came to it.\<close>

lemma parse_after_fragment:
  assumes "iv_Code i \<noteq> ''''" "list_all relay_char (iv_RelayAddr i)"
    and "TrimSpace raw = raw" "raw \<noteq> ''''" "join_fragment raw = ToURI i"
  shows "ParseInvite raw = Inr i"
proof -
  have "ParseInvite raw = Inr \<lparr>iv_Code = iv_Code i, iv_RelayAddr = iv_RelayAddr i,
      iv_TransportMode = iv_TransportMode i, iv_SPKIFingerprint = iv_SPKIFingerprint i\<rparr>"
    using assms unfolding ParseInvite_def
    by (simp add: ParseInvite_URI [OF assms(1,2)] query_pairs query_Get_def Let_def del: length_Cons list.size)
  then show ?thesis by simp
qed

lemma invite_read_back:
  assumes "iv_Code i \<noteq> ''''" "list_all relay_char (iv_RelayAddr i)"
  shows "ParseInvite (ToURI i) = Inr i"
proof -
  have "list_all visible (ToURI i)" "CHR ''#'' \<notin> set (ToURI i)" using ParseInvite_URI(2) [OF assms] by (auto simp: list_all_iff)
  then show ?thesis
    by (intro parse_after_fragment [OF assms] TrimSpace_all_visible join_fragment_plain) (simp_all add: ToURI_def)
qed

text \<open>C15: invites survive being shared. An invite with a code, whatever bytes its code, transport mode and
  fingerprint have, and with a relay address free of \<open>&;+%#\<close>, spaces and non-ASCII characters, is
  read back unchanged from its URI and from its web link.\<close>

theorem invite_roundtrip:
  assumes "iv_Code i \<noteq> ''''" "list_all relay_char (iv_RelayAddr i)"
  shows "ParseInvite (ToURI i) = Inr i \<and> ParseInvite (ToWebURL i) = Inr i"
proof
  show "ParseInvite (ToURI i) = Inr i" using assms by (rule invite_read_back)
  let ?e = "QueryEscape (ToURI i)"
  have e: "list_all visible ?e" "CHR ''#'' \<notin> set ?e" using QueryEscape_plain [of _ "ToURI i"] by (auto simp: list_all_iff)
  have l: "list_all visible DefaultLandingURL" "CHR ''#'' \<notin> set DefaultLandingURL"
    by (simp_all add: DefaultLandingURL_def visible_def)
  have "SplitStr (ToWebURL i) ''#join='' = [DefaultLandingURL, ?e]"
    using Cut_hd [OF l(2), of "''join=''" ?e] Cut_None_hd [OF e(2), of "''join=''"]
    by (subst SplitStr.simps) (simp add: ToWebURL_def SplitStr.simps [of ?e])
  moreover have "Contains (ToWebURL i) ''#join=''"
    using Cut_hd [OF l(2), of "''join=''" ?e] by (simp add: Contains_Cut ToWebURL_def)
  ultimately have "join_fragment (ToWebURL i) = ToURI i" by (simp add: join_fragment_def QueryUnescape_Escape)
  moreover have "list_all visible (ToWebURL i)" using e(1) l(1) by (simp add: ToWebURL_def visible_def)
  ultimately show "ParseInvite (ToWebURL i) = Inr i"
    by (intro parse_after_fragment [OF assms] TrimSpace_all_visible) (simp_all add: ToWebURL_def)
qed

theorem invite_roundtrip_witness:
  "ParseInvite (ToURI (GenerateInvite ''a b&c'' ''relay.example:8443'')) = Inr (GenerateInvite ''a b&c'' ''relay.example:8443'')
   \<and> ParseInvite (ToWebURL (GenerateInvite ''a b&c'' ''relay.example:8443'')) = Inr (GenerateInvite ''a b&c'' ''relay.example:8443'')"
  by (rule invite_roundtrip) (simp_all add: GenerateInvite_def relay_char_def visible_def)

end
