(* ===== verification/Relay_List.thy ===== *)
theory Relay_List
  imports Session_ID
begin

text \<open>
  \<open>pkg/feed/relay_list.go\<close>: lists of relays, probing them in order, and the public relays. What
  the dials answer (with their timeouts) is \<open>ne_tcp\<close> of the network, what the resolver answers is
  the argument \<open>lookupHost\<close> (\<open>None\<close>: an error).
\<close>

definition DefaultRelays :: "string list" where
  "DefaultRelays = [''relay.zerofeed.app:8443'', ''fallback.relay.zerofeed.app:8443'']"

definition DefaultRelayDNS :: string where "DefaultRelayDNS = ''relay.zerofeed.app''"
definition DefaultRelayPort :: string where "DefaultRelayPort = ''8443''"
definition DefaultPublicRelayIP :: string where "DefaultPublicRelayIP = ''92.4.216.150:8443''"

definition ParseRelayList :: "string \<Rightarrow> string list" where
  "ParseRelayList s = filter (\<lambda>p. p \<noteq> '''') (map TrimSpace (Split s (CHR '','')))"

text \<open>The last relay that was tried is in the error.\<close>

datatype relay_err = ErrEmptyList | ErrAllUnreachable "string option"

fun dial_loop :: "net_env \<Rightarrow> string option \<Rightarrow> string list \<Rightarrow> relay_err + conn \<times> string" where
  "dial_loop N lastErr [] = Inl (ErrAllUnreachable lastErr)"
| "dial_loop N lastErr (addr # relays) =
     (case ne_tcp N ''tcp'' addr of
        Some conn \<Rightarrow> Inr (conn, addr)
      | None \<Rightarrow> dial_loop N (Some addr) relays)"

definition DialFirstAvailable :: "net_env \<Rightarrow> string list \<Rightarrow> relay_err + conn \<times> string" where
  "DialFirstAvailable N relays = (if length relays = 0 then Inl ErrEmptyList else dial_loop N None relays)"

text \<open>The second component has the connections the probe has opened, as it leaves them.\<close>

definition ProbeFirstAvailable :: "net_env \<Rightarrow> string list \<Rightarrow> (relay_err + string) \<times> conn list" where
  "ProbeFirstAvailable N relays =
     (case DialFirstAvailable N relays of
        Inl e \<Rightarrow> (Inl e, [])
      | Inr (conn, addr) \<Rightarrow> (Inr addr, [conn_Close conn]))"

definition ResolveDefaultRelays :: "(string \<Rightarrow> string list option) \<Rightarrow> string list" where
  "ResolveDefaultRelays lookupHost =
     (case lookupHost DefaultRelayDNS of
        Some addrs \<Rightarrow>
          if 0 < length addrs then map (\<lambda>addr. JoinHostPort addr DefaultRelayPort) addrs @ [DefaultPublicRelayIP]
          else [DefaultPublicRelayIP]
      | None \<Rightarrow> [DefaultPublicRelayIP])"

section \<open>The first relay that answers\<close>

text \<open>The position of the first reachable relay in a list.\<close>

definition first_reachable :: "net_env \<Rightarrow> string list \<Rightarrow> string \<Rightarrow> bool" where
  "first_reachable N relays a \<longleftrightarrow> find (\<lambda>r. ne_tcp N ''tcp'' r \<noteq> None) relays = Some a"

lemma dial_loop_Inr:
  "dial_loop N l relays = Inr (c, a) \<longleftrightarrow> first_reachable N relays a \<and> ne_tcp N ''tcp'' a = Some c"
  by (induction relays arbitrary: l) (auto simp: first_reachable_def split: option.splits)

lemma dial_loop_Inl:
  "(\<exists>e. dial_loop N l relays = Inl e) \<longleftrightarrow> list_all (\<lambda>r. ne_tcp N ''tcp'' r = None) relays"
  by (induction relays arbitrary: l) (auto split: option.splits)

lemma Probe_iff: "fst (ProbeFirstAvailable N relays) = Inr a \<longleftrightarrow> first_reachable N relays a"
proof -
  have "first_reachable N relays a \<Longrightarrow> \<exists>c. ne_tcp N ''tcp'' a = Some c"
    by (auto simp: first_reachable_def find_Some_iff)
  moreover have "fst (ProbeFirstAvailable N relays) = Inr a \<longleftrightarrow> relays \<noteq> [] \<and> (\<exists>c. dial_loop N None relays = Inr (c, a))"
    by (auto simp: ProbeFirstAvailable_def DialFirstAvailable_def split: sum.split)
  ultimately show ?thesis by (auto simp: dial_loop_Inr first_reachable_def)
qed

text \<open>A probe leaves no connection open.\<close>

lemma Probe_closes: "list_all cn_closed (snd (ProbeFirstAvailable N relays))"
  by (simp add: ProbeFirstAvailable_def conn_Close_def split: sum.split)

text \<open>The entries of a parsed list are trimmed and not empty.\<close>

lemma ParseRelayList_ne: "'''' \<notin> set (ParseRelayList s)"
  by (simp add: ParseRelayList_def)

lemma ResolveDefaultRelays_ne: "ResolveDefaultRelays lookupHost \<noteq> []"
  by (simp add: ResolveDefaultRelays_def split: option.split)

lemma ParseRelayList_single:
  "CHR '','' \<notin> set s \<Longrightarrow> TrimSpace s = s \<Longrightarrow> s \<noteq> '''' \<Longrightarrow> ParseRelayList s = [s]"
proof -
  assume a: "CHR '','' \<notin> set s" "TrimSpace s = s" "s \<noteq> ''''"
  have "c \<notin> set s \<Longrightarrow> Split s c = [s]" for c by (induction s) auto
  then show ?thesis using a by (simp add: ParseRelayList_def)
qed

end
