(* ===== verification/Channel_Code.thy ===== *)
theory Channel_Code
  imports Go_Strings Go_IO Protocol
begin

text \<open>
  \<open>generateChannelCode\<close> of \<open>main.go\<close>: five words and a number of six digits. The random source is
  an argument: the twelve bytes of the first draw (\<open>None\<close>: an error, which the code ignores), and
  for each word the bytes its rejection loop would draw.
\<close>

definition words :: "string list" where
  "words =
    [''quantum'', ''shield'', ''cipher'', ''falcon'', ''orbit'', ''phoenix'', ''pulse'', ''matrix'',
     ''vector'', ''horizon'', ''shadow'', ''starlight'', ''vortex'', ''cobalt'', ''emerald'', ''aurora'',
     ''hyper'', ''nebula'', ''zenith'', ''vertex'', ''nexus'', ''prism'', ''spectre'', ''titan'',
     ''argon'', ''beacon'', ''celestial'', ''dynasty'', ''eclipse'', ''frontier'', ''glacier'', ''helix'',
     ''impulse'', ''jupiter'', ''krypton'', ''lunar'', ''magnet'', ''neutron'', ''omega'', ''polaris'',
     ''quasar'', ''radiant'', ''solar'', ''tachyon'', ''uranium'', ''velocity'', ''wavelength'', ''xray'',
     ''yield'', ''zodiac'', ''anchor'', ''blaze'', ''cascade'', ''dragon'', ''echo'', ''frost'',
     ''granite'', ''haven'', ''iron'', ''jasper'', ''knight'', ''lotus'', ''mirage'', ''nova'',
     ''onyx'', ''phantom'', ''quartz'', ''raven'', ''sapphire'', ''thunder'', ''umbra'', ''valkyrie'',
     ''whisper'', ''xenon'', ''yeti'', ''zephyr'', ''abyss'', ''boulder'', ''comet'', ''dune'',
     ''element'', ''forge'', ''gargoyle'', ''harbor'', ''infinity'', ''jungle'', ''kinetic'', ''lightning'',
     ''monolith'', ''navigator'', ''obsidian'', ''pyramid'', ''quest'', ''rift'', ''spire'', ''tempest'',
     ''utopia'', ''vanguard'', ''wildfire'', ''zealot'', ''asteroid'', ''blizzard'', ''cosmos'', ''dynamo'',
     ''entropy'', ''fissure'', ''gravity'', ''hurricane'', ''impact'', ''journey'', ''keystone'', ''leviathan'',
     ''maelstrom'', ''nadir'', ''oasis'', ''pulsar'', ''quarry'', ''resonance'', ''solstice'', ''typhoon'',
     ''ultraviolet'', ''volcano'', ''viper'', ''whirlpool'', ''xiphos'', ''yggdrasil'', ''zircon'', ''apex'',
     ''bastion'', ''citadel'', ''domain'', ''empire'', ''fortress'', ''guardian'', ''hyperion'', ''isotope'',
     ''juggernaut'', ''kryptonite'', ''labyrinth'', ''meridian'', ''nemesis'', ''oracle'', ''pathfinder'', ''quicksilver'',
     ''renegade'', ''sentinel'', ''torpedo'', ''universe'', ''vulture'', ''warlord'', ''xenonite'', ''yottabyte'',
     ''zeus'', ''avalanche'', ''barrier'', ''chasm'', ''equinox'', ''firewall'', ''grid'', ''hyperdrive'',
     ''inferno'', ''jackhammer'', ''kilometer'', ''luminary'', ''meteor'', ''neutrino'', ''overload'', ''parsec'',
     ''qubit'', ''raytrace'', ''singularity'', ''thruster'', ''unifier'', ''veritas'', ''warp'', ''xanadu'',
     ''yearling'', ''zeropoint'', ''arc'', ''bolt'', ''core'', ''disk'', ''flux'', ''gate'',
     ''hub'', ''ion'', ''jet'', ''kilobyte'', ''link'', ''mesh'', ''node'', ''overdrive'',
     ''port'', ''quad'', ''ram'', ''sync'', ''turboflow'', ''unit'', ''volt'', ''watt'',
     ''xenith'', ''yaw'', ''zone'', ''alpha'', ''beta'', ''gamma'', ''delta'', ''epsilon'',
     ''zeta'', ''eta'', ''theta'', ''iota'', ''kappa'', ''lambda'', ''mu'', ''nu'',
     ''xi'', ''omicron'', ''pi'', ''rho'', ''sigma'', ''tau'', ''upsilon'', ''phi'',
     ''chi'', ''psi'', ''omegacore'', ''antimatter'', ''biome'', ''chronos'', ''darkmatter'', ''exoplanet'']"

text \<open>The rejection loop draws until a byte is small enough; it may go on forever.\<close>

partial_function (option) redraw :: "u32 \<Rightarrow> (nat \<Rightarrow> byte) \<Rightarrow> nat \<Rightarrow> u32 option" where
  "redraw maxVal tb i =
     (let val = ucast (tb i) in if val < maxVal then Some val else redraw maxVal tb (Suc i))"

definition getUnbiasedWord :: "(nat \<Rightarrow> byte) \<Rightarrow> byte \<Rightarrow> string option" where
  "getUnbiasedWord tb rawByte =
     (let n = (of_nat (length words) :: u32);
          maxVal = 256 - 256 mod n;
          val = ucast rawByte
      in map_option (\<lambda>val. words ! unat (val mod n)) (if maxVal \<le> val then redraw maxVal tb 0 else Some val))"

definition generateChannelCode :: "bytes option \<Rightarrow> (nat \<Rightarrow> nat \<Rightarrow> byte) \<Rightarrow> string option" where
  "generateChannelCode rnd tb =
     (let b = (case rnd of None \<Rightarrow> replicate 12 0 | Some r \<Rightarrow> go_copy (replicate 12 0) 0 12 r) in
      case getUnbiasedWord (tb 0) (b ! 0) of None \<Rightarrow> None | Some w1 \<Rightarrow>
      (case getUnbiasedWord (tb 1) (b ! 1) of None \<Rightarrow> None | Some w2 \<Rightarrow>
      (case getUnbiasedWord (tb 2) (b ! 2) of None \<Rightarrow> None | Some w3 \<Rightarrow>
      (case getUnbiasedWord (tb 3) (b ! 3) of None \<Rightarrow> None | Some w4 \<Rightarrow>
      (case getUnbiasedWord (tb 4) (b ! 4) of None \<Rightarrow> None | Some w5 \<Rightarrow>
         let num = Uint32 (go_slice b 5 9) mod 900000 + 100000 in
         Some (w1 @ ''-'' @ w2 @ ''-'' @ w3 @ ''-'' @ w4 @ ''-'' @ w5 @ ''-'' @ print_nat (unat num)))))))"

section \<open>The loop\<close>

lemma length_words: "length words = 232"
  by (simp add: words_def)

lemma redraw_less: "redraw maxVal tb i = Some val \<Longrightarrow> val < maxVal"
proof (induction rule: redraw.raw_induct [rotated, consumes 1])
  case (1 rec maxVal tb i val)
  then show ?case by (auto simp: Let_def split: if_splits)
qed

text \<open>It ends as soon as the source delivers an acceptable byte.\<close>

lemma redraw_ends: "ucast (tb (i + d)) < maxVal \<Longrightarrow> \<exists>val. redraw maxVal tb i = Some val"
proof (induction d arbitrary: i)
  case 0
  then show ?case by (subst redraw.simps) simp
next
  case (Suc d)
  then show ?case using Suc.IH [of "Suc i"] by (subst redraw.simps) (simp add: Let_def)
qed

lemma getUnbiasedWord_eq:
  "getUnbiasedWord tb r = map_option (\<lambda>val. words ! unat val) (if 232 \<le> (ucast r :: u32) then redraw 232 tb 0 else Some (ucast r))"
proof -
  have "val mod 232 = val" if "val < 232" for val :: u32 using that by (simp add: word_unat_eq_iff unat_mod word_less_nat_alt)
  then show ?thesis
    by (auto simp: getUnbiasedWord_def length_words Let_def not_le split: if_splits intro!: map_option_cong dest: redraw_less)
qed

lemma getUnbiasedWord_word: "getUnbiasedWord tb r = Some w \<Longrightarrow> w \<in> set words"
proof -
  have "words ! unat val \<in> set words" if "val < 232" for val :: u32
    using that by (intro nth_mem) (simp add: length_words word_less_nat_alt)
  then show "getUnbiasedWord tb r = Some w \<Longrightarrow> w \<in> set words"
    by (auto simp: getUnbiasedWord_eq not_le split: if_splits dest: redraw_less)
qed

text \<open>The choice is not biased: every word has exactly one acceptable byte.\<close>

lemma getUnbiasedWord_direct: "i < 232 \<Longrightarrow> getUnbiasedWord tb (of_nat i) = Some (words ! i)"
  by (simp add: getUnbiasedWord_eq word_le_nat_alt unat_of_nat unsigned_ucast_eq take_bit_nat_eq_self)

section \<open>The codes\<close>

definition code_of :: "string list \<Rightarrow> nat \<Rightarrow> string" where
  "code_of ws num = concat (map (\<lambda>w. w @ ''-'') ws) @ print_nat num"

lemma generateChannelCode_shape:
  assumes "generateChannelCode rnd tb = Some c"
  shows "\<exists>ws num. length ws = 5 \<and> set ws \<subseteq> set words \<and> num \<in> {100000..<1000000} \<and> c = code_of ws num"
proof -
  let ?b = "case rnd of None \<Rightarrow> replicate 12 0 | Some r \<Rightarrow> go_copy (replicate 12 0) 0 12 r"
  let ?n = "Uint32 (go_slice ?b 5 9) mod 900000 + 100000"
  obtain w1 w2 w3 w4 w5 where w: "getUnbiasedWord (tb 0) (?b ! 0) = Some w1" "getUnbiasedWord (tb 1) (?b ! 1) = Some w2"
    "getUnbiasedWord (tb 2) (?b ! 2) = Some w3" "getUnbiasedWord (tb 3) (?b ! 3) = Some w4"
    "getUnbiasedWord (tb 4) (?b ! 4) = Some w5"
    and c: "c = w1 @ ''-'' @ w2 @ ''-'' @ w3 @ ''-'' @ w4 @ ''-'' @ w5 @ ''-'' @ print_nat (unat ?n)"
    using assms unfolding generateChannelCode_def Let_def
    by (clarsimp split: option.splits [where option = "getUnbiasedWord _ _"])
  have "unat ?n = unat (Uint32 (go_slice ?b 5 9) :: u32) mod 900000 + 100000"
    by (subst unat_add_lem [THEN iffD1]) (simp_all add: unat_mod)
  then have "unat ?n \<in> {100000..<1000000}" by simp
  moreover have "set [w1, w2, w3, w4, w5] \<subseteq> set words" using w getUnbiasedWord_word by simp
  moreover have "c = code_of [w1, w2, w3, w4, w5] (unat ?n)" unfolding c by (simp add: code_of_def)
  ultimately show ?thesis by (intro exI [of _ "[w1, w2, w3, w4, w5]"] exI [of _ "unat ?n"]) simp
qed

lemma generateChannelCode_ends:
  assumes "list_all (\<lambda>w. \<exists>i. tb w i < 232) [0..<5]"
  shows "\<exists>c. generateChannelCode rnd tb = Some c"
proof -
  have "\<exists>v. getUnbiasedWord (tb w) r = Some v" if "w < 5" for w r
  proof -
    have "w \<in> set [0..<5]" using that by simp
    then obtain i where "tb w i < 232" using assms unfolding list_all_iff by blast
    then have "(ucast (tb w (0 + i)) :: u32) < 232"
      by (simp add: word_less_nat_alt unsigned_ucast_eq take_bit_nat_eq_self)
    from redraw_ends [of "tb w" 0 i, OF this] show ?thesis by (auto simp: getUnbiasedWord_eq)
  qed
  then obtain f where f: "getUnbiasedWord (tb w) r = Some (f w r)" if "w < 5" for w r by metis
  show ?thesis using f [of 0] f [of 1] f [of 2] f [of 3] f [of 4] by (simp add: generateChannelCode_def Let_def)
qed

text \<open>Every combination is generated: the first five bytes choose the words, the next four the number.\<close>

lemma getUnbiasedWord_index: "w \<in> set words \<Longrightarrow> \<exists>r. getUnbiasedWord tb r = Some w"
  using getUnbiasedWord_direct by (metis in_set_conv_nth length_words)

lemma generateChannelCode_onto:
  assumes "length ws = 5" and "set ws \<subseteq> set words" and "100000 \<le> num" and "num < 1000000"
  shows "\<exists>rnd. generateChannelCode rnd tb = Some (code_of ws num)"
proof -
  obtain w1 w2 w3 w4 w5 where ws: "ws = [w1, w2, w3, w4, w5]"
    using assms(1) by (auto simp: length_Suc_conv eval_nat_numeral)
  obtain r1 r2 r3 r4 r5 where r: "getUnbiasedWord (tb 0) r1 = Some w1" "getUnbiasedWord (tb 1) r2 = Some w2"
    "getUnbiasedWord (tb 2) r3 = Some w3" "getUnbiasedWord (tb 3) r4 = Some w4" "getUnbiasedWord (tb 4) r5 = Some w5"
    using assms(2) getUnbiasedWord_index unfolding ws by (metis insert_subset list.simps(15))
  define k where "k = num - 100000"
  let ?n = "of_nat k :: u32"
  let ?b = "[r1, r2, r3, r4, r5] @ PutUint32 ?n @ [0, 0, 0]"
  have b: "go_copy (replicate 12 0) 0 12 ?b = ?b" by (simp add: go_copy_def)
  have s: "Uint32 (go_slice ?b 5 9) = ?n" by (simp add: go_slice_def)
  have k: "k < 900000" "k + 100000 = num" using assms(3,4) by (auto simp: k_def)
  then have "unat (?n mod 900000) = k" by (simp add: unat_mod unat_of_nat_small)
  then have "unat (?n mod 900000 + 100000) = num"
    using k by (subst unat_add_lem [THEN iffD1]) simp_all
  then have "generateChannelCode (Some ?b) tb = Some (code_of ws num)"
    unfolding generateChannelCode_def Let_def option.case b s using r by (simp add: code_of_def ws)
  then show ?thesis by blast
qed

text \<open>Different choices give different codes.\<close>

lemma dash_cut:
  "CHR ''-'' \<notin> set v \<Longrightarrow> CHR ''-'' \<notin> set w \<Longrightarrow> v @ CHR ''-'' # x = w @ CHR ''-'' # y \<longleftrightarrow> v = w \<and> x = y"
proof (induction v arbitrary: w)
  case Nil
  then show ?case by (cases w) auto
next
  case (Cons a v)
  then show ?case by (cases w) auto
qed

lemma code_of_inj:
  "length vs = length ws \<Longrightarrow> list_all (\<lambda>w. CHR ''-'' \<notin> set w) (vs @ ws) \<Longrightarrow>
   code_of vs m = code_of ws n \<longleftrightarrow> vs = ws \<and> m = n"
proof (induction vs ws rule: list_induct2)
  case Nil
  have "print_nat m = print_nat n \<longleftrightarrow> m = n" by (metis parse_print_nat option.inject)
  then show ?case by (simp add: code_of_def)
next
  case (Cons v vs w ws)
  then show ?case by (simp add: code_of_def dash_cut)
qed

lemma words_plain: "list_all (\<lambda>w. CHR ''-'' \<notin> set w) words"
  by (simp add: words_def)

text \<open>The words are told apart by a number each.\<close>

definition word_key :: "string \<Rightarrow> int" where
  "word_key w = foldl (\<lambda>k c. 27 * k + of_char c) 0 w"

lemma distinct_words: "distinct words"
proof -
  have "distinct (map word_key words)" by (simp add: words_def word_key_def)
  then show ?thesis by (simp add: distinct_map)
qed

lemma card_words: "card (set words) = 232"
  using distinct_words by (simp add: distinct_card length_words)

text \<open>C35: generated codes are weaker than the program says. The codes it can generate are exactly those of
  five words of the list and a number of six digits; there are exactly \<open>232^5 * 900000\<close> of them, which
  is less than \<open>2^60\<close>. The program announces about 80 bits.\<close>

theorem channel_code_entropy:
  "{c. \<exists>rnd tb. generateChannelCode rnd tb = Some c}
     = {code_of ws num | ws num. length ws = 5 \<and> set ws \<subseteq> set words \<and> 100000 \<le> num \<and> num < 1000000}
   \<and> card {c. \<exists>rnd tb. generateChannelCode rnd tb = Some c} = 232 ^ 5 * 900000
   \<and> card {c. \<exists>rnd tb. generateChannelCode rnd tb = Some c} < 2 ^ 60"
proof -
  let ?codes = "{c. \<exists>rnd tb. generateChannelCode rnd tb = Some c}"
  let ?W = "{ws. set ws \<subseteq> set words \<and> length ws = 5}"
  let ?D = "?W \<times> {100000..<1000000 :: nat}"
  let ?C = "{code_of ws num | ws num. length ws = 5 \<and> set ws \<subseteq> set words \<and> 100000 \<le> num \<and> num < 1000000}"
  have set: "?codes = ?C"
    by (auto dest!: generateChannelCode_shape) (use generateChannelCode_onto in blast)+
  have "?C = (\<lambda>(ws, num). code_of ws num) ` ?D" by (auto simp: image_iff) metis
  moreover have "inj_on (\<lambda>(ws, num). code_of ws num) ?D"
  proof (rule inj_onI, clarify)
    fix vs m ws n
    assume "set vs \<subseteq> set words" "length vs = 5" "set ws \<subseteq> set words" "length ws = 5" "code_of vs m = code_of ws n"
    then show "vs = ws \<and> m = n"
      using words_plain code_of_inj [of vs ws m n] by (auto simp: list_all_iff)
  qed
  ultimately have "card ?C = card ?D" by (simp add: card_image)
  also have "\<dots> = 232 ^ 5 * 900000"
    by (simp add: card_cartesian_product card_lists_length_eq card_words)
  finally show ?thesis unfolding set by simp
qed

end
