(* ===== verification/Go_Flag.thy ===== *)
theory Go_Flag
  imports Go_Url
begin

text \<open>
  The package \<open>flag\<close> as the commands use it: a \<open>FlagSet\<close> with string, boolean and integer flags
  and \<open>ContinueOnError\<close>. A flag set gives for every flag name the variable it sets (two names may
  share one); the values of the variables are a function.
\<close>

datatype flag_val = FStr string | FBool bool | FInt int

type_synonym flag_set = "(string \<times> string) list"
type_synonym flag_env = "string \<Rightarrow> flag_val"

datatype flag_err = BadSyntax | NotDefined string | ErrHelp | NeedsArgument string | InvalidValue string

text \<open>The variables, read at their type.\<close>

definition str_of :: "flag_val \<Rightarrow> string" where
  "str_of v = (case v of FStr s \<Rightarrow> s | _ \<Rightarrow> '''')"

definition bool_of :: "flag_val \<Rightarrow> bool" where
  "bool_of v = (case v of FBool b \<Rightarrow> b | _ \<Rightarrow> False)"

definition int_of :: "flag_val \<Rightarrow> int" where
  "int_of v = (case v of FInt i \<Rightarrow> i | _ \<Rightarrow> 0)"

lemma flag_val_sel [simp]: "str_of (FStr s) = s" "bool_of (FBool b) = b" "int_of (FInt i) = i"
  by (simp_all add: str_of_def bool_of_def int_of_def)

section \<open>Values\<close>

definition ParseBool :: "string \<Rightarrow> bool option" where
  "ParseBool s =
     (if s \<in> {''1'', ''t'', ''T'', ''true'', ''TRUE'', ''True''} then Some True
      else if s \<in> {''0'', ''f'', ''F'', ''false'', ''FALSE'', ''False''} then Some False
      else None)"

text \<open>\<open>strconv.ParseInt(s, 0, 64)\<close>: a sign, a prefix for the base, digits with underscores between them.\<close>

definition base_prefix :: "string \<Rightarrow> nat \<times> string" where
  "base_prefix s =
     (if s \<noteq> [] \<and> hd s = CHR ''0'' then
        (if 3 \<le> length s \<and> lower_char (s ! 1) = CHR ''b'' then (2, drop 2 s)
         else if 3 \<le> length s \<and> lower_char (s ! 1) = CHR ''o'' then (8, drop 2 s)
         else if 3 \<le> length s \<and> lower_char (s ! 1) = CHR ''x'' then (16, drop 2 s)
         else (8, tl s))
      else (10, s))"

definition digit_any :: "char \<Rightarrow> nat option" where
  "digit_any c =
     (let n = (of_char c :: nat); l = (of_char (lower_char c) :: nat) in
      if 48 \<le> n \<and> n \<le> 57 then Some (n - 48)
      else if 97 \<le> l \<and> l \<le> 122 then Some (l - 87) else None)"

fun digits_value :: "nat \<Rightarrow> nat \<Rightarrow> string \<Rightarrow> nat option" where
  "digits_value base acc [] = Some acc"
| "digits_value base acc (c # cs) =
     (if c = CHR ''_'' then digits_value base acc cs
      else case digit_any c of
             None \<Rightarrow> None
           | Some d \<Rightarrow> if base \<le> d then None else digits_value base (acc * base + d) cs)"

text \<open>\<open>underscoreOK\<close>: what was seen last is a digit, an underscore, something else or nothing.\<close>

datatype saw = SawStart | SawDigit | SawUnderscore | SawOther

fun underscores :: "bool \<Rightarrow> saw \<Rightarrow> string \<Rightarrow> bool" where
  "underscores hex saw [] = (saw \<noteq> SawUnderscore)"
| "underscores hex saw (c # cs) =
     (if digit c \<noteq> None \<or> hex \<and> lower_char c \<in> set ''abcdef'' then underscores hex SawDigit cs
      else if c = CHR ''_'' then saw = SawDigit \<and> underscores hex SawUnderscore cs
      else saw \<noteq> SawUnderscore \<and> underscores hex SawOther cs)"

definition underscoreOK :: "string \<Rightarrow> bool" where
  "underscoreOK s =
     (if 2 \<le> length s \<and> hd s = CHR ''0'' \<and> lower_char (s ! 1) \<in> set ''box''
      then underscores (lower_char (s ! 1) = CHR ''x'') SawDigit (drop 2 s)
      else underscores False SawStart s)"

definition ParseInt :: "string \<Rightarrow> int option" where
  "ParseInt s =
     (let neg = (s \<noteq> [] \<and> hd s = CHR ''-'');
          u = (if s \<noteq> [] \<and> hd s \<in> set ''+-'' then tl s else s);
          (base, ds) = base_prefix u
      in if u = [] then None
         else case digits_value base 0 ds of
                None \<Rightarrow> None
              | Some n \<Rightarrow>
                  if CHR ''_'' \<in> set ds \<and> \<not> underscoreOK u then None
                  else if neg then (if n \<le> 2 ^ 63 then Some (- int n) else None)
                  else (if n < 2 ^ 63 then Some (int n) else None))"

text \<open>\<open>Set\<close> of a flag value, by the type of the variable.\<close>

definition set_value :: "flag_val \<Rightarrow> string \<Rightarrow> flag_val option" where
  "set_value old s =
     (case old of
        FStr _ \<Rightarrow> Some (FStr s)
      | FBool _ \<Rightarrow> map_option FBool (ParseBool s)
      | FInt _ \<Rightarrow> map_option FInt (ParseInt s))"

section \<open>Parsing the arguments\<close>

definition flag_name :: "string \<Rightarrow> string" where
  "flag_name s = (if s ! 1 = CHR ''-'' then drop 2 s else drop 1 s)"

definition split_value :: "string \<Rightarrow> string \<times> string option" where
  "split_value name = (case Cut name ''='' of None \<Rightarrow> (name, None) | Some (n, v) \<Rightarrow> (n, Some v))"

text \<open>Values of the same type.\<close>

definition same_type :: "flag_val \<Rightarrow> flag_val \<Rightarrow> bool" where
  "same_type a b \<longleftrightarrow>
     (case (a, b) of (FStr _, FStr _) \<Rightarrow> True | (FBool _, FBool _) \<Rightarrow> True | (FInt _, FInt _) \<Rightarrow> True | _ \<Rightarrow> False)"

lemma same_type_refl [simp]: "same_type a a"
  by (simp add: same_type_def split: flag_val.split)

lemma same_type_trans: "same_type a b \<Longrightarrow> same_type b c \<Longrightarrow> same_type a c"
  by (auto simp: same_type_def split: flag_val.splits)

lemma set_value_type: "set_value old s = Some y \<Longrightarrow> same_type old y"
  by (auto simp: set_value_def same_type_def split: flag_val.splits)

text \<open>\<open>parseOne\<close>: the flags end here, an error, or a flag was seen.\<close>

datatype parse_step = PDone "string list" | PErr flag_err | PSeen flag_env "string list"

definition set_step :: "string \<Rightarrow> string \<Rightarrow> flag_env \<Rightarrow> string \<Rightarrow> string list \<Rightarrow> parse_step" where
  "set_step name var v x args =
     (case set_value (v var) x of None \<Rightarrow> PErr (InvalidValue name) | Some y \<Rightarrow> PSeen (v(var := y)) args)"

definition parseOne :: "flag_set \<Rightarrow> flag_env \<Rightarrow> string list \<Rightarrow> parse_step" where
  "parseOne fs v args =
     (case args of
        [] \<Rightarrow> PDone []
      | s # args \<Rightarrow>
          if length s < 2 \<or> hd s \<noteq> CHR ''-'' then PDone (s # args)
          else if s = ''--'' then PDone args
          else if flag_name s = [] \<or> hd (flag_name s) = CHR ''-'' \<or> hd (flag_name s) = CHR ''='' then PErr BadSyntax
          else
            let (name, val) = split_value (flag_name s) in
            case map_of fs name of
              None \<Rightarrow> PErr (if name = ''help'' \<or> name = ''h'' then ErrHelp else NotDefined name)
            | Some var \<Rightarrow>
                (case val of
                   Some x \<Rightarrow> set_step name var v x args
                 | None \<Rightarrow>
                     (case v var of
                        FBool _ \<Rightarrow> PSeen (v(var := FBool True)) args
                      | _ \<Rightarrow>
                          (case args of
                             [] \<Rightarrow> PErr (NeedsArgument name)
                           | x # args \<Rightarrow> set_step name var v x args))))"

lemma set_step_Seen: "set_step name var v x args = PSeen v' args' \<Longrightarrow> args' = args \<and> (\<exists>y. v' = v(var := y) \<and> same_type (v var) y)"
  using set_value_type [of "v var" x] by (auto simp: set_step_def split: option.splits)

lemma parseOne_Seen:
  assumes "parseOne fs v args = PSeen v' args'"
  shows "length args' < length args \<and> (\<exists>var y. v' = v(var := y) \<and> same_type (v var) y)"
proof -
  obtain s as where args: "args = s # as" using assms by (auto simp: parseOne_def split: list.splits)
  obtain name val where nv: "split_value (flag_name s) = (name, val)" by fastforce
  obtain var where var: "map_of fs name = Some var"
    using assms by (auto simp: parseOne_def args nv split: if_splits option.splits)
  show ?thesis
  proof (cases val)
    case (Some x)
    then have "set_step name var v x as = PSeen v' args'"
      using assms by (simp add: parseOne_def args nv var split: if_splits)
    from set_step_Seen [OF this] show ?thesis unfolding args by (metis length_Cons lessI)
  next
    case None
    show ?thesis
    proof (cases "v var")
      case (FBool b)
      then have "v' = v(var := FBool True) \<and> args' = as" "same_type (v var) (FBool True)"
        using assms None by (auto simp: parseOne_def args nv var same_type_def split: if_splits)
      then show ?thesis unfolding args by (metis length_Cons lessI)
    next
      case (FStr t)
      then obtain x as' where "as = x # as'" "set_step name var v x as' = PSeen v' args'"
        using assms None by (auto simp: parseOne_def args nv var split: if_splits list.splits)
      then show ?thesis unfolding args using set_step_Seen [of name var v x as' v' args'] by (metis length_Cons less_SucI lessI)
    next
      case (FInt i)
      then obtain x as' where "as = x # as'" "set_step name var v x as' = PSeen v' args'"
        using assms None by (auto simp: parseOne_def args nv var split: if_splits list.splits)
      then show ?thesis unfolding args using set_step_Seen [of name var v x as' v' args'] by (metis length_Cons less_SucI lessI)
    qed
  qed
qed

function flag_parse :: "flag_set \<Rightarrow> flag_env \<Rightarrow> string list \<Rightarrow> flag_err + flag_env \<times> string list" where
  "flag_parse fs v args =
     (case parseOne fs v args of
        PDone rest \<Rightarrow> Inr (v, rest)
      | PErr e \<Rightarrow> Inl e
      | PSeen v' args' \<Rightarrow> flag_parse fs v' args')"
  by pat_completeness auto
termination
  by (relation "measure (\<lambda>(_, _, args). length args)") (auto dest: parseOne_Seen)

declare flag_parse.simps [simp del]

text \<open>The types of the variables never change, so reading them at their type is right.\<close>

lemma flag_parse_types: "flag_parse fs v args = Inr (v', rest) \<Longrightarrow> same_type (v x) (v' x)"
proof (induction fs v args arbitrary: v' rest rule: flag_parse.induct)
  case (1 fs v args)
  show ?case
  proof (cases "parseOne fs v args")
    case (PSeen v1 args1)
    then have "same_type (v1 x) (v' x)" using "1.prems" "1.IH" by (subst (asm) flag_parse.simps) simp
    moreover have "same_type (v x) (v1 x)" using parseOne_Seen [OF PSeen] by auto
    ultimately show ?thesis by (rule same_type_trans [rotated])
  qed (use "1.prems" in \<open>simp_all add: flag_parse.simps [of fs v args]\<close>)
qed

text \<open>An argument that is not a flag ends the flags.\<close>

lemma flag_parse_Nil [simp]: "flag_parse fs v [] = Inr (v, [])"
  by (simp add: flag_parse.simps parseOne_def)

lemma flag_parse_positional:
  "length s < 2 \<or> hd s \<noteq> CHR ''-'' \<Longrightarrow> flag_parse fs v (s # args) = Inr (v, s # args)"
  by (simp add: flag_parse.simps parseOne_def)

end
