(* ===== verification/Cli_Util.thy ===== *)
theory Cli_Util
  imports Invite Relay_List Channel_Code Go_Flag
begin

text \<open>
  The helpers of \<open>main.go\<close>: where the passphrase and the relay come from, masking a secret for the
  terminal, and sizes with units.
\<close>

section \<open>Passphrase and relay\<close>

text \<open>The arguments are the flag aliases, \<open>None\<close> for those the command does not have.\<close>

definition parsePassphrase :: "(string \<Rightarrow> string) \<Rightarrow> string option list \<Rightarrow> string" where
  "parsePassphrase getenv ps =
     (case find (\<lambda>p. p \<noteq> None \<and> p \<noteq> Some '''') ps of
        Some (Some p) \<Rightarrow> p
      | _ \<Rightarrow> getenv ''ZEROFEED_PASSPHRASE'')"

datatype resolve_err = ErrNoRelay | ErrUnreachable relay_err

definition resolveRelayAddr ::
    "net_env \<Rightarrow> (string \<Rightarrow> string list option) \<Rightarrow> string \<Rightarrow> string \<Rightarrow> (resolve_err + string) \<times> conn list" where
  "resolveRelayAddr N lookupHost r1 r2 =
     (let raw = r2;
          raw = (if raw = '''' then r1 else raw);
          raw = (if raw = '''' then ne_getenv N ''ZEROFEED_RELAY'' else raw);
          list = (if raw = '''' then ResolveDefaultRelays lookupHost else ParseRelayList raw)
      in if raw = '''' \<and> length list = 0 then (Inl ErrNoRelay, [])
         else case ProbeFirstAvailable N list of
                (Inl e, cs) \<Rightarrow> (Inl (ErrUnreachable e), cs)
              | (Inr addr, cs) \<Rightarrow> (Inr addr, cs))"

text \<open>The relay that is used is the first one of the list that answers: the list of \<open>-r\<close> if it is given, else
  that of \<open>--relay\<close>, else that of \<open>ZEROFEED_RELAY\<close>, else the addresses of the default name
  followed by the fixed public address. The connections of the probe are closed again.\<close>

lemma resolve_first_reachable:
  "(fst (resolveRelayAddr N lookupHost r1 r2) = Inr a \<longleftrightarrow>
      first_reachable N (if r2 \<noteq> '''' then ParseRelayList r2 else if r1 \<noteq> '''' then ParseRelayList r1
        else if ne_getenv N ''ZEROFEED_RELAY'' \<noteq> '''' then ParseRelayList (ne_getenv N ''ZEROFEED_RELAY'')
        else ResolveDefaultRelays lookupHost) a)
   \<and> list_all cn_closed (snd (resolveRelayAddr N lookupHost r1 r2))"
proof -
  have "fst (case x of (Inl e, cs) \<Rightarrow> (Inl (ErrUnreachable e), cs) | (Inr addr, cs) \<Rightarrow> (Inr addr, cs)) = Inr a \<longleftrightarrow> fst x = Inr a"
    and "snd (case x of (Inl e, cs) \<Rightarrow> (Inl (ErrUnreachable e), cs) | (Inr addr, cs) \<Rightarrow> (Inr addr, cs)) = snd x" for x :: "(relay_err + string) \<times> conn list"
    by (auto split: prod.split sum.split)
  then show ?thesis
    using Probe_iff Probe_closes ResolveDefaultRelays_ne [of lookupHost] by (simp add: resolveRelayAddr_def Let_def)
qed

section \<open>Masking\<close>

text \<open>\<open>[]rune(s)\<close>, each rune as the bytes \<open>string(r)\<close> gives it: invalid bytes become the replacement character.\<close>

function runes :: "bytes \<Rightarrow> bytes list" where
  "runes s =
     (if s = [] then []
      else (case rune_len s of None \<Rightarrow> replacement | Some n \<Rightarrow> take n s) # runes (drop (rune_size s) s))"
  by pat_completeness auto
termination
  by (relation "measure length") (auto simp: rune_size_pos)

declare runes.simps [simp del]

definition maskSecret :: "string \<Rightarrow> string" where
  "maskSecret s =
     (if s = '''' then ''''
      else
        let r = runes (bytes_of s) in
        if length r \<le> 4 then replicate (length r) (CHR ''*'')
        else string_of (concat (take 2 r)) @ replicate (length r - 4) (CHR ''*'')
             @ string_of (concat (drop (length r - 2) r)))"

lemma runes_ascii: "list_all (\<lambda>b. b < 0x80) s \<Longrightarrow> runes s = map (\<lambda>b. [b]) s"
proof (induction s)
  case (Cons b s)
  then have "rune_len (b # s) = Some 1" by (simp add: rune_len.simps)
  then show ?case using Cons by (subst runes.simps) (simp add: rune_size_def)
qed (simp add: runes.simps)

lemma runes_Nil_iff [simp]: "runes s = [] \<longleftrightarrow> s = []"
  by (subst runes.simps) simp

text \<open>Of a secret only its length in runes and its first and last two runes can be seen.\<close>

lemma maskSecret_hides:
  assumes "runes (bytes_of s) = a # b # m @ [y, z]" "runes (bytes_of t) = a # b # m' @ [y, z]" "length m = length m'"
  shows "maskSecret s = maskSecret t"
proof -
  have "s \<noteq> ''''" "t \<noteq> ''''" using assms(1,2) by (auto simp: bytes_of_def runes.simps)
  then show ?thesis using assms by (simp add: maskSecret_def Let_def)
qed

lemma maskSecret_short: "length (runes (bytes_of s)) \<le> 4 \<Longrightarrow> set (maskSecret s) \<subseteq> {CHR ''*''}"
  by (auto simp: maskSecret_def Let_def)

section \<open>Sizes\<close>

definition upper_char :: "char \<Rightarrow> char" where
  "upper_char c = (if 97 \<le> (of_char c :: nat) \<and> (of_char c :: nat) \<le> 122 then char_of (of_char c - 32 :: nat) else c)"

definition ToUpper :: "string \<Rightarrow> string" where
  "ToUpper s = map upper_char s"

definition TrimSuffix :: "string \<Rightarrow> string \<Rightarrow> string" where
  "TrimSuffix s suf = (if HasSuffix s suf then take (length s - length suf) s else s)"

text \<open>
  \<open>fmt.Sscanf(s, "%d", &val)\<close> for an unsigned variable that is 0: the digits at the start; without
  digits or above \<open>2^64\<close> it fails and the variable stays.
\<close>

definition scan_uint :: "string \<Rightarrow> u64" where
  "scan_uint s =
     (let ds = takeWhile (\<lambda>c. digit c \<noteq> None) s in
      case parse_digits 0 ds of
        Some n \<Rightarrow> if ds \<noteq> [] \<and> n < 2 ^ 64 then of_nat n else 0
      | None \<Rightarrow> 0)"

definition parseByteSize :: "string \<Rightarrow> u64" where
  "parseByteSize s =
     (let s = TrimSpace (ToUpper s) in
      if s = '''' \<or> s = ''0'' then 0
      else
        let (mult, s) =
              (if HasSuffix s ''G'' \<or> HasSuffix s ''GB'' then
                 (1024 * 1024 * 1024, TrimSuffix (TrimSuffix s ''GB'') ''G'')
               else if HasSuffix s ''M'' \<or> HasSuffix s ''MB'' then
                 (1024 * 1024, TrimSuffix (TrimSuffix s ''MB'') ''M'')
               else if HasSuffix s ''K'' \<or> HasSuffix s ''KB'' then
                 (1024, TrimSuffix (TrimSuffix s ''KB'') ''K'')
               else (1, s))
        in scan_uint s * mult)"

text \<open>The units: their names and the powers of two they stand for.\<close>

definition size_units :: "(string \<times> nat) list" where
  "size_units = [('''', 0), (''K'', 10), (''KB'', 10), (''M'', 20), (''MB'', 20), (''G'', 30), (''GB'', 30),
     (''k'', 10), (''kb'', 10), (''m'', 20), (''mb'', 20), (''g'', 30), (''gb'', 30)]"

lemma digit_char: "digit c \<noteq> None \<longleftrightarrow> 48 \<le> (of_char c :: nat) \<and> (of_char c :: nat) \<le> 57"
  by (simp add: digit_def)

lemma print_nat_all_digits: "list_all (\<lambda>c. digit c \<noteq> None) (print_nat n)"
  using print_nat_digits [of _ n] digit_print by (fastforce simp: list_all_iff)

lemma HasSuffix_rev: "HasSuffix s p \<longleftrightarrow> prefix (rev p) (rev s)"
  by (simp add: HasSuffix_def suffix_to_prefix)

text \<open>What is left of a number with a unit.\<close>

lemma trim_unit:
  assumes "list_all (\<lambda>c. digit c \<noteq> None) d" "digit x = None" "x \<noteq> CHR ''B''"
  shows "TrimSuffix (TrimSuffix (d @ [x, CHR ''B'']) [x, CHR ''B'']) [x] = d" "TrimSuffix (TrimSuffix (d @ [x]) [x, CHR ''B'']) [x] = d"
proof -
  have "\<not> HasSuffix d [x]"
  proof
    assume "HasSuffix d [x]"
    then have "x \<in> set d" by (auto simp: HasSuffix_def suffix_def)
    then show False using assms by (auto simp: list_all_iff)
  qed
  then show "TrimSuffix (TrimSuffix (d @ [x, CHR ''B'']) [x, CHR ''B'']) [x] = d" "TrimSuffix (TrimSuffix (d @ [x]) [x, CHR ''B'']) [x] = d"
    using assms(3) by (simp_all add: TrimSuffix_def HasSuffix_rev)
qed

lemma scan_uint_number: "n < 2 ^ 64 \<Longrightarrow> scan_uint (print_nat n) = of_nat n"
proof -
  assume n: "n < 2 ^ 64"
  have "takeWhile (\<lambda>c. digit c \<noteq> None) (print_nat n) = print_nat n"
    using print_nat_all_digits [of n] by (simp add: takeWhile_eq_all_conv list_all_iff)
  moreover have "print_nat n \<noteq> []" by (subst print_nat.simps) simp
  ultimately show ?thesis using n unfolding scan_uint_def by (simp only: Let_def parse_print_nat option.case if_True simp_thms not_False_eq_True)
qed

lemma print_nat_ToUpper: "ToUpper (print_nat n) = print_nat n"
proof -
  have "upper_char c = c" if "digit c \<noteq> None" for c using that [unfolded digit_char] by (simp add: upper_char_def)
  then show ?thesis using print_nat_all_digits [of n] by (auto simp: ToUpper_def list_all_iff intro!: map_idI)
qed

lemma print_nat_visible: "list_all visible (print_nat n)"
proof -
  have "visible c" if "digit c \<noteq> None" for c using that [unfolded digit_char] by (simp add: visible_def)
  then show ?thesis using print_nat_all_digits [of n] by (auto simp: list_all_iff)
qed

lemma print_nat_not_suffix:
  assumes "digit x = None"
  shows "\<not> HasSuffix (print_nat n) (w @ [x])"
proof
  assume "HasSuffix (print_nat n) (w @ [x])"
  then have "x \<in> set (print_nat n)" by (auto simp: HasSuffix_def suffix_def)
  then show False using print_nat_all_digits [of n] assms by (auto simp: list_all_iff)
qed

lemma print_nat_zero: "print_nat n = ''0'' \<Longrightarrow> n = 0"
  using parse_print_nat [of n] by (auto simp: digit_def)

lemma print_nat_unit: "print_nat n @ x # w \<noteq> ''0''"
proof -
  have "print_nat n \<noteq> []" by (subst print_nat.simps) simp
  then show ?thesis by (cases "print_nat n") auto
qed

text \<open>The three units; the number before them is what is scanned.\<close>

lemma parseByteSize_unit:
  assumes "n < 2 ^ 64" "TrimSpace (ToUpper s) = print_nat n @ w"
  shows "w = '''' \<Longrightarrow> parseByteSize s = of_nat n"
    "w \<in> {''K'', ''KB''} \<Longrightarrow> parseByteSize s = of_nat n * 1024"
    "w \<in> {''M'', ''MB''} \<Longrightarrow> parseByteSize s = of_nat n * (1024 * 1024)"
    "w \<in> {''G'', ''GB''} \<Longrightarrow> parseByteSize s = of_nat n * (1024 * 1024 * 1024)"
proof -
  note n = scan_uint_number [OF assms(1)]
  have ne: "print_nat n \<noteq> []" by (subst print_nat.simps) simp
  have dg: "digit (CHR ''K'') = None" "digit (CHR ''M'') = None" "digit (CHR ''G'') = None" "digit (CHR ''B'') = None"
    by (simp_all add: digit_def)
  note tr = trim_unit [OF print_nat_all_digits, of _ n]
  note ns = print_nat_not_suffix [of _ n, of _ "[]", simplified] print_nat_not_suffix [of _ n, of _ "[_]", simplified]
  show "parseByteSize s = of_nat n" if "w = ''''"
  proof (cases "n = 0")
    case True
    have "print_nat 0 = ''0''" by code_simp
    then show ?thesis using assms(2) that True by (simp add: parseByteSize_def)
  next
    case False
    then have "print_nat n \<noteq> ''0''" using print_nat_zero by auto
    then show ?thesis using assms(2) that ne dg ns n by (simp add: parseByteSize_def)
  qed
  show "parseByteSize s = of_nat n * 1024" if "w \<in> {''K'', ''KB''}"
    using that assms(2) tr [OF dg(1)] n
    by (elim insertE emptyE) (simp_all add: parseByteSize_def HasSuffix_rev print_nat_unit)
  show "parseByteSize s = of_nat n * (1024 * 1024)" if "w \<in> {''M'', ''MB''}"
    using that assms(2) tr [OF dg(2)] n
    by (elim insertE emptyE) (simp_all add: parseByteSize_def HasSuffix_rev print_nat_unit)
  show "parseByteSize s = of_nat n * (1024 * 1024 * 1024)" if "w \<in> {''G'', ''GB''}"
    using that assms(2) tr [OF dg(3)] n
    by (elim insertE emptyE) (simp_all add: parseByteSize_def HasSuffix_rev print_nat_unit)
qed

text \<open>Sizes with units. A decimal number below \<open>2^64\<close> with one of the units gives that many bytes, modulo \<open>2^64\<close>:
  there is no check against overflow.\<close>

lemma parseByteSize_units:
  assumes "n < 2 ^ 64" "(u, e) \<in> set size_units"
  shows "parseByteSize (print_nat n @ u) = of_nat (n * 2 ^ e)"
proof -
  have "list_all (\<lambda>(u, e). list_all visible (ToUpper u) \<and> (ToUpper u, e) \<in> set [('''', 0), (''K'', 10), (''KB'', 10), (''M'', 20),
      (''MB'', 20), (''G'', 30), (''GB'', 30)]) size_units" by code_simp
  then have u: "list_all visible (ToUpper u)" "(ToUpper u, e) \<in> set [('''', 0), (''K'', 10), (''KB'', 10), (''M'', 20),
      (''MB'', 20), (''G'', 30), (''GB'', 30)]" using assms(2) unfolding list_all_iff by (blast, blast)
  have s: "TrimSpace (ToUpper (print_nat n @ u)) = print_nat n @ ToUpper u"
  proof -
    have "list_all visible (print_nat n @ ToUpper u)" using print_nat_visible u(1) by simp
    moreover have "ToUpper (print_nat n @ u) = print_nat n @ ToUpper u" using print_nat_ToUpper [of n] by (simp add: ToUpper_def)
    ultimately show ?thesis using TrimSpace_all_visible by simp
  qed
  from u(2)
  consider "ToUpper u = ''''" "e = 0" | "ToUpper u \<in> {''K'', ''KB''}" "e = 10" | "ToUpper u \<in> {''M'', ''MB''}" "e = 20"
    | "ToUpper u \<in> {''G'', ''GB''}" "e = 30" by (simp del: list.inject) blast
  then show ?thesis
  proof cases
    case 1
    then show ?thesis using parseByteSize_unit(1) [OF assms(1) s] by simp
  next
    case 2
    from parseByteSize_unit(2) [OF assms(1) s this(1)] show ?thesis unfolding 2(2) by simp
  next
    case 3
    from parseByteSize_unit(3) [OF assms(1) s this(1)] show ?thesis unfolding 3(2) by simp
  next
    case 4
    from parseByteSize_unit(4) [OF assms(1) s this(1)] show ?thesis unfolding 4(2) by simp
  qed
qed

end
