(* ===== verification/Logger.thy ===== *)
theory Logger
  imports Go_Strings
begin

text \<open>
  \<open>pkg/logger/logger.go\<close>: the global logger. Its state has the variables of the package and what was
  written to the process's standard error; of a record only its level and message are kept. The
  handlers of \<open>log/slog\<close> drop records below their level.
\<close>

definition FormatText :: string where "FormatText = ''text''"
definition FormatJSON :: string where "FormatJSON = ''json''"

text \<open>The levels of \<open>log/slog\<close>.\<close>

definition LevelDebug :: int where "LevelDebug = - 4"
definition LevelInfo :: int where "LevelInfo = 0"
definition LevelWarn :: int where "LevelWarn = 4"
definition LevelError :: int where "LevelError = 8"

datatype log_writer = LogStderr | LogDiscard

record logger =
  lg_currentFmt :: string
  lg_currentLvl :: int
  lg_outputWriter :: log_writer
  lg_written :: "(int \<times> string) list"

definition initial_logger :: logger where
  "initial_logger = \<lparr>lg_currentFmt = FormatText, lg_currentLvl = LevelInfo, lg_outputWriter = LogStderr, lg_written = []\<rparr>"

definition parseLevel :: "string \<Rightarrow> int" where
  "parseLevel levelStr =
     (let l = ToLower (TrimSpace levelStr) in
      if l = ''debug'' then LevelDebug
      else if l = ''warn'' \<or> l = ''warning'' then LevelWarn
      else if l = ''error'' then LevelError
      else LevelInfo)"

text \<open>The writer is \<open>None\<close> for nil.\<close>

definition InitWithWriter :: "string \<Rightarrow> string \<Rightarrow> log_writer option \<Rightarrow> logger \<Rightarrow> logger" where
  "InitWithWriter formatStr levelStr w lg =
     (let w = (case w of None \<Rightarrow> LogStderr | Some w \<Rightarrow> w);
          level = parseLevel levelStr;
          format = ToLower (TrimSpace formatStr);
          format = (if format \<noteq> FormatJSON then FormatText else format)
      in lg\<lparr>lg_outputWriter := w, lg_currentLvl := level, lg_currentFmt := format\<rparr>)"

definition Init :: "string \<Rightarrow> string \<Rightarrow> logger \<Rightarrow> logger" where
  "Init formatStr levelStr lg = InitWithWriter formatStr levelStr (Some LogStderr) lg"

definition Format :: "logger \<Rightarrow> string" where
  "Format lg = lg_currentFmt lg"

definition Level :: "logger \<Rightarrow> int" where
  "Level lg = lg_currentLvl lg"

text \<open>A record handed to the current logger.\<close>

definition log_record :: "int \<Rightarrow> string \<Rightarrow> logger \<Rightarrow> logger" where
  "log_record level msg lg =
     (if lg_currentLvl lg \<le> level \<and> lg_outputWriter lg = LogStderr then lg\<lparr>lg_written := lg_written lg @ [(level, msg)]\<rparr>
      else lg)"

definition Debug :: "string \<Rightarrow> logger \<Rightarrow> logger" where "Debug = log_record LevelDebug"
definition Info :: "string \<Rightarrow> logger \<Rightarrow> logger" where "Info = log_record LevelInfo"
definition Warn :: "string \<Rightarrow> logger \<Rightarrow> logger" where "Warn = log_record LevelWarn"
definition Error :: "string \<Rightarrow> logger \<Rightarrow> logger" where "Error = log_record LevelError"

text \<open>Whatever is configured, the format is one of the two and the level one of the four.\<close>

lemma InitWithWriter_valid:
  "Format (InitWithWriter f l w lg) \<in> {FormatText, FormatJSON}"
  "Level (InitWithWriter f l w lg) \<in> {LevelDebug, LevelInfo, LevelWarn, LevelError}"
  by (simp_all add: InitWithWriter_def Format_def Level_def parseLevel_def Let_def)

text \<open>A discarding logger writes nothing.\<close>

lemma discard_silent: "lg_outputWriter lg = LogDiscard \<Longrightarrow> log_record l msg lg = lg"
  by (simp add: log_record_def)

lemma log_records_filtered:
  "lg_outputWriter lg = LogStderr \<Longrightarrow>
   lg_written (fold (\<lambda>(l, m). log_record l m) rs lg) = lg_written lg @ filter (\<lambda>(l, m). lg_currentLvl lg \<le> l) rs"
  by (induction rs arbitrary: lg) (auto simp: log_record_def)

end
