(* ===== verification/Cli.thy ===== *)
theory Cli
  imports Cli_Util Logger Subscriber Relay_Server
begin

text \<open>
  The commands of \<open>main.go\<close>. The process is a record: its memory registry, its logger and what was
  written to standard error and output, one entry per call. What the outside world answers is the
  record \<open>cli_env\<close>: network and environment variables, resolver, random draws, the clock, the
  files, standard input, and \<open>time.ParseDuration\<close> with \<open>Duration.String\<close> (the former computes with
  floating-point numbers). The texts of errors, and the usage texts the flag package prints with
  them, are left out. A result \<open>None\<close> means that the command does not return, which only the
  drawing of a code can do.
\<close>

section \<open>The process and its world\<close>

record proc =
  ps_mem :: mstate
  ps_log :: logger
  ps_stderr :: "string list"
  ps_stdout :: "string list"

datatype cli_event = EvDone | EvTicker | EvRead bytes | EvEOF

record cli_env =
  ce_net :: net_env
  ce_lookup :: "string \<Rightarrow> string list option"
  ce_prims :: prims
  ce_code :: "bytes option \<times> (nat \<Rightarrow> nat \<Rightarrow> byte)"
  ce_now :: time
  ce_new :: pake_rnd
  ce_master :: "bytes option"
  ce_connect :: pake_rnd
  ce_hs :: hs_rnd
  ce_ParseDuration :: "string \<Rightarrow> time option"
  ce_durText :: "time \<Rightarrow> string"
  ce_file :: "string \<Rightarrow> file_src option"
  ce_sendRnd :: "(nat \<Rightarrow> time \<times> bytes option) \<times> (nat \<Rightarrow> ack_select) \<times> bytes option"
  ce_terminal :: bool
  ce_events :: "(time \<times> bytes option \<times> cli_event) list"
  ce_iterations :: "iteration list"
  ce_stream :: sstream
  ce_version :: string

datatype cli_err =
    CeFlag flag_err
  | CeResolve resolve_err
  | CeTTL
  | CeFeed feed_err
  | CeConnect feed_err
  | CeHandshake feed_err
  | CeSend feed_err
  | CeNoPassphrase
  | CeUsage
  | CeNoSubcommand
  | CeUnknown string

definition logStderr :: "bool \<Rightarrow> string list \<Rightarrow> proc \<Rightarrow> proc" where
  "logStderr quiet ls ps = (if quiet then ps else ps\<lparr>ps_stderr := ps_stderr ps @ ls\<rparr>)"

text \<open>A new array with the given bytes.\<close>

definition new_slice :: "bytes \<Rightarrow> mstate \<Rightarrow> mslice \<times> mstate" where
  "new_slice bs st =
     (\<lparr>ms_arr = length (mz_mem st), ms_off = 0, ms_len = length bs, ms_cap = length bs\<rparr>, st\<lparr>mz_mem := mz_mem st @ [bs]\<rparr>)"

definition init_logger :: "bool \<Rightarrow> flag_env \<Rightarrow> logger \<Rightarrow> logger" where
  "init_logger quiet v lg =
     (if quiet then InitWithWriter (str_of (v ''logFormat'')) ''error'' (Some LogDiscard) lg
      else Init (str_of (v ''logFormat'')) (str_of (v ''logLevel'')) lg)"

definition rule_line :: string where
  "rule_line = ''===================================================='' @ newline"

definition show_bool :: "bool \<Rightarrow> string" where
  "show_bool b = (if b then ''true'' else ''false'')"

definition badge_line :: "bytes \<Rightarrow> string \<Rightarrow> string" where
  "badge_line emoji fp =
     ''    '' @ map char_of [0xF0, 0x9F, 0x9B, 0xA1, 0xEF, 0xB8, 0x8F :: nat] @ '' SAS Verification Badge: ''
     @ string_of emoji @ '' ['' @ fp @ '']'' @ newline"

definition mode_name :: "bool \<Rightarrow> string" where
  "mode_name quic = (if quic then ''QUIC (UDP)'' else ''TCP'')"

section \<open>publish\<close>

definition publish_flags :: flag_set where
  "publish_flags =
     [(''passphrase'', ''p1''), (''p'', ''p2''), (''c'', ''p3''), (''code'', ''p4''), (''channel'', ''p5''),
      (''relay'', ''r1''), (''r'', ''r2''), (''stream'', ''streamMode''), (''s'', ''streamMode''), (''ttl'', ''ttlStr''),
      (''quiet'', ''quiet''), (''q'', ''quiet''), (''file'', ''f1''), (''f'', ''f2''), (''quic'', ''quicMode''),
      (''fingerprint'', ''fingerprint''), (''rekey-bytes'', ''rekeyBytesStr''), (''rekey-time'', ''rekeyTimeStr''),
      (''log-format'', ''logFormat''), (''log-level'', ''logLevel'')]"

definition publish_defaults :: flag_env where
  "publish_defaults =
     (\<lambda>_. FStr '''')(''streamMode'' := FBool False, ''ttlStr'' := FStr ''5m'', ''quiet'' := FBool False,
       ''quicMode'' := FBool False, ''rekeyBytesStr'' := FStr ''1G'', ''rekeyTimeStr'' := FStr ''1h'',
       ''logFormat'' := FStr ''text'', ''logLevel'' := FStr ''info'')"

definition flag_passphrase :: "cli_env \<Rightarrow> flag_env \<Rightarrow> string" where
  "flag_passphrase E v =
     parsePassphrase (ne_getenv (ce_net E)) (map (\<lambda>p. Some (str_of (v p))) [''p1'', ''p2'', ''p3'', ''p4'', ''p5''])"

text \<open>The code, and whether it was generated.\<close>

definition publish_code :: "cli_env \<Rightarrow> flag_env \<Rightarrow> (bool \<times> string) option" where
  "publish_code E v =
     (let passVal = flag_passphrase E v in
      if passVal = '''' then map_option (Pair True) (generateChannelCode (fst (ce_code E)) (snd (ce_code E)))
      else Some (False, passVal))"

definition code_notice :: "bool \<Rightarrow> string \<Rightarrow> string list" where
  "code_notice generatedCode passVal =
     (if generatedCode then
        [newline @ ''[!] No --channel specified. Generated High-Entropy Channel Code (~80 bits):'' @ newline,
         ''    >>> '' @ passVal @ '' <<<'' @ newline @ newline]
      else if length passVal < 16 then
        [newline @ ''[!] WARNING: Custom passphrase has lower entropy ('' @ print_nat (length passVal) @ '' chars).'' @ newline,
         ''    For maximum protection against active relay MITM attacks, use default 5-word generated codes.'' @ newline @ newline]
      else [])"

definition publish_banner :: "cli_env \<Rightarrow> bool \<Rightarrow> string \<Rightarrow> bytes \<Rightarrow> string \<Rightarrow> bool \<Rightarrow> time \<Rightarrow> bool \<Rightarrow> string list" where
  "publish_banner E generatedCode passVal sid relayAddr quicMode ttl streamMode =
     (let iv = GenerateInvite passVal relayAddr in
      [rule_line,
       '' [ZeroFeed Publisher] Active Session'' @ newline,
       (if generatedCode then '' Code / Passphrase : '' @ passVal @ newline
        else '' Code / Passphrase : '' @ maskSecret passVal @ '' (supplied)'' @ newline),
       '' Session ID        : '' @ hex_encode sid @ newline,
       '' Relay Server      : '' @ relayAddr @ newline,
       '' Transport Mode    : '' @ mode_name quicMode @ newline,
       '' Web Link          : '' @ ToWebURL iv @ newline,
       '' Native URI        : '' @ ToURI iv @ newline,
       '' Session TTL       : '' @ ce_durText E ttl @ newline,
       '' Stream Mode       : '' @ show_bool streamMode @ newline,
       rule_line])"

text \<open>The engine with the settings of the flags.\<close>

definition configure_publisher :: "cli_env \<Rightarrow> flag_env \<Rightarrow> publisher \<Rightarrow> publisher" where
  "configure_publisher E v p =
     (let rekeyByteLimit = parseByteSize (str_of (v ''rekeyBytesStr''));
          rekeyTimeLimit = (case ce_ParseDuration E (str_of (v ''rekeyTimeStr'')) of None \<Rightarrow> 0 | Some d \<Rightarrow> d);
          p = SetRekeyThresholds rekeyByteLimit rekeyTimeLimit p;
          p = (if str_of (v ''fingerprint'') \<noteq> '''' then Publisher_SetSPKIFingerprint (str_of (v ''fingerprint'')) p else p)
      in if bool_of (v ''quicMode'') then Publisher_SetTransportMode ModeQUIC p else p)"

record publish_cfg =
  pc_quiet :: bool
  pc_file :: string
  pc_stream :: bool
  pc_pass :: mslice

text \<open>\<open>runPublish\<close> up to the banner.\<close>

definition publish_setup :: "cli_env \<Rightarrow> string list \<Rightarrow> proc \<Rightarrow> ((cli_err + publish_cfg \<times> publisher) \<times> proc) option" where
  "publish_setup E args ps =
     (case flag_parse publish_flags publish_defaults args of
        Inl e \<Rightarrow> Some (Inl (CeFlag e), ps)
      | Inr (v, _) \<Rightarrow>
          let quiet = bool_of (v ''quiet'');
              ps = ps\<lparr>ps_log := init_logger quiet v (ps_log ps)\<rparr>
          in case publish_code E v of
               None \<Rightarrow> None
             | Some (generatedCode, passVal) \<Rightarrow>
                 let ps = logStderr quiet (code_notice generatedCode passVal) ps in
                 Some
                  (case fst (resolveRelayAddr (ce_net E) (ce_lookup E) (str_of (v ''r1'')) (str_of (v ''r2''))) of
                     Inl e \<Rightarrow> (Inl (CeResolve e), ps)
                   | Inr relayAddr \<Rightarrow>
                       let fileToSend = (if str_of (v ''f2'') \<noteq> '''' then str_of (v ''f2'') else str_of (v ''f1'')) in
                       case ce_ParseDuration E (str_of (v ''ttlStr'')) of
                         None \<Rightarrow> (Inl CeTTL, ps)
                       | Some ttl \<Rightarrow>
                           let (passBytes, mem) = new_slice (bytes_of passVal) (ps_mem ps);
                               mem = RegisterBuffer passBytes mem
                           in case NewPublisherEngine (ce_prims E) (ce_now E) (ce_new E) (ce_master E) 1 (bytes_of passVal) relayAddr mem of
                                (Inl e, mem) \<Rightarrow> (Inl (CeFeed e), ps\<lparr>ps_mem := mem_ZeroBytes passBytes mem\<rparr>)
                              | (Inr p, mem) \<Rightarrow>
                                  let p = configure_publisher E v p in
                                  (Inr (\<lparr>pc_quiet = quiet, pc_file = fileToSend, pc_stream = bool_of (v ''streamMode''), pc_pass = passBytes\<rparr>, p),
                                   logStderr quiet
                                     (publish_banner E generatedCode passVal (Publisher_SessionID p) relayAddr (bool_of (v ''quicMode'')) ttl
                                        (bool_of (v ''streamMode'')))
                                     (ps\<lparr>ps_mem := mem\<rparr>))))"

text \<open>Interactive lines that send a file.\<close>

definition file_command :: "string \<Rightarrow> string option" where
  "file_command line =
     (if HasPrefix line ''/send '' \<or> HasPrefix line ''/file '' then Some (TrimSpace (drop 6 line)) else None)"

definition check_mark :: string where
  "check_mark = map char_of [0xE2, 0x9C, 0x93 :: nat]"

definition sent_line :: "string \<Rightarrow> string" where
  "sent_line path = ''['' @ check_mark @ ''] File '' @ Base path @ '' transmitted successfully!'' @ newline"

definition sending_line :: "string \<Rightarrow> string" where
  "sending_line path = ''[!] Transmitting file: '' @ path @ ''...'' @ newline"

text \<open>A buffer read from standard input is registered and handed to the stream.\<close>

definition hand_over :: "bytes \<Rightarrow> proc \<Rightarrow> proc" where
  "hand_over b ps = (let (sl, mem) = new_slice b (ps_mem ps) in ps\<lparr>ps_mem := RegisterBuffer sl mem\<rparr>)"

text \<open>
  The goroutine that reads standard input together with the stream it feeds. Piped input is passed on
  in the pieces it is read in, empty reads are skipped; a line of a terminal is a file to send or
  a text.
\<close>

fun publish_events ::
    "cli_env \<Rightarrow> bool \<Rightarrow> (time \<times> bytes option \<times> cli_event) list \<Rightarrow> publisher \<times> proc
     \<Rightarrow> (feed_err + unit) option \<times> publisher \<times> proc" where
  "publish_events E quiet [] (p, ps) = (None, p, ps)"
| "publish_events E quiet ((now, rnd, ev) # evs) (p, ps) =
     (if ev = EvRead [] \<and> \<not> ce_terminal E then publish_events E quiet evs (p, ps)
      else case (case ev of EvRead b \<Rightarrow> if ce_terminal E then file_command (string_of b) else None | _ \<Rightarrow> None) of
        Some path \<Rightarrow>
          let (tm, ack, r) = ce_sendRnd E;
              (res, p) = SendFile tm ack r (ce_file E path) p
          in publish_events E quiet evs
               (p, logStderr quiet [sending_line path, case res of Inl _ \<Rightarrow> ''Error sending file '' @ path | Inr _ \<Rightarrow> sent_line path] ps)
      | None \<Rightarrow>
          let (sel, ps) =
                (case ev of
                   EvDone \<Rightarrow> (SelDone, ps)
                 | EvTicker \<Rightarrow> (SelTick, ps)
                 | EvEOF \<Rightarrow> (SelClosed, ps)
                 | EvRead b \<Rightarrow>
                     let b = (if ce_terminal E then TagText # b @ bytes_of newline else b)
                     in (SelInput b, hand_over b ps))
          in case PublishStream_step now rnd sel p of
               (None, p) \<Rightarrow> publish_events E quiet evs (p, ps)
             | (Some r, p) \<Rightarrow> (Some r, p, ps))"

text \<open>\<open>runPublish\<close> from the connection on; the passphrase is cleared when it returns.\<close>

definition publish_session :: "cli_env \<Rightarrow> publish_cfg \<Rightarrow> publisher \<Rightarrow> proc \<Rightarrow> (cli_err + unit) \<times> publisher \<times> proc" where
  "publish_session E cfg p ps =
     (let quiet = pc_quiet cfg;
          finish = (\<lambda>r p ps. (r, p, ps\<lparr>ps_mem := mem_ZeroBytes (pc_pass cfg) (ps_mem ps)\<rparr>))
      in case Publisher_Connect (ce_prims E) (ce_net E) (ce_connect E) p of
           (Inl e, p) \<Rightarrow> finish (Inl (CeConnect e)) p ps
         | (Inr _, p) \<Rightarrow>
             let ps = logStderr quiet [''Waiting for Subscriber connection...'' @ newline] ps in
             case Publisher_CompleteHandshake (ce_prims E) (ce_hs E) p of
               (Inl e, p) \<Rightarrow> finish (Inl (CeHandshake e)) p ps
             | (Inr _, p) \<Rightarrow>
                 let ps = logStderr quiet [''[+] Authenticated PAKE session established! E2EE stream ready.'' @ newline,
                            badge_line (pb_sasEmoji p) (pb_sasHex p)] ps
                 in if pc_file cfg \<noteq> '''' then
                      let ps = logStderr quiet [sending_line (pc_file cfg)] ps;
                          (tm, ack, r) = ce_sendRnd E
                      in case SendFile tm ack r (ce_file E (pc_file cfg)) p of
                           (Inl e, p) \<Rightarrow> finish (Inl (CeSend e)) p ps
                         | (Inr _, p) \<Rightarrow> finish (Inr ()) p (logStderr quiet [sent_line (pc_file cfg)] ps)
                    else
                      let ps = (if pc_file cfg = '''' \<and> \<not> pc_stream cfg \<and> ce_terminal E
                                then logStderr quiet [''[i] Reading payload from terminal (press Ctrl+D when finished, or type /file <path>)...'' @ newline] ps
                                else ps);
                          p = SetUntaggedInput (\<not> ce_terminal E) p;
                          (r, p, ps) = publish_events E quiet (ce_events E) (p, ps)
                      in finish (Inr ()) p
                           (case r of Some (Inl _) \<Rightarrow> logStderr quiet [''Publish stream closed''] ps | _ \<Rightarrow> ps))"

definition runPublish :: "cli_env \<Rightarrow> string list \<Rightarrow> proc \<Rightarrow> ((cli_err + unit) \<times> proc) option" where
  "runPublish E args ps =
     (case publish_setup E args ps of
        None \<Rightarrow> None
      | Some (Inl e, ps) \<Rightarrow> Some (Inl e, ps)
      | Some (Inr (cfg, p), ps) \<Rightarrow> (case publish_session E cfg p ps of (r, _, ps) \<Rightarrow> Some (r, ps)))"

section \<open>subscribe and join\<close>

definition subscribe_flags :: flag_set where
  "subscribe_flags =
     [(''passphrase'', ''p1''), (''p'', ''p2''), (''c'', ''p3''), (''code'', ''p4''), (''channel'', ''p5''),
      (''relay'', ''r1''), (''r'', ''r2''), (''stream'', ''streamMode''), (''s'', ''streamMode''), (''quiet'', ''quiet''),
      (''q'', ''quiet''), (''quic'', ''quicMode''), (''fingerprint'', ''fingerprint''), (''log-format'', ''logFormat''),
      (''log-level'', ''logLevel'')]"

definition subscribe_defaults :: flag_env where
  "subscribe_defaults =
     (\<lambda>_. FStr '''')(''streamMode'' := FBool False, ''quiet'' := FBool False, ''quicMode'' := FBool False,
       ''logFormat'' := FStr ''text'', ''logLevel'' := FStr ''info'')"

text \<open>What the passphrase argument stands for: code, relay, transport and fingerprint.\<close>

definition subscribe_target :: "cli_env \<Rightarrow> flag_env \<Rightarrow> string \<Rightarrow> cli_err + string \<times> string \<times> bool \<times> string" where
  "subscribe_target E v passVal =
     (let r1 = str_of (v ''r1''); r2 = str_of (v ''r2'');
          quicMode = bool_of (v ''quicMode''); fingerprint = str_of (v ''fingerprint'');
          resolve = fst (resolveRelayAddr (ce_net E) (ce_lookup E) r1 r2)
      in case ParseInvite passVal of
           Inr iv \<Rightarrow>
             (case (if iv_RelayAddr iv \<noteq> '''' \<and> r1 = '''' \<and> r2 = '''' then Inr (iv_RelayAddr iv) else resolve) of
                Inl e \<Rightarrow> Inl (CeResolve e)
              | Inr relayAddr \<Rightarrow>
                  Inr (iv_Code iv, relayAddr, quicMode \<or> iv_TransportMode iv = ''quic'',
                       if iv_SPKIFingerprint iv \<noteq> '''' \<and> fingerprint = '''' then iv_SPKIFingerprint iv else fingerprint))
         | Inl _ \<Rightarrow>
             (case resolve of
                Inl e \<Rightarrow> Inl (CeResolve e)
              | Inr relayAddr \<Rightarrow> Inr (passVal, relayAddr, quicMode, fingerprint)))"

definition subscribe_banner :: "string \<Rightarrow> bytes \<Rightarrow> string \<Rightarrow> bool \<Rightarrow> bool \<Rightarrow> string list" where
  "subscribe_banner passVal sid relayAddr quicMode streamMode =
     [rule_line,
      '' [ZeroFeed Subscriber] Active Session'' @ newline,
      '' Code / Passphrase : '' @ maskSecret passVal @ newline,
      '' Session ID        : '' @ hex_encode sid @ newline,
      '' Relay Server      : '' @ relayAddr @ newline,
      '' Transport Mode    : '' @ mode_name quicMode @ newline,
      '' Stream Mode       : '' @ show_bool streamMode @ newline,
      rule_line]"

text \<open>\<open>runSubscribe\<close> up to the banner.\<close>

definition subscribe_setup :: "cli_env \<Rightarrow> string list \<Rightarrow> proc \<Rightarrow> (cli_err + bool \<times> mslice \<times> subscriber) \<times> proc" where
  "subscribe_setup E args ps =
     (case flag_parse subscribe_flags subscribe_defaults args of
        Inl e \<Rightarrow> (Inl (CeFlag e), ps)
      | Inr (v, rest) \<Rightarrow>
          let quiet = bool_of (v ''quiet'');
              ps = ps\<lparr>ps_log := init_logger quiet v (ps_log ps)\<rparr>;
              passVal = flag_passphrase E v;
              passVal = (if passVal = '''' \<and> 0 < length rest then hd rest else passVal)
          in if passVal = '''' then (Inl CeNoPassphrase, ps)
             else case subscribe_target E v passVal of
                    Inl e \<Rightarrow> (Inl e, ps)
                  | Inr (passVal, relayAddr, quicMode, fingerprint) \<Rightarrow>
                      let (codeBytes, mem) = new_slice (bytes_of passVal) (ps_mem ps);
                          mem = RegisterBuffer codeBytes mem
                      in case NewSubscriberEngine (ce_prims E) (ce_new E) 1 (bytes_of passVal) relayAddr mem of
                           (Inl e, mem) \<Rightarrow> (Inl (CeFeed e), ps\<lparr>ps_mem := mem_ZeroBytes codeBytes mem\<rparr>)
                         | (Inr s, mem) \<Rightarrow>
                             let s = (if fingerprint \<noteq> '''' then Subscriber_SetSPKIFingerprint fingerprint s else s);
                                 s = (if quicMode then Subscriber_SetTransportMode ModeQUIC s else s)
                             in (Inr (quiet, codeBytes, s),
                                 logStderr quiet
                                   (subscribe_banner passVal (Subscriber_SessionID s) relayAddr quicMode (bool_of (v ''streamMode'')))
                                   (ps\<lparr>ps_mem := mem\<rparr>)))"

text \<open>The writer of the subscriber's output: the bytes are overwritten once they are out, and a broken
  pipe counts as the end of the stream. The answer of the standard output is an argument.\<close>

datatype write_err = WrPipe | WrEOF | WrOther

definition wipingWriter_Write :: "nat \<times> write_err option \<Rightarrow> mslice \<Rightarrow> mstate \<Rightarrow> (nat \<times> write_err option) \<times> mstate" where
  "wipingWriter_Write answer p st =
     (case answer of (n, err) \<Rightarrow> ((n, if err = Some WrPipe then Some WrEOF else err), mem_ZeroBytes p st))"

text \<open>\<open>errors.Is(err, io.EOF)\<close>\<close>

definition stream_EOF :: "feed_err \<Rightarrow> bool" where
  "stream_EOF e = (case e of ErrProto e \<Rightarrow> is_EOF e | _ \<Rightarrow> False)"

definition subscribe_session :: "cli_env \<Rightarrow> bool \<Rightarrow> mslice \<Rightarrow> subscriber \<Rightarrow> proc \<Rightarrow> (cli_err + unit) \<times> sloop \<times> proc" where
  "subscribe_session E quiet codeBytes s ps =
     (let loop = (\<lambda>s. \<lparr>sl_sub = s, sl_stream = ce_stream E, sl_backoff = 100 * 1000000\<rparr>);
          finish = (\<lambda>r l ps. (r, l, ps\<lparr>ps_mem := mem_ZeroBytes codeBytes (ps_mem ps)\<rparr>))
      in case Subscriber_Connect (ce_prims E) (ce_net E) (ce_connect E) s of
           (Inl e, s) \<Rightarrow> finish (Inl (CeConnect e)) (loop s) ps
         | (Inr _, s) \<Rightarrow>
             (case Subscriber_CompleteHandshake (ce_prims E) s of
                (Inl e, s) \<Rightarrow> finish (Inl (CeHandshake e)) (loop s) ps
              | (Inr _, s) \<Rightarrow>
                  let ps = logStderr quiet [''[+] Authenticated PAKE session established! Decrypting stream...'' @ newline,
                             badge_line (sb_sasEmoji s) (sb_sasHex s)] ps
                  in case SubscribeStream (ce_prims E) (ce_iterations E) (loop s) of
                       (Return (Inl e), l) \<Rightarrow>
                         finish (Inr ()) l (if stream_EOF e then ps else logStderr quiet [''Stream closed''] ps)
                     | (_, l) \<Rightarrow> finish (Inr ()) l ps))"

definition runSubscribe :: "cli_env \<Rightarrow> string list \<Rightarrow> proc \<Rightarrow> (cli_err + unit) \<times> proc" where
  "runSubscribe E args ps =
     (case subscribe_setup E args ps of
        (Inl e, ps) \<Rightarrow> (Inl e, ps)
      | (Inr (quiet, codeBytes, s), ps) \<Rightarrow>
          (case subscribe_session E quiet codeBytes s ps of (r, _, ps) \<Rightarrow> (r, ps)))"

definition runJoin :: "cli_env \<Rightarrow> string list \<Rightarrow> proc \<Rightarrow> (cli_err + unit) \<times> proc" where
  "runJoin E args ps = (if length args = 0 then (Inl CeUsage, ps) else runSubscribe E args ps)"

section \<open>invite\<close>

definition invite_flags :: flag_set where
  "invite_flags = [(''passphrase'', ''p1''), (''code'', ''p2''), (''relay'', ''r1''), (''r'', ''r2''), (''quiet'', ''quiet''), (''q'', ''quiet'')]"

definition invite_defaults :: flag_env where
  "invite_defaults = (\<lambda>_. FStr '''')(''quiet'' := FBool False)"

definition runInvite :: "cli_env \<Rightarrow> string list \<Rightarrow> proc \<Rightarrow> ((cli_err + unit) \<times> proc) option" where
  "runInvite E args ps =
     (case flag_parse invite_flags invite_defaults args of
        Inl e \<Rightarrow> Some (Inl (CeFlag e), ps)
      | Inr (v, rest) \<Rightarrow>
          let passVal = parsePassphrase (ne_getenv (ce_net E)) [Some (str_of (v ''p1'')), Some (str_of (v ''p2'')), None, None, None];
              passVal = (if passVal = '''' \<and> 0 < length rest then hd rest else passVal)
          in case (if passVal = '''' then generateChannelCode (fst (ce_code E)) (snd (ce_code E)) else Some passVal) of
               None \<Rightarrow> None
             | Some passVal \<Rightarrow>
                 let relayAddr = str_of (v ''r1'');
                     relayAddr = (if relayAddr = '''' then str_of (v ''r2'') else relayAddr);
                     relayAddr = (if relayAddr = '''' then ne_getenv (ce_net E) ''ZEROFEED_RELAY'' else relayAddr);
                     relayAddr = (if relayAddr = '''' then DefaultRelayDNS @ '':'' @ DefaultRelayPort else relayAddr);
                     iv = GenerateInvite passVal relayAddr
                 in Some (Inr (),
                      if bool_of (v ''quiet'') then ps\<lparr>ps_stdout := ps_stdout ps @ [ToURI iv @ newline]\<rparr>
                      else ps\<lparr>ps_stderr := ps_stderr ps @ [FormatBanner iv @ newline]\<rparr>))"

section \<open>relay\<close>

definition relay_flags :: flag_set where
  "relay_flags =
     [(''port'', ''port''), (''p'', ''port''), (''quic'', ''quicMode''), (''ws-port'', ''wsPort''), (''ws-cert'', ''wsCert''),
      (''ws-key'', ''wsKey''), (''no-rate-limit'', ''noRateLimit''), (''trust-proxy'', ''trustProxy''),
      (''metrics-port'', ''metricsPort''), (''metrics-addr'', ''metricsAddr''), (''log-format'', ''logFormat''),
      (''log-level'', ''logLevel'')]"

definition relay_defaults :: flag_env where
  "relay_defaults =
     (\<lambda>_. FStr '''')(''port'' := FInt 8443, ''quicMode'' := FBool False, ''wsPort'' := FInt 8444,
       ''noRateLimit'' := FBool False, ''trustProxy'' := FBool False, ''metricsPort'' := FInt 0,
       ''logFormat'' := FStr ''text'', ''logLevel'' := FStr ''info'')"

text \<open>The listeners \<open>runRelay\<close> starts: metrics (an empty address: none), WebSocket with certificate and key, QUIC, TCP.\<close>

record relay_cfg =
  rc_metrics :: string
  rc_websocket :: "(string \<times> string \<times> string) option"
  rc_quic :: bool
  rc_listen :: string

definition any_addr :: "int \<Rightarrow> string" where
  "any_addr port = ''0.0.0.0:'' @ print_int port"

definition relay_banner :: "int \<Rightarrow> string \<Rightarrow> int \<Rightarrow> string \<Rightarrow> string list" where
  "relay_banner port modeStr wsPort mAddr =
     [rule_line, '' [ZeroFeed Standalone Relay Node]'' @ newline,
      '' Listening Port : '' @ print_int port @ '' ('' @ modeStr @ '')'' @ newline]
     @ (if 0 < wsPort then ['' WebSocket Port : '' @ print_int wsPort @ '' (ws://)'' @ newline] else [])
     @ (if mAddr \<noteq> '''' then ['' Metrics Server : http://'' @ mAddr @ ''/metrics (Prometheus)'' @ newline] else [])
     @ ['' Mode           : Ephemeral RAM-Only Zero-Knowledge Relay'' @ newline, rule_line]"

definition relay_setup :: "string list \<Rightarrow> proc \<Rightarrow> (cli_err + relay_cfg \<times> server) \<times> proc" where
  "relay_setup args ps =
     (case flag_parse relay_flags relay_defaults args of
        Inl e \<Rightarrow> (Inl (CeFlag e), ps)
      | Inr (v, _) \<Rightarrow>
          let ps = ps\<lparr>ps_log := Init (str_of (v ''logFormat'')) (str_of (v ''logLevel'')) (ps_log ps)\<rparr>;
              mAddr = str_of (v ''metricsAddr'');
              mAddr = (if mAddr = '''' \<and> 0 < int_of (v ''metricsPort'') then any_addr (int_of (v ''metricsPort'')) else mAddr);
              srv = NewServer;
              srv = (if bool_of (v ''noRateLimit'') then SetRateLimiting False srv else srv);
              srv = (if bool_of (v ''trustProxy'') then SetTrustProxy True srv else srv);
              ps = ps\<lparr>ps_mem := RegisterWiper (Some 1) (ps_mem ps)\<rparr>;
              quicMode = bool_of (v ''quicMode''); wsPort = int_of (v ''wsPort''); port = int_of (v ''port'');
              modeStr = (if quicMode then ''TCP + QUIC (UDP)'' else ''TCP'')
          in (Inr (\<lparr>rc_metrics = mAddr,
                    rc_websocket = (if 0 < wsPort then Some (any_addr wsPort, str_of (v ''wsCert''), str_of (v ''wsKey'')) else None),
                    rc_quic = quicMode, rc_listen = any_addr port\<rparr>, srv),
              if Format (ps_log ps) = FormatJSON
              then ps\<lparr>ps_log := Info ''ZeroFeed Standalone Relay Node starting'' (ps_log ps)\<rparr>
              else ps\<lparr>ps_stderr := ps_stderr ps @ relay_banner port modeStr wsPort mAddr\<rparr>))"

section \<open>The program\<close>

definition usage :: "string list" where
  "usage = map (\<lambda>l. l @ newline)
     [''ZeroFeed: Zero-Knowledge Ephemeral Pub/Sub Engine'',
      newline @ ''Usage:'',
      ''  zerofeed invite [code] [--relay <addr>]'',
      ''  zerofeed join <invite|code|uri>'',
      ''  zerofeed publish [--channel <code|passphrase>] [--ttl 5m] [--stream] [--quic] [--quiet]'',
      ''  zerofeed subscribe --code <code|passphrase|uri> [--stream] [--quic] [--quiet]'',
      ''  zerofeed relay [--port 8443] [--quic]'',
      ''  zerofeed gen'',
      ''  zerofeed version'',
      newline @ ''Run '' @ [CHR 0x27] @ ''zerofeed <subcommand> --help'' @ [CHR 0x27] @ '' for details.'']"

definition print_lines :: "string list \<Rightarrow> proc \<Rightarrow> proc" where
  "print_lines ls ps = ps\<lparr>ps_stdout := ps_stdout ps @ ls\<rparr>"

text \<open>\<open>version.Info\<close>; version, commit and date are variables a build may set, the rest is the runtime's.\<close>

definition Version_default :: string where "Version_default = ''v1.4.0''"

definition GitCommit_default :: string where "GitCommit_default = ''dev''"

definition BuildDate_default :: string where "BuildDate_default = ''unknown''"

definition version_Info :: "string \<Rightarrow> string \<Rightarrow> string \<Rightarrow> string \<Rightarrow> string \<Rightarrow> string \<Rightarrow> string" where
  "version_Info version commit date goos goarch goversion =
     ''ZeroFeed '' @ version @ '' (commit '' @ commit @ '', built '' @ date @ '', '' @ goos @ ''/'' @ goarch @ '', '' @ goversion @ '')''"

text \<open>\<open>run\<close> stands for the serving of the relay: what \<open>Start\<close> comes to.\<close>

definition runRelay :: "(relay_cfg \<Rightarrow> server \<Rightarrow> cli_err + unit) \<Rightarrow> string list \<Rightarrow> proc \<Rightarrow> (cli_err + unit) \<times> proc" where
  "runRelay run args ps =
     (case relay_setup args ps of
        (Inl e, ps) \<Rightarrow> (Inl e, ps)
      | (Inr (cfg, srv), ps) \<Rightarrow> (run cfg srv, ps))"

definition runGen :: "cli_env \<Rightarrow> proc \<Rightarrow> proc option" where
  "runGen E ps =
     map_option (\<lambda>code. print_lines [code @ newline] ps) (generateChannelCode (fst (ce_code E)) (snd (ce_code E)))"

definition runMain ::
    "(relay_cfg \<Rightarrow> server \<Rightarrow> cli_err + unit) \<Rightarrow> cli_env \<Rightarrow> string list \<Rightarrow> proc \<Rightarrow> ((cli_err + unit) \<times> proc) option" where
  "runMain run E argv ps =
     (case argv of
        [] \<Rightarrow> Some (Inl CeNoSubcommand, print_lines usage ps)
      | subcommand # args \<Rightarrow>
          if subcommand \<in> {''publish'', ''pub''} then runPublish E args ps
          else if subcommand \<in> {''subscribe'', ''sub''} then Some (runSubscribe E args ps)
          else if subcommand = ''invite'' then runInvite E args ps
          else if subcommand = ''join'' then Some (runJoin E args ps)
          else if subcommand = ''relay'' then Some (runRelay run args ps)
          else if subcommand \<in> {''gen'', ''generate''} then map_option (Pair (Inr ())) (runGen E ps)
          else if subcommand \<in> {''version'', ''-v'', ''--version''} then Some (Inr (), print_lines [ce_version E @ newline] ps)
          else if subcommand \<in> {''help'', ''-h'', ''--help''} then Some (Inr (), print_lines usage ps)
          else Some (Inl (CeUnknown subcommand), print_lines usage ps))"

text \<open>\<open>main\<close>: everything registered is wiped at the end; the exit code.\<close>

definition main_exit ::
    "(nat \<Rightarrow> mstate \<Rightarrow> mstate) \<Rightarrow> (relay_cfg \<Rightarrow> server \<Rightarrow> cli_err + unit) \<Rightarrow> cli_env \<Rightarrow> string list \<Rightarrow> proc \<Rightarrow> (nat \<times> proc) option" where
  "main_exit wiper run E argv ps =
     map_option (\<lambda>(r, ps). (case r of Inl _ \<Rightarrow> 1 | Inr _ \<Rightarrow> 0, ps\<lparr>ps_mem := WipeAll wiper (ps_mem ps)\<rparr>)) (runMain run E argv ps)"

end
