(* ===== verification/Cli_Props.thy ===== *)
theory Cli_Props
  imports Cli Feed_Life
begin

text \<open>
  What the commands do from their arguments on: an invite and the \<open>join\<close> that takes it, and what the
  publisher's banner shows of the code.
\<close>

section \<open>Reading arguments\<close>

lemma plain_key_flag:
  assumes "plain_key name"
  shows "name \<noteq> []" "hd name \<noteq> CHR ''-''" "hd name \<noteq> CHR ''=''" "split_value name = (name, None)"
proof -
  have k: "\<not> is_alnum (CHR ''='')" "\<not> is_alnum (CHR ''-'')" by (simp_all add: is_alnum_def)
  have "CHR ''='' \<notin> set name" using assms k by (auto simp: plain_key_def list_all_iff)
  from Cut_char_None [OF this] show "split_value name = (name, None)" by (simp add: split_value_def)
  show "name \<noteq> []" "hd name \<noteq> CHR ''-''" "hd name \<noteq> CHR ''=''" using assms k by (cases name; auto simp: plain_key_def)+
qed

text \<open>A flag of two dashes followed by its value, and a boolean flag.\<close>

lemma flag_parse_value:
  assumes "plain_key name" "map_of fs name = Some var" "v var = FStr old"
  shows "flag_parse fs v ((''--'' @ name) # x # args) = flag_parse fs (v(var := FStr x)) args"
proof -
  note n = plain_key_flag [OF assms(1)]
  have "parseOne fs v ((''--'' @ name) # x # args) = PSeen (v(var := FStr x)) args"
    using assms(2,3) n by (simp add: parseOne_def flag_name_def set_step_def set_value_def)
  then show ?thesis by (subst flag_parse.simps) simp
qed

lemma flag_parse_bool:
  assumes "plain_key name" "map_of fs name = Some var" "v var = FBool old"
  shows "flag_parse fs v ((''--'' @ name) # args) = flag_parse fs (v(var := FBool True)) args"
proof -
  note n = plain_key_flag [OF assms(1)]
  have "parseOne fs v ((''--'' @ name) # args) = PSeen (v(var := FBool True)) args"
    using assms(2,3) n by (simp add: parseOne_def flag_name_def)
  then show ?thesis by (subst flag_parse.simps) simp
qed

section \<open>From invite to join\<close>

definition invite_args :: "string \<Rightarrow> string \<Rightarrow> string list" where
  "invite_args code relay = [''--quiet'', ''--code'', code, ''--relay'', relay]"

lemma invite_args_parse:
  "flag_parse invite_flags invite_defaults (invite_args code relay) =
     Inr (invite_defaults(''quiet'' := FBool True, ''p2'' := FStr code, ''r1'' := FStr relay), [])"
proof -
  have k: "plain_key ''quiet''" "plain_key ''code''" "plain_key ''relay''" by (simp_all add: plain_key_def is_alnum_def)
  have "flag_parse invite_flags invite_defaults (invite_args code relay)
      = flag_parse invite_flags (invite_defaults(''quiet'' := FBool True)) [''--code'', code, ''--relay'', relay]"
    using flag_parse_bool [OF k(1), of invite_flags "''quiet''" invite_defaults False]
    by (simp add: invite_args_def invite_flags_def invite_defaults_def)
  also have "\<dots> = flag_parse invite_flags (invite_defaults(''quiet'' := FBool True, ''p2'' := FStr code)) [''--relay'', relay]"
    using flag_parse_value [OF k(2), of invite_flags "''p2''"] by (simp add: invite_flags_def invite_defaults_def)
  also have "\<dots> = Inr (invite_defaults(''quiet'' := FBool True, ''p2'' := FStr code, ''r1'' := FStr relay), [])"
    using flag_parse_value [OF k(3), of invite_flags "''r1''"] by (simp add: invite_flags_def invite_defaults_def)
  finally show ?thesis .
qed

lemma runInvite_prints:
  assumes "code \<noteq> ''''" "relay \<noteq> ''''"
  shows "runInvite E (invite_args code relay) ps
     = Some (Inr (), ps\<lparr>ps_stdout := ps_stdout ps @ [ToURI (GenerateInvite code relay) @ newline]\<rparr>)"
  unfolding runInvite_def invite_args_parse
  using assms by (simp add: parsePassphrase_def invite_defaults_def)

lemma ToURI_positional: "length (ToURI i) \<ge> 2 \<and> hd (ToURI i) \<noteq> CHR ''-''"
  by (simp add: ToURI_def)

text \<open>The subscriber that a positional invite leads to.\<close>

lemma subscribe_positional:
  assumes "iv_Code i \<noteq> ''''" "iv_RelayAddr i \<noteq> ''''" "list_all relay_char (iv_RelayAddr i)"
    and "ne_getenv (ce_net E) ''ZEROFEED_PASSPHRASE'' = ''''"
    and "NewSubscriberEngine (ce_prims E) (ce_new E) 1 (bytes_of (iv_Code i)) (iv_RelayAddr i)
           (RegisterBuffer (fst (new_slice (bytes_of (iv_Code i)) (ps_mem ps))) (snd (new_slice (bytes_of (iv_Code i)) (ps_mem ps)))) = (Inr s, mem)"
    and "iv_TransportMode i = ''''" "iv_SPKIFingerprint i = ''''"
  shows "\<exists>quiet buf ps'. subscribe_setup E [ToURI i] ps = (Inr (quiet, buf, s), ps')"
proof -
  have f: "flag_parse subscribe_flags subscribe_defaults [ToURI i] = Inr (subscribe_defaults, [ToURI i])"
    by (rule flag_parse_positional) (use ToURI_positional [of i] in simp)
  have "ToURI i \<noteq> ''''" by (simp add: ToURI_def)
  moreover have "flag_passphrase E subscribe_defaults = ''''"
    using assms(4) by (simp add: flag_passphrase_def parsePassphrase_def subscribe_defaults_def)
  moreover have "subscribe_target E subscribe_defaults (ToURI i) = Inr (iv_Code i, iv_RelayAddr i, False, '''')"
    using invite_read_back [OF assms(1,3)] assms(2,6,7) by (simp add: subscribe_target_def subscribe_defaults_def)
  moreover obtain sl m where "new_slice (bytes_of (iv_Code i)) (ps_mem ps) = (sl, m)" by fastforce
  ultimately show ?thesis
    using f assms(5) by (simp add: subscribe_setup_def Let_def)
qed

text \<open>C14: what \<open>invite\<close> prints, \<open>join\<close> understands. For every code and every relay address of ordinary characters,
  the URI that \<open>invite --quiet --code ... --relay ...\<close> writes to standard output, given to
  \<open>join\<close> in an environment without a passphrase variable, gives a subscriber with that code, that
  relay and the session identifier of the code; no relay is probed.\<close>

theorem invite_join:
  assumes "code \<noteq> ''''" "relay \<noteq> ''''" "list_all relay_char relay"
    and "ne_getenv (ce_net E') ''ZEROFEED_PASSPHRASE'' = ''''"
    and "NewPAKESubscriber (ce_prims E') (ce_new E') (bytes_of code) = Inr peer"
  shows "\<exists>uri ps1 quiet buf s ps2. runInvite E (invite_args code relay) ps = Some (Inr (), ps1)
     \<and> ps_stdout ps1 = ps_stdout ps @ [uri @ newline]
     \<and> subscribe_setup E' [uri] ps' = (Inr (quiet, buf, s), ps2)
     \<and> sb_passphrase s = Some (bytes_of code) \<and> sb_relayAddr s = relay
     \<and> sb_sessionID s = DeriveSessionID (ce_prims E') (bytes_of code)"
proof -
  let ?i = "GenerateInvite code relay"
  have i: "iv_Code ?i = code" "iv_RelayAddr ?i = relay" "iv_TransportMode ?i = ''''" "iv_SPKIFingerprint ?i = ''''"
    by (simp_all add: GenerateInvite_def)
  let ?b = "new_slice (bytes_of code) (ps_mem ps')"
  obtain s mem where s: "NewSubscriberEngine (ce_prims E') (ce_new E') 1 (bytes_of code) relay (RegisterBuffer (fst ?b) (snd ?b)) = (Inr s, mem)"
    "sb_passphrase s = Some (bytes_of code)" "sb_relayAddr s = relay" "sb_sessionID s = DeriveSessionID (ce_prims E') (bytes_of code)"
    using assms(5) by (simp add: NewSubscriberEngine_def Let_def go_copy_whole)
  obtain quiet buf ps2 where "subscribe_setup E' [ToURI ?i] ps' = (Inr (quiet, buf, s), ps2)"
    using subscribe_positional [of ?i E' ps' s mem] assms i s(1) by auto
  then show ?thesis using runInvite_prints [OF assms(1,2), of E ps] s(2-4) by fastforce
qed

text \<open>A positional invite counts only if the environment has no passphrase.\<close>

lemma join_env_wins:
  assumes "ne_getenv (ce_net E) ''ZEROFEED_PASSPHRASE'' = e" "e \<noteq> ''''"
  shows "subscribe_setup E [ToURI i] ps = subscribe_setup E [''ignored''] ps"
proof -
  have "flag_parse subscribe_flags subscribe_defaults [ToURI i] = Inr (subscribe_defaults, [ToURI i])"
    "flag_parse subscribe_flags subscribe_defaults [''ignored''] = Inr (subscribe_defaults, [''ignored''])"
    by (rule flag_parse_positional, use ToURI_positional [of i] in simp)+
  moreover have "flag_passphrase E subscribe_defaults = e"
    using assms by (simp add: flag_passphrase_def parsePassphrase_def subscribe_defaults_def)
  ultimately show ?thesis using assms(2) by (simp add: subscribe_setup_def)
qed

section \<open>What the banner shows\<close>

lemma NewPublisherEngine_relay:
  "NewPublisherEngine P now rnd mk me pw addr reg = (Inr p, reg') \<Longrightarrow> pb_relayAddr p = addr"
  by (auto simp: NewPublisherEngine_def Let_def split: sum.splits option.splits prod.splits)

lemma configure_publisher_relay [simp]: "pb_relayAddr (configure_publisher E v p) = pb_relayAddr p"
  by (simp add: configure_publisher_def SetRekeyThresholds_def Publisher_SetSPKIFingerprint_def Publisher_SetTransportMode_def Let_def)

lemma publish_setup_banner:
  assumes "flag_parse publish_flags publish_defaults args = Inr (v, rest)" "\<not> bool_of (v ''quiet'')" "publish_code E v = Some (g, code)"
    and "publish_setup E args ps = Some (Inr (cfg, p), ps')"
  shows "\<exists>ttl. set (publish_banner E g code (pb_sessionID p) (pb_relayAddr p) (bool_of (v ''quicMode'')) ttl (bool_of (v ''streamMode'')))
     \<subseteq> set (ps_stderr ps')"
proof -
  obtain addr where a: "fst (resolveRelayAddr (ce_net E) (ce_lookup E) (str_of (v ''r1'')) (str_of (v ''r2''))) = Inr addr"
    using assms by (auto simp: publish_setup_def Let_def split: sum.splits)
  obtain ttl where t: "ce_ParseDuration E (str_of (v ''ttlStr'')) = Some ttl"
    using assms a by (auto simp: publish_setup_def Let_def split: option.splits)
  obtain q reg m' ps1 where q: "NewPublisherEngine (ce_prims E) (ce_now E) (ce_new E) (ce_master E) 1 (bytes_of code) addr reg = (Inr q, m')"
    and r: "p = configure_publisher E v q" "ps' = logStderr False (publish_banner E g code (Publisher_SessionID p) addr (bool_of (v ''quicMode'')) ttl
        (bool_of (v ''streamMode''))) ps1"
    using assms a t by (auto simp: publish_setup_def Let_def split: prod.splits sum.splits)
  have "pb_relayAddr p = addr" using r(1) NewPublisherEngine_relay [OF q] by simp
  then show ?thesis using r(2) by (auto simp: logStderr_def Publisher_SessionID_def)
qed

text \<open>C36: masking the code in the publisher's banner hides nothing. When the user supplies a code, the banner shows it
  masked, and three lines below in full: the line with the native URI has the invite, from which
  the parser of invites reads the code back.\<close>

theorem supplied_code_printed:
  assumes "publish_setup E args ps = Some (Inr (cfg, p), ps')"
    and "flag_parse publish_flags publish_defaults args = Inr (v, rest)" "\<not> bool_of (v ''quiet'')"
    and "flag_passphrase E v \<noteq> ''''" "list_all relay_char (pb_relayAddr p)"
  shows "'' Code / Passphrase : '' @ maskSecret (flag_passphrase E v) @ '' (supplied)'' @ newline \<in> set (ps_stderr ps')
     \<and> (\<exists>uri i. '' Native URI        : '' @ uri @ newline \<in> set (ps_stderr ps') \<and> ParseInvite uri = Inr i \<and> iv_Code i = flag_passphrase E v)"
proof -
  let ?i = "GenerateInvite (flag_passphrase E v) (pb_relayAddr p)"
  have "publish_code E v = Some (False, flag_passphrase E v)" using assms(4) by (simp add: publish_code_def)
  from publish_setup_banner [OF assms(2,3) this assms(1)]
  have "'' Code / Passphrase : '' @ maskSecret (flag_passphrase E v) @ '' (supplied)'' @ newline \<in> set (ps_stderr ps')"
    "'' Native URI        : '' @ ToURI ?i @ newline \<in> set (ps_stderr ps')"
    by (auto simp: publish_banner_def Let_def)
  moreover have "ParseInvite (ToURI ?i) = Inr ?i" "iv_Code ?i = flag_passphrase E v"
    using assms(4,5) by (auto simp: GenerateInvite_def intro!: invite_read_back)
  ultimately show ?thesis by blast
qed

section \<open>A world to run in\<close>

definition sample_cli :: cli_env where
  "sample_cli = \<lparr>ce_net = tcp_net (fresh_conn [] EOF), ce_lookup = (\<lambda>_. None), ce_prims = sample_prims,
     ce_code = (None, \<lambda>_ _. 0), ce_now = 0, ce_new = sample_rnd\<lparr>pr_x := Some [9]\<rparr>, ce_master = Some [2],
     ce_connect = sample_rnd, ce_hs = sample_hs, ce_ParseDuration = (\<lambda>_. Some 0), ce_durText = (\<lambda>_. ''0s''),
     ce_file = (\<lambda>_. None), ce_sendRnd = (\<lambda>_. (0, None), \<lambda>_. AckDone, None), ce_terminal = True, ce_events = [],
     ce_iterations = [], ce_stream = sl_stream (sample_loop []), ce_version = ''dev''\<rparr>"

definition sample_proc :: proc where
  "sample_proc = \<lparr>ps_mem = sample_mem, ps_log = initial_logger, ps_stderr = [], ps_stdout = []\<rparr>"

lemma sample_cli_sel [simp]:
  "ce_prims sample_cli = sample_prims" "ce_new sample_cli = sample_rnd\<lparr>pr_x := Some [9]\<rparr>" "ce_master sample_cli = Some [2]"
  "ce_net sample_cli = tcp_net (fresh_conn [] EOF)" "ce_ParseDuration sample_cli = (\<lambda>_. Some 0)"
  "ne_getenv (tcp_net c) n = ''''" "ne_tcp (tcp_net c) nw a = Some c"
  by (simp_all add: sample_cli_def tcp_net_def dead_net_def)

theorem invite_join_witness:
  "\<exists>uri ps1 quiet buf s ps2. runInvite sample_cli (invite_args ''my code'' ''relay:1'') sample_proc = Some (Inr (), ps1)
     \<and> ps_stdout ps1 = ps_stdout sample_proc @ [uri @ newline]
     \<and> subscribe_setup sample_cli [uri] sample_proc = (Inr (quiet, buf, s), ps2)
     \<and> sb_passphrase s = Some (bytes_of ''my code'') \<and> sb_relayAddr s = ''relay:1''
     \<and> sb_sessionID s = DeriveSessionID (ce_prims sample_cli) (bytes_of ''my code'')"
proof -
  obtain peer where "NewPAKESubscriber sample_prims (sample_rnd\<lparr>pr_x := Some [9]\<rparr>) (bytes_of ''my code'') = Inr peer"
    using newPAKEPeer_sub [of "bytes_of ''my code''" "sample_rnd\<lparr>pr_x := Some [9]\<rparr>" "[9]" "[3]" "[4]", OF _ _ _ _ sample_prims_ok]
    by (auto simp: sample_rnd_def bytes_of_def)
  then show ?thesis by (intro invite_join [where peer = peer]) (simp_all add: relay_char_def visible_def)
qed

definition publish_args :: "string list" where
  "publish_args = [''--code'', ''correct horse battery'', ''--relay'', ''relay:1'']"

lemma publish_args_parse:
  "flag_parse publish_flags publish_defaults publish_args =
     Inr (publish_defaults(''p4'' := FStr ''correct horse battery'', ''r1'' := FStr ''relay:1''), [])"
proof -
  have k: "plain_key ''code''" "plain_key ''relay''" by (simp_all add: plain_key_def is_alnum_def)
  have "flag_parse publish_flags publish_defaults publish_args
      = flag_parse publish_flags (publish_defaults(''p4'' := FStr ''correct horse battery'')) [''--relay'', ''relay:1'']"
    using flag_parse_value [OF k(1), of publish_flags "''p4''"] by (simp add: publish_args_def publish_flags_def publish_defaults_def)
  also have "\<dots> = Inr (publish_defaults(''p4'' := FStr ''correct horse battery'', ''r1'' := FStr ''relay:1''), [])"
    using flag_parse_value [OF k(2), of publish_flags "''r1''"] by (simp add: publish_flags_def publish_defaults_def)
  finally show ?thesis .
qed

lemma sample_resolve:
  "fst (resolveRelayAddr (tcp_net (fresh_conn [] EOF)) lookup ''relay:1'' '''') = Inr ''relay:1''"
proof -
  have "TrimSpace ''relay:1'' = ''relay:1''" by (rule TrimSpace_all_visible) (simp add: visible_def)
  then have "ParseRelayList ''relay:1'' = [''relay:1'']" by (intro ParseRelayList_single) simp_all
  then show ?thesis by (simp add: resolveRelayAddr_def ProbeFirstAvailable_def DialFirstAvailable_def)
qed

lemma sample_publish_setup:
  "\<exists>cfg p ps'. publish_setup sample_cli publish_args sample_proc = Some (Inr (cfg, p), ps') \<and> pb_relayAddr p = ''relay:1''"
proof -
  let ?v = "publish_defaults(''p4'' := FStr ''correct horse battery'', ''r1'' := FStr ''relay:1'')"
  let ?c = "''correct horse battery''"
  have "flag_passphrase sample_cli ?v = ?c"
    by (simp add: flag_passphrase_def parsePassphrase_def publish_defaults_def)
  then have c: "publish_code sample_cli ?v = Some (False, ?c)" by (simp add: publish_code_def)
  obtain pub where pub: "NewPAKEPublisher sample_prims (sample_rnd\<lparr>pr_x := Some [9]\<rparr>) (bytes_of ?c) = Inr pub"
    using newPAKEPeer_pub [of "bytes_of ?c" "sample_rnd\<lparr>pr_x := Some [9]\<rparr>" "[9]"] by (auto simp: bytes_of_def)
  have "length (go_copy (replicate KeySize 0) 0 KeySize [2 :: byte]) = 32" by (simp add: KeySize_def)
  then have "\<exists>p m. NewPublisherEngine sample_prims (ce_now sample_cli) (sample_rnd\<lparr>pr_x := Some [9]\<rparr>) (Some [2]) 1 (bytes_of ?c) ''relay:1'' reg = (Inr p, m)
      \<and> pb_relayAddr p = ''relay:1''" for reg
    using pub by (simp add: NewPublisherEngine_def Let_def NewCipher_eq split: prod.split)
  then obtain p m where p: "\<And>reg. NewPublisherEngine sample_prims (ce_now sample_cli) (sample_rnd\<lparr>pr_x := Some [9]\<rparr>) (Some [2]) 1 (bytes_of ?c) ''relay:1'' reg = (Inr (p reg), m reg)"
    "\<And>reg. pb_relayAddr (p reg) = ''relay:1''" by metis
  have v: "str_of (?v ''r1'') = ''relay:1''" "str_of (?v ''r2'') = ''''" by (simp_all add: publish_defaults_def)
  show ?thesis
    unfolding publish_setup_def publish_args_parse
    using c p sample_resolve by (simp add: v Let_def del: fun_upd_apply split: prod.split)
qed

theorem supplied_code_printed_witness:
  "\<exists>cfg p ps' v. publish_setup sample_cli publish_args sample_proc = Some (Inr (cfg, p), ps') \<and> flag_passphrase sample_cli v = ''correct horse battery''
     \<and> '' Code / Passphrase : '' @ maskSecret (flag_passphrase sample_cli v) @ '' (supplied)'' @ newline \<in> set (ps_stderr ps')
     \<and> (\<exists>uri i. '' Native URI        : '' @ uri @ newline \<in> set (ps_stderr ps') \<and> ParseInvite uri = Inr i
          \<and> iv_Code i = flag_passphrase sample_cli v)"
proof -
  let ?v = "publish_defaults(''p4'' := FStr ''correct horse battery'', ''r1'' := FStr ''relay:1'')"
  obtain cfg p ps' where p: "publish_setup sample_cli publish_args sample_proc = Some (Inr (cfg, p), ps')" "pb_relayAddr p = ''relay:1''"
    using sample_publish_setup by blast
  have c: "flag_passphrase sample_cli ?v = ''correct horse battery''"
    by (simp add: flag_passphrase_def parsePassphrase_def publish_defaults_def)
  have "\<not> bool_of (?v ''quiet'')" by (simp add: publish_defaults_def)
  moreover have "list_all relay_char (pb_relayAddr p)" by (simp add: p(2) relay_char_def visible_def)
  ultimately show ?thesis using supplied_code_printed [OF p(1) publish_args_parse] p(1) c by fastforce
qed

section \<open>Buffers of standard input\<close>

text \<open>Every piece read from a pipe stays registered: the registry grows with the stream.\<close>

definition reads :: "cli_event \<Rightarrow> bool" where
  "reads ev = (case ev of EvRead b \<Rightarrow> b \<noteq> [] | _ \<Rightarrow> False)"

lemma hand_over_registers:
  "length (registeredBuffers (ps_mem (hand_over b ps))) = length (registeredBuffers (ps_mem ps)) + (if b = [] then 0 else 1)"
  by (simp add: hand_over_def new_slice_def RegisterBuffer_def Let_def)

lemma stdin_registered:
  "\<not> ce_terminal E \<Longrightarrow> publish_events E quiet evs (p, ps) = (None, p', ps') \<Longrightarrow>
   length (registeredBuffers (ps_mem ps')) = length (registeredBuffers (ps_mem ps)) + length (filter (\<lambda>(_, _, ev). reads ev) evs)"
proof (induction evs arbitrary: p ps)
  case (Cons e evs)
  obtain now rnd ev where e: "e = (now, rnd, ev)" by (cases e)
  show ?case
    using Cons.prems Cons.IH hand_over_registers
    by (auto simp: e reads_def split: cli_event.splits prod.splits option.splits)
qed simp

end
