(* ===== verification/Spec2Isabelle.thy ===== *)
theory Spec2Isabelle
  imports Protocol RingBuffer Cipher Pake Relay_Http Relay_Carry Wasm Progress Cli_Props
begin

text \<open>
  A verification of ZeroFeed, an end-to-end encrypted publish and subscribe tool in Go.

  \<^bold>\<open>The program.\<close> A publisher and one or more subscribers share a passphrase. Both dial a relay
  (\<open>pkg/relay\<close>) and name a session derived from the passphrase. A password-authenticated exchange
  (\<open>pkg/crypto/pake.go\<close>) gives each pair a key, under which the publisher hands over its master
  key; from then on it sends encrypted frames (\<open>pkg/protocol\<close>, \<open>pkg/crypto/cipher.go\<close>) that the relay
  forwards without being able to read them. The engines (\<open>pkg/feed\<close>) number the frames, change
  keys, replay what a returning subscriber missed, and transfer files. \<open>main.go\<close> is the command
  line, \<open>cmd/wasm\<close> the subscriber's part for a browser.

  \<^bold>\<open>How it is modelled.\<close> A struct is a record, an enumeration or a family of errors a datatype, an
  integer that can wrap a word of its width. A method is a function on the state it changes; every
  early return, error and panic is a branch. A Go string is a list of characters, one for each
  byte. Randomness, time, files, environment variables and the network are arguments. A
  connection (theory \<open>Go_IO\<close>) has the bytes that will arrive, how they end, and the writes made.
  Where goroutines share state the model is a machine whose events are the critical sections, and
  theorems speak about every sequence of events. Loops are structural or have a termination
  measure; the redrawing of a random byte in a channel code may run forever and is a partial
  function. The JSON reader has fuel for one step per byte of its input, which is enough for every
  header the program writes (theory \<open>Json_Roundtrip\<close>). Where a theorem has a bound, it is the program's own
  (32 MiB for a frame, ten attempts of a reconnection, 200 queued frames) or the width of a
  number (fewer than \<open>2 ^ 64\<close> sequence numbers).

  \<^bold>\<open>Foundations.\<close> \<open>ZF_Prelude\<close>: bytes, slices, big-endian numbers (locale \<open>fixed_codec\<close>). \<open>Go_IO\<close>:
  connections and the locales \<open>stream_codec\<close> (a framing read back from a stream, with interpretations
  for protocol frames and WebSocket frames) and \<open>safe_machine\<close> (an invariant every event keeps, with
  interpretations for the relay, the ring buffer, the rate limiter, the cipher and the memory
  registry). \<open>Go_Strings\<close>, \<open>Go_Net\<close>, \<open>Go_Path\<close>, \<open>Go_Json\<close>, \<open>Json_Roundtrip\<close>, \<open>Go_Url\<close>, \<open>Go_Flag\<close>: what
  the sources use of the standard library. \<open>Sha256\<close>, \<open>Aes_Gcm\<close>: SHA-256, HMAC and AES-256-GCM
  themselves, the latter an instance of the locale \<open>aead_scheme\<close>. X25519, ML-KEM and Argon2 are
  fields of the record \<open>prims\<close>, with their documented laws as the predicate \<open>prims_ok\<close>.

  \<^bold>\<open>Protocol and cryptography.\<close>
  \<^item> \<open>Protocol\<close> (\<open>messages.go\<close>, \<open>envelope.go\<close>): frames, padding. Encoding and decoding are inverse;
    the decoder accepts exactly the frames of the documented layout.
  \<^item> \<open>Cipher\<close> (\<open>cipher.go\<close>): HKDF against RFC 5869, with where it departs from it (the salt that stands
    for an empty one, no bound on the length); decryption succeeds exactly on encryptions.
  \<^item> \<open>Pake\<close> (\<open>pake.go\<close>): equal passphrases give equal keys; a confirmation tag is accepted exactly
    when it is the peer's.
  \<^item> \<open>Memzero\<close> (\<open>memzero.go\<close>): after a wipe every registered buffer is zero.

  \<^bold>\<open>Relay.\<close>
  \<^item> \<open>RateLimit\<close> (\<open>ratelimit.go\<close>), \<open>ProxyProto\<close> (\<open>proxy_proto.go\<close>), \<open>WebSocket\<close> (\<open>websocket.go\<close>): bans,
    the address behind a proxy, and the byte stream inside WebSocket frames.
  \<^item> \<open>Relay_Session\<close> (\<open>session.go\<close>) and \<open>Relay_Server\<close> (\<open>server.go\<close>, \<open>metrics.go\<close>): clients and sessions on
    a heap, goroutines as tasks. A connection is compared with the limit in one event and counted in
    another, in the TCP loop and in every WebSocket handler; switching proxy headers and rate
    limiting on and off are events too. \<open>Relay_Inv\<close> has the invariant and the limit on connections
    (kept for TCP, passed with WebSocket handlers), \<open>Relay_Props\<close> isolation, forwarding, the session
    table, housekeeping and the removal of a live session, \<open>Relay_Http\<close> the metrics page, the
    WebSocket handler and the listener.
  \<^item> \<open>Relay_Carry\<close>: frames cross the relay; with it the root theory composes publisher, relay and
    subscriber.

  \<^bold>\<open>Engines.\<close>
  \<^item> \<open>RingBuffer\<close> (\<open>ringbuffer.go\<close>): the replay buffer with the pool it shares memory with, refining the
    locale \<open>replay_log\<close>. \<open>Session_ID\<close> (\<open>session_id.go\<close>): identifiers, dialling, certificate pins.
    \<open>Sanitize\<close>: the terminal filter of \<open>subscriber.go\<close>.
  \<^item> \<open>Publisher\<close> (\<open>publisher.go\<close>) and \<open>Subscriber\<close> (\<open>subscriber.go\<close>): the engines as records with one
    definition per method or critical section.
  \<^item> \<open>Feed_Frames\<close>, \<open>Feed_Stream\<close>, \<open>Feed_Handshake\<close>, \<open>Feed_Props\<close>: the frames in closed form, the
    handshake of two engines, the stream from end to end. \<open>Feed_Nonce\<close>: no nonce is reused.
    \<open>Feed_Replay\<close>: catching up. \<open>Feed_Files\<close>: files arrive whole and stay in the download directory.
    \<open>Feed_Limits\<close> and \<open>Feed_Life\<close>: reconnection, closing, and two weaknesses (renumbered frames, a
    payload sealed during a key change).
  \<^item> \<open>Progress\<close> (\<open>progress.go\<close>): byte counts and the progress bar, with rounded rationals for floats.

  \<^bold>\<open>Front ends.\<close>
  \<^item> \<open>Invite\<close> (\<open>invite.go\<close>), \<open>Relay_List\<close> (\<open>relay_list.go\<close>), \<open>Channel_Code\<close>, \<open>Cli_Util\<close>, \<open>Cli\<close> (\<open>main.go\<close>,
    \<open>version.go\<close>), \<open>Logger\<close> (\<open>logger.go\<close>): invitations, relay lists, the exact set of channel
    codes, and the commands.
    \<open>Cli_Props\<close>: what \<open>invite\<close> prints \<open>join\<close> understands, and what \<open>publish\<close> shows of its code.
  \<^item> \<open>Wasm\<close> (\<open>cmd/wasm/main.go\<close>): the browser's functions; a browser joins a stream and reads it.

  \<^bold>\<open>Not modelled.\<close>
  \<^item> QUIC (\<open>pkg/transport\<close>, \<open>server_quic.go\<close>): wrappers around a third-party package behind a build
    tag. The QUIC dial of the engines is an argument, as are the TLS library and the resolver.
  \<^item> \<open>memlock_*.go\<close>, signals and terminal detection: system calls without a result the program
    uses, or facts of the environment.
  \<^item> The HTTP servers, listeners and timers themselves; their handlers and ticks are events.
    Deadlines show as failing reads and writes. The JavaScript that calls the browser's functions.
  \<^item> The texts of errors beyond which error it is; the rendering of log records; parsing and
    printing of durations, which are arguments of the commands. Case folding beyond ASCII.
  \<^item> Secrecy in the cryptographic sense: the theorems say which keys, nonces and plaintexts are
    used where, not that an adversary cannot compute them.
\<close>

section \<open>The whole path of a text\<close>

text \<open>C1: the text stream from the publisher's input to the subscriber's output, through the relay. The
  engines hold the same key; what the publisher writes arrives at the relay, whose loop for the
  session and whose writer for the subscriber run in turn; the subscriber reads what the relay
  wrote to it. Then the publisher does not fail, the relay has read everything and is ready for
  more, the subscriber has written exactly the published texts, each sanitised, in order, and
  both engines hold the same, current key. The relay forwards every frame but the heartbeats.\<close>

theorem relay_carries_stream:
  assumes "pub_ready k p" "sub_ready k (pb_seqCounter p) (sl_sub l)" "pb_untaggedInput p" "ss_writer (sl_stream l)" "list_all running evs"
    and "PublishStream evs p = (res, p')" "wire p' = wire p @ new" "unat (pb_seqCounter p) + length new < 2 ^ 64"
    and "carrying n s i j (concat new @ r) out st" "st' = fold sys_step (concat (replicate (length new) (carry_events n j sc pick))) st"
    and "cn_out (cl_netConn (clnt (fst st') j)) = out @ new'" "reading (sb_conn (sl_sub l)) = Some (concat new' @ r', t, False)"
    and "list_all undisturbed its" "length its = length new'"
  shows "res = None \<and> carrying n s i j r (out @ new') st' \<and> (\<exists>l' k'. SubscribeStream P its l = (Next, l')
     \<and> ss_out (sl_stream l') = ss_out (sl_stream l) @ map sanitizeTextOutput (texts evs)
     \<and> pub_ready k' p' \<and> sub_ready k' (pb_seqCounter p') (sl_sub l'))"
proof -
  let ?ms = "map ((#) TagText) (texts evs)"
  obtain fs k' where fs: "res = None" "pub_ready k' p'" "wire p' = wire p @ map frame_bytes fs"
    "stream_frames (pb_sessionID p) k (pb_seqCounter p) ?ms fs k' (pb_seqCounter p')"
    using PublishStream_ok [OF assms(1,5)] assms(3,6) by (auto simp: inputs_untagged)
  have new: "new = map frame_bytes fs" using fs(3) assms(7) by simp
  have ok: "list_all payload_ok ?ms" using inputs_ok [OF assms(5), of True] by (simp add: inputs_untagged)
  have k: "length (pb_sessionID p) = 16" "length k = 32" using assms(1) by (auto simp: pub_ready_def)
  have c: "carrying n s i j r (out @ map frame_bytes (beats_dropped fs)) st'"
    using carry_all [of n s i j fs r out st sc pick] assms(9,10) stream_sendable [OF fs(4) k(1) ok] stream_frames_open [OF fs(4)]
    by (simp add: new)
  then have new': "new' = map frame_bytes (beats_dropped fs)" using assms(11) by (simp add: carrying_def)
  have "length (beats_dropped fs) \<le> length fs" by (simp add: beats_dropped_def)
  then have "unat (pb_seqCounter p) + length (beats_dropped fs) < 2 ^ 64" using assms(8) new by simp
  then obtain l' where "SubscribeStream P its l = (Next, l')" "sub_ready k' (pb_seqCounter p') (sl_sub l')"
    "sl_stream l' = fold delivered ?ms (sl_stream l)"
    using SubscribeStream_stream [OF stream_frames_dropped [OF fs(4)] k assms(2) _ ok assms(13)] assms(12,14) new' by auto
  then show ?thesis using fs(1,2) c new' delivered_texts [OF assms(4)] by (auto simp del: fold_map)
qed

theorem relay_carries_stream_witness:
  "\<exists>res p' fs st' new' l' k'. PublishStream [(0, None, SelInput [104, 105]), (0, None, SelInput [])] sample_pub = (res, p')
     \<and> wire p' = wire sample_pub @ map frame_bytes fs \<and> res = None
     \<and> st' = fold sys_step (concat (replicate (length fs) (carry_events 0 1 sample_sched True))) (fold sys_step (meeting fs) sys_init)
     \<and> cn_out (cl_netConn (clnt (fst st') 1)) = [] @ new'
     \<and> SubscribeStream sample_prims (replicate (length new') sample_iter)
         \<lparr>sl_sub = sample_sub\<lparr>sb_conn := Some (fresh_conn (concat new') EOF)\<rparr>, sl_stream = sample_stream, sl_backoff = 0\<rparr> = (Next, l')
     \<and> ss_out (sl_stream l') = [] @ map sanitizeTextOutput [[104, 105]]
     \<and> pub_ready k' p' \<and> sub_ready k' (pb_seqCounter p') (sl_sub l')"
proof -
  let ?evs = "[(0, None, SelInput [104, 105]), (0, None, SelInput [])] :: (time \<times> bytes option \<times> pub_select) list"
  have run: "list_all running ?evs" by (simp add: running_def)
  have r: "pub_ready (replicate 32 1) (sample_pub\<lparr>pb_bytesSinceRekey := 3\<rparr>)" using sample_pub_ready by (simp add: pub_ready_def)
  have "payload_ok (TagText # [104, 105])" by (simp add: payload_ok_def)
  from publish_sealed_ok [OF r this] obtain p' e where e: "publish_sealed (TagText # [104, 105]) (sample_pub\<lparr>pb_bytesSinceRekey := 3\<rparr>) = (Inr (), p')"
    "wire p' = wire sample_pub @ [frame_bytes e]" by (auto simp: wire_def)
  define fs where "fs = [e]"
  have p': "PublishStream ?evs sample_pub = (None, p')" "wire p' = wire sample_pub @ map frame_bytes fs" "length fs \<le> 4"
    using e by (simp_all add: fs_def PublishStream_step_def PublishPayload_def count_payload_def tag_payload_def sample_pub_def)
  let ?st = "fold sys_step (meeting fs) sys_init"
  let ?st' = "fold sys_step (concat (replicate (length (map frame_bytes fs)) (carry_events 0 1 sample_sched True))) ?st"
  define new' where "new' = cn_out (cl_netConn (clnt (fst ?st') 1))"
  let ?l = "\<lparr>sl_sub = sample_sub\<lparr>sb_conn := Some (fresh_conn (concat new') EOF)\<rparr>, sl_stream = sample_stream, sl_backoff = 0\<rparr>"
  have l: "sub_ready (replicate 32 1) (pb_seqCounter sample_pub) (sl_sub ?l)" "ss_writer (sl_stream ?l)"
    "reading (sb_conn (sl_sub ?l)) = Some (concat new' @ [], EOF, False)" "pb_untaggedInput sample_pub"
    "list_all undisturbed (replicate (length new') sample_iter)" "unat (pb_seqCounter sample_pub) + length (map frame_bytes fs) < 2 ^ 64"
    using p'(3) by (simp_all add: sub_ready_def sample_sub_def sample_pub_def sample_stream_def sample_iter_def reading_def fresh_conn_def undisturbed_def list_all_iff)
  have c: "carrying 0 0 0 1 (concat (map frame_bytes fs) @ []) [] ?st" using meeting_carries by simp
  have "cn_out (cl_netConn (clnt (fst ?st') 1)) = [] @ new'" by (simp add: new'_def)
  from relay_carries_stream [OF sample_pub_ready l(1,4,2) run p'(1,2) l(6) c refl this l(3,5), of sample_prims]
  show ?thesis using p'(1,2) new'_def by (intro exI [of _ "None"] exI [of _ p'] exI [of _ fs] exI [of _ ?st'] exI [of _ new']) (auto simp: sample_stream_def)
qed

end
